(* ===== verification/Hawse_Prelude.thy ===== *)
theory Hawse_Prelude
  imports Main "HOL-Library.Word" "HOL-Library.Product_Lexorder"
begin

text \<open>
  The prelude of the development: the names of the machine types, byte encodings of
  machine words, the hash map every stateful component of the code keeps (an association
  list with distinct keys), and the two interfaces that several components provide: a text
  form that parses back (\<open>text_form\<close>), and a state that its operations keep well formed
  (\<open>machine\<close>).
\<close>

named_theorems hmap_simps \<open>laws of the hash map operations\<close>
named_theorems byte_simps \<open>laws of the byte encodings of machine words\<close>

section \<open>Machine types\<close>

type_synonym u8 = "8 word"
type_synonym u16 = "16 word"
type_synonym u32 = "32 word"
type_synonym u64 = "64 word"
type_synonym bytes = "8 word list"

text \<open>
  Instants and durations are natural numbers of nanoseconds: an \<open>Instant\<close> counts from an
  arbitrary origin, and subtraction stops at zero the way
  \<open>Instant::saturating_duration_since\<close> does.
\<close>

type_synonym instant = nat
type_synonym duration = nat

abbreviation secs :: "nat \<Rightarrow> duration" where
  "secs n \<equiv> n * 1000000000"

abbreviation millis :: "nat \<Rightarrow> duration" where
  "millis n \<equiv> n * 1000000"

text \<open>Fallible code returns a sum: \<open>Inl\<close> carries the error of the source, \<open>Inr\<close> its result.\<close>

definition is_ok :: "'e + 'a \<Rightarrow> bool" where
  "is_ok r = (case r of Inl _ \<Rightarrow> False | Inr _ \<Rightarrow> True)"

lemma is_ok_simps [simp]: "is_ok (Inr a)" "\<not> is_ok (Inl e)"
  by (simp_all add: is_ok_def)

lemma is_ok_iff: "is_ok r \<longleftrightarrow> (\<exists>a. r = Inr a)"
  by (cases r) auto

section \<open>Byte encodings\<close>

text \<open>
  \<open>to_le k n\<close> is the \<open>k\<close> low bytes of \<open>n\<close>, the least significant first, and \<open>of_le\<close> reads
  such a list back. \<open>u16::to_le_bytes\<close>, \<open>u32::to_le_bytes\<close>, \<open>u16::to_be_bytes\<close> and the
  \<open>from_\<close> functions are these at the width of the type; big endian is the reverse.
\<close>

fun to_le :: "nat \<Rightarrow> nat \<Rightarrow> bytes" where
  "to_le 0 n = []"
| "to_le (Suc k) n = word_of_nat (n mod 256) # to_le k (n div 256)"

fun of_le :: "bytes \<Rightarrow> nat" where
  "of_le [] = 0"
| "of_le (b # bs) = unat b + 256 * of_le bs"

definition le16 :: "u16 \<Rightarrow> bytes" where "le16 w = to_le 2 (unat w)"
definition le32 :: "u32 \<Rightarrow> bytes" where "le32 w = to_le 4 (unat w)"
definition be16 :: "u16 \<Rightarrow> bytes" where "be16 w = rev (to_le 2 (unat w))"

definition of_le16 :: "bytes \<Rightarrow> u16" where "of_le16 bs = word_of_nat (of_le bs)"
definition of_le32 :: "bytes \<Rightarrow> u32" where "of_le32 bs = word_of_nat (of_le bs)"
definition of_be16 :: "bytes \<Rightarrow> u16" where "of_be16 bs = word_of_nat (of_le (rev bs))"

lemma unat_bounds:
  "unat (a :: u8) < 256" "unat (b :: u16) < 65536" "unat (c :: u32) < 4294967296"
  "unat (d :: u64) < 18446744073709551616"
  by (rule order.strict_trans2 [OF unsigned_less]; simp)+

lemma length_to_le [simp]: "length (to_le k n) = k"
  by (induction k arbitrary: n) simp_all

lemma of_le_to_le: "of_le (to_le k n) = n mod 256 ^ k"
proof (induction k arbitrary: n)
  case (Suc k)
  have "unat (word_of_nat (n mod 256) :: u8) = n mod 256" by (simp add: unat_of_nat)
  then show ?case by (simp add: Suc mod_mult2_eq del: word_of_nat_eq_iff)
qed simp

lemma of_le_less: "of_le bs < 256 ^ length bs"
proof (induction bs)
  case (Cons b bs)
  have "unat b < 256" by (rule unat_bounds)
  with Cons show ?case by simp
qed simp

lemma to_le_of_le: "to_le (length bs) (of_le bs) = bs"
proof (induction bs)
  case (Cons b bs)
  have "unat b < 256" by (rule unat_bounds)
  then have "(unat b + 256 * of_le bs) mod 256 = unat b" "(unat b + 256 * of_le bs) div 256 = of_le bs"
    by simp_all
  with Cons show ?case by simp
qed simp

lemma of_le16_le16 [byte_simps]: "of_le16 (le16 w) = w"
  using unat_bounds(2) [of w] by (simp add: of_le16_def le16_def of_le_to_le)

lemma of_le32_le32 [byte_simps]: "of_le32 (le32 w) = w"
  using unat_bounds(3) [of w] by (simp add: of_le32_def le32_def of_le_to_le)

lemma of_be16_be16 [byte_simps]: "of_be16 (be16 w) = w"
  using unat_bounds(2) [of w] by (simp add: of_be16_def be16_def of_le_to_le)

lemma le16_of_le16 [byte_simps]: "length bs = 2 \<Longrightarrow> le16 (of_le16 bs) = bs"
  using of_le_less [of bs] to_le_of_le [of bs] by (simp add: of_le16_def le16_def unat_of_nat)

lemma le32_of_le32 [byte_simps]: "length bs = 4 \<Longrightarrow> le32 (of_le32 bs) = bs"
  using of_le_less [of bs] to_le_of_le [of bs] by (simp add: of_le32_def le32_def unat_of_nat)

lemma be16_of_be16 [byte_simps]: "length bs = 2 \<Longrightarrow> be16 (of_be16 bs) = bs"
  using of_le_less [of "rev bs"] to_le_of_le [of "rev bs"]
  by (simp add: of_be16_def be16_def unat_of_nat)

lemma length_encodings [simp]: "length (le16 w) = 2" "length (be16 w) = 2" "length (le32 v) = 4"
  by (simp_all add: le16_def be16_def le32_def)

lemma le_eval:
  "le16 w = [word_of_nat (unat w mod 256), word_of_nat (unat w div 256 mod 256)]"
  "be16 w = [word_of_nat (unat w div 256 mod 256), word_of_nat (unat w mod 256)]"
  "le32 v = [word_of_nat (unat v mod 256), word_of_nat (unat v div 256 mod 256),
     word_of_nat (unat v div 65536 mod 256), word_of_nat (unat v div 16777216 mod 256)]"
proof -
  have four: "(4 :: nat) = Suc (Suc (Suc (Suc 0)))" by simp
  have d: "n div 256 div 256 = n div 65536" "n div 65536 div 256 = n div 16777216" for n :: nat
    by (simp_all flip: div_mult2_eq)
  show "le16 w = [word_of_nat (unat w mod 256), word_of_nat (unat w div 256 mod 256)]"
    "be16 w = [word_of_nat (unat w div 256 mod 256), word_of_nat (unat w mod 256)]"
    by (simp_all only: le16_def be16_def numeral_2_eq_2 to_le.simps rev.simps append.simps)
  show "le32 v = [word_of_nat (unat v mod 256), word_of_nat (unat v div 256 mod 256),
     word_of_nat (unat v div 65536 mod 256), word_of_nat (unat v div 16777216 mod 256)]"
    by (simp only: le32_def four to_le.simps d)
qed

lemma two_bytes: "length bs = 2 \<longleftrightarrow> (\<exists>a b. bs = [a, b])"
  by (auto simp: length_Suc_conv numeral_2_eq_2)

lemma four_bytes: "length bs = 4 \<longleftrightarrow> (\<exists>a b c d. bs = [a, b, c, d])"
  by (auto simp: length_Suc_conv eval_nat_numeral)

lemma unat_inc: "p < q \<Longrightarrow> unat (p + 1) = Suc (unat p)" for p q :: "'a :: len word"
proof -
  assume "p < q"
  then have "Suc (unat p) < 2 ^ LENGTH('a)"
    by (metis Suc_lessI nat_neq_iff not_less_eq order_less_le_trans unsigned_less word_less_nat_alt)
  then show ?thesis by (simp add: unat_word_ariths)
qed

section \<open>Hash maps\<close>

text \<open>
  A \<open>HashMap\<close> is an association list with distinct keys (\<open>hm_ok\<close>). The order of its entries
  stands for the unspecified iteration order of the source; no property depends on it.
  A \<open>BTreeMap\<close> is one whose entries stand in the order of their keys.
\<close>

type_synonym ('k, 'v) hmap = "('k \<times> 'v) list"

definition hm_ok :: "('k, 'v) hmap \<Rightarrow> bool" where
  "hm_ok m \<longleftrightarrow> distinct (map fst m)"

abbreviation hget :: "('k, 'v) hmap \<Rightarrow> 'k \<Rightarrow> 'v option" where
  "hget m k \<equiv> map_of m k"

fun hput :: "'k \<Rightarrow> 'v \<Rightarrow> ('k, 'v) hmap \<Rightarrow> ('k, 'v) hmap" where
  "hput k v [] = [(k, v)]"
| "hput k v ((k', v') # m) = (if k = k' then (k, v) # m else (k', v') # hput k v m)"

definition hdel :: "'k \<Rightarrow> ('k, 'v) hmap \<Rightarrow> ('k, 'v) hmap" where
  "hdel k m = filter (\<lambda>(k', _). k' \<noteq> k) m"

definition hkeys :: "('k, 'v) hmap \<Rightarrow> 'k set" where
  "hkeys m = fst ` set m"

definition hretain :: "('v \<Rightarrow> 'v) \<Rightarrow> ('v \<Rightarrow> bool) \<Rightarrow> ('k, 'v) hmap \<Rightarrow> ('k, 'v) hmap" where
  "hretain f keep m = filter (\<lambda>(_, v). keep v) (map (\<lambda>(k, v). (k, f v)) m)"

lemma hget_hput [hmap_simps]: "hget (hput k v m) = (hget m)(k \<mapsto> v)"
  by (induction k v m rule: hput.induct) (auto simp: fun_eq_iff)

lemma hget_hdel [hmap_simps]: "hget (hdel k m) = (hget m)(k := None)"
  by (induction m) (auto simp: hdel_def fun_eq_iff)

lemma hkeys_hput [hmap_simps]: "hkeys (hput k v m) = insert k (hkeys m)"
  by (induction k v m rule: hput.induct) (auto simp: hkeys_def)

lemma hkeys_hdel [hmap_simps]: "hkeys (hdel k m) = hkeys m - {k}"
  by (auto simp: hkeys_def hdel_def rev_image_eqI)

lemma hkeys_dom: "hkeys m = dom (hget m)"
  by (simp add: hkeys_def dom_map_of_conv_image_fst)

lemma hkeys_Nil [simp]: "hkeys [] = {}"
  by (simp add: hkeys_def)

lemma finite_hkeys [simp]: "finite (hkeys m)"
  by (simp add: hkeys_def)

lemma hget_None_iff: "hget m k = None \<longleftrightarrow> k \<notin> hkeys m"
  by (simp add: hkeys_def map_of_eq_None_iff)

lemma hget_SomeD: "hget m k = Some v \<Longrightarrow> k \<in> hkeys m"
  by (metis hget_None_iff option.distinct(1))

lemma hm_ok_Nil [simp]: "hm_ok []"
  by (simp add: hm_ok_def)

lemma hm_ok_hput [simp]: "hm_ok m \<Longrightarrow> hm_ok (hput k v m)"
proof (induction k v m rule: hput.induct)
  case (2 k v k' v' m)
  have "fst ` set (hput k v m) = insert k (fst ` set m)"
    using hkeys_hput [of k v m] by (simp add: hkeys_def)
  with 2 show ?case by (auto simp: hm_ok_def)
qed (simp add: hm_ok_def)

lemma hm_ok_hdel [simp]: "hm_ok m \<Longrightarrow> hm_ok (hdel k m)"
  by (induction m) (auto simp: hm_ok_def hdel_def)

lemma map_fst_map_values: "map fst (map (\<lambda>(k, v). (k, f v)) m) = map fst m"
  by (induction m) auto

lemma hm_ok_hretain [simp]: "hm_ok m \<Longrightarrow> hm_ok (hretain f keep m)"
  unfolding hm_ok_def hretain_def
  by (rule distinct_map_filter) (simp only: map_fst_map_values)

lemma hm_ok_get: "hm_ok m \<Longrightarrow> hget m k = Some v \<longleftrightarrow> (k, v) \<in> set m"
  by (simp add: hm_ok_def)

lemma hget_hretain [hmap_simps]:
  "hm_ok m \<Longrightarrow> hget (hretain f keep m) k =
     (case hget m k of None \<Rightarrow> None | Some v \<Rightarrow> if keep (f v) then Some (f v) else None)"
proof (induction m)
  case (Cons p m)
  obtain k' v' where p: "p = (k', v')" by force
  from Cons.prems have "hm_ok m" "hget m k' = None"
    by (auto simp: p hm_ok_def map_of_eq_None_iff)
  with Cons.IH show ?case by (auto simp: p hretain_def)
qed (simp add: hretain_def)

lemma length_card_hkeys: "hm_ok m \<Longrightarrow> length m = card (hkeys m)"
  by (metis distinct_card hkeys_def hm_ok_def length_map list.set_map)

lemma length_hput: "hm_ok m \<Longrightarrow> length (hput k v m) = (if k \<in> hkeys m then length m else Suc (length m))"
  by (simp add: length_card_hkeys hkeys_hput card_insert_if)

lemma length_hdel: "hm_ok m \<Longrightarrow> length (hdel k m) = (if k \<in> hkeys m then length m - 1 else length m)"
  by (simp add: length_card_hkeys hkeys_hdel)

section \<open>Lists\<close>

lemma find_SomeD: "find P xs = Some x \<Longrightarrow> P x \<and> x \<in> set xs"
  by (induction xs) (auto split: if_splits)

section \<open>Interfaces several components provide\<close>

text \<open>
  A text form: what \<open>Display\<close> writes, \<open>FromStr\<close> reads back. \<open>wf\<close> is what the constructors
  of the type keep true of its values.
\<close>

locale text_form =
  fixes show_form :: "'a \<Rightarrow> string"
    and read_form :: "string \<Rightarrow> 'e + 'a"
    and wf :: "'a \<Rightarrow> bool"
  assumes read_show: "wf x \<Longrightarrow> read_form (show_form x) = Inr x"
    and read_wf: "read_form s = Inr x \<Longrightarrow> wf x"
begin

lemma show_inj: "wf x \<Longrightarrow> wf y \<Longrightarrow> show_form x = show_form y \<Longrightarrow> x = y"
  by (metis read_show sum.inject(2))

lemma read_show_read: "read_form s = Inr x \<Longrightarrow> read_form (show_form x) = read_form s"
  by (simp add: read_show read_wf)

end

text \<open>
  A state that every operation keeps well formed. \<open>step\<close> applies one operation; the lemma
  carries the invariant over every sequence of them.
\<close>

locale machine =
  fixes step :: "'op \<Rightarrow> 's \<Rightarrow> 's"
    and inv :: "'s \<Rightarrow> bool"
  assumes step_inv: "inv s \<Longrightarrow> inv (step op s)"
begin

lemma run_inv: "inv s \<Longrightarrow> inv (fold step ops s)"
  by (induction ops arbitrary: s) (simp_all add: step_inv)

end

end
