(* ===== verification/Proto_Record.thy ===== *)
theory Proto_Record
  imports Hawse_Prelude
begin

text \<open>
  \<open>hawse-proto/src/record.rs\<close>: the headers of the records that the TCP transport writes on a
  yamux stream. A data header carries the length of the payload that follows it, a finish
  header is one byte, a reset header carries the reset code.
\<close>

definition DATA :: u8 where "DATA = 0"
definition FINISH :: u8 where "FINISH = 1"
definition RESET :: u8 where "RESET = 2"

definition MAX_DATA :: nat where "MAX_DATA = 65535"
definition MAX_HEAD :: nat where "MAX_HEAD = 5"

datatype Head = Data u16 | Finish | Reset u32

definition head_len :: "u8 \<Rightarrow> nat option" where
  "head_len tag =
     (if tag = DATA then Some 3
      else if tag = FINISH then Some 1
      else if tag = RESET then Some 5
      else None)"

definition record_decode :: "bytes \<Rightarrow> Head option" where
  "record_decode head =
     (case head of
        [t] \<Rightarrow> if t = FINISH then Some Finish else None
      | [t, lo, hi] \<Rightarrow>
          if t = DATA
          then (let len = of_le16 [lo, hi] in if len = 0 then None else Some (Data len))
          else None
      | [t, a, b, c, d] \<Rightarrow> if t = RESET then Some (Reset (of_le32 [a, b, c, d])) else None
      | _ \<Rightarrow> None)"

definition record_data :: "u16 \<Rightarrow> bytes" where
  "record_data len = DATA # le16 len"

definition record_reset :: "u32 \<Rightarrow> bytes" where
  "record_reset code = RESET # le32 code"

text \<open>The header a writer puts on the wire for each kind of record.\<close>

fun head_bytes :: "Head \<Rightarrow> bytes" where
  "head_bytes (Data len) = record_data len"
| "head_bytes Finish = [FINISH]"
| "head_bytes (Reset code) = record_reset code"

lemma tags [simp]: "DATA \<noteq> FINISH" "DATA \<noteq> RESET" "FINISH \<noteq> RESET" "FINISH \<noteq> DATA" "RESET \<noteq> DATA"
  "RESET \<noteq> FINISH"
  by (simp_all add: DATA_def FINISH_def RESET_def)

lemma head_len_tags [simp]: "head_len DATA = Some 3" "head_len FINISH = Some 1" "head_len RESET = Some 5"
  by (simp_all add: head_len_def)

lemma le16_parts: obtains a b where "le16 w = [a, b]"
  using two_bytes [of "le16 w"] that by auto

lemma le32_parts: obtains a b c d where "le32 w = [a, b, c, d]"
  using four_bytes [of "le32 w"] that by auto

lemma decode_head_bytes: "h \<noteq> Data 0 \<Longrightarrow> record_decode (head_bytes h) = Some h"
proof (cases h)
  case (Data len)
  assume "h \<noteq> Data 0"
  moreover obtain a b where ab: "le16 len = [a, b]" by (rule le16_parts)
  moreover have "of_le16 [a, b] = len" using of_le16_le16 [of len] by (simp add: ab)
  ultimately show ?thesis using Data by (simp add: record_decode_def record_data_def)
next
  case (Reset code)
  moreover obtain a b c d where "le32 code = [a, b, c, d]" by (rule le32_parts)
  moreover from this have "of_le32 [a, b, c, d] = code" using of_le32_le32 [of code] by simp
  ultimately show ?thesis by (simp add: record_decode_def record_reset_def)
qed (simp add: record_decode_def)

lemma decode_only_heads: "record_decode bs = Some h \<Longrightarrow> bs = head_bytes h \<and> h \<noteq> Data 0"
  by (auto simp: record_decode_def record_data_def record_reset_def Let_def le16_of_le16 le32_of_le32
      split: list.splits if_splits)

lemma head_len_bytes: "head_len (hd (head_bytes h)) = Some (length (head_bytes h))"
  by (cases h) (simp_all add: record_data_def record_reset_def)

text \<open>
  A byte string is a record header exactly when a writer could have written it for a
  record that is not an empty data record: decoding inverts the encoders both ways, the tag
  alone says how long the header is, and no header is longer than \<open>MAX_HEAD\<close>.
\<close>

theorem record_decode_exact:
  "(record_decode bs = Some h \<longleftrightarrow> bs = head_bytes h \<and> h \<noteq> Data 0) \<and>
   head_len (hd (head_bytes h)) = Some (length (head_bytes h)) \<and>
   length (head_bytes h) \<le> MAX_HEAD"
proof -
  have "length (head_bytes h) \<le> MAX_HEAD"
    by (cases h) (simp_all add: record_data_def record_reset_def MAX_HEAD_def)
  then show ?thesis using decode_head_bytes decode_only_heads head_len_bytes by blast
qed

end
