(* ===== verification/Record_Stream.thy ===== *)
theory Record_Stream
  imports Proto_Record
begin

text \<open>
  \<open>hawse-core/src/transport/records.rs\<close>: the reader and the writer of records over a yamux
  stream. The stream underneath is a script of what each poll of it finds, so a theorem over
  all scripts is a theorem over every way yamux can cut, delay or end the stream. \<open>feed\<close> is a
  reference decoder that takes one byte at a time; the reader is shown to compute the same
  whatever the script, and the writer to produce what the reference decoder reads back.
\<close>

datatype 'e io_error = ConnectionReset "u32 option" | WriteZero | BrokenPipe | Inner 'e

datatype ('e, 'a) poll = Pending | Ready "'e io_error + 'a"

section \<open>The reader\<close>

text \<open>
  \<open>Reading::Head\<close> keeps the bytes of the header collected so far: the first \<open>have\<close> bytes of
  the array \<open>head\<close>, the only ones the code reads.
\<close>

datatype Reading = RHead bytes | RData nat | RFinished | RReset "u32 option"

definition reading_head :: Reading where
  "reading_head = RHead []"

text \<open>
  A poll of the stream underneath for at most \<open>want\<close> bytes. No bytes from a poll that is ready
  is the end of the stream, which is where the script ends.
\<close>

datatype 'e read_event = EvPending | EvFailed 'e | EvBytes bytes

fun inner_read :: "nat \<Rightarrow> 'e read_event list \<Rightarrow> ('e, bytes) poll \<times> 'e read_event list" where
  "inner_read want [] = (Ready (Inr []), [])"
| "inner_read want (EvPending # evs) = (Pending, evs)"
| "inner_read want (EvFailed e # evs) = (Ready (Inl (Inner e)), evs)"
| "inner_read want (EvBytes [] # evs) = (Pending, evs)"
| "inner_read want (EvBytes (b # bs) # evs) =
     (Ready (Inr (take want (b # bs))),
      if length (b # bs) \<le> want then evs else EvBytes (drop want (b # bs)) # evs)"

fun ev_size :: "'e read_event list \<Rightarrow> nat" where
  "ev_size [] = 0"
| "ev_size (EvBytes bs # evs) = Suc (length bs) + ev_size evs"
| "ev_size (_ # evs) = Suc (ev_size evs)"

fun rank :: "Reading \<Rightarrow> nat" where
  "rank (RHead _) = 2"
| "rank (RData _) = 1"
| "rank _ = 0"

lemma inner_read_size: "inner_read want evs = (r, evs') \<Longrightarrow> ev_size evs' \<le> ev_size evs"
  by (induction want evs rule: inner_read.induct) auto

lemma inner_read_progress:
  "inner_read want evs = (Ready (Inr bs), evs') \<Longrightarrow> bs \<noteq> [] \<Longrightarrow> ev_size evs' < ev_size evs"
  by (induction want evs rule: inner_read.induct) (auto split: if_splits)

definition after_head :: "bytes \<Rightarrow> Reading" where
  "after_head head =
     (case record_decode head of
        Some (Data len) \<Rightarrow> RData (unat len)
      | Some Finish \<Rightarrow> RFinished
      | Some (Reset code) \<Rightarrow> RReset (Some code)
      | None \<Rightarrow> RReset None)"

lemma rank_after_head [simp]: "rank (after_head head) < 2"
  by (simp add: after_head_def split: option.splits Head.splits)

text \<open>\<open>cap\<close> is \<open>out.remaining()\<close>; the bytes put into the caller's buffer are the result.\<close>

function poll_read :: "nat \<Rightarrow> Reading \<Rightarrow> 'e read_event list \<Rightarrow>
    ('e, bytes) poll \<times> Reading \<times> 'e read_event list" where
  "poll_read cap RFinished evs = (Ready (Inr []), RFinished, evs)"
| "poll_read cap (RReset code) evs = (Ready (Inl (ConnectionReset code)), RReset code, evs)"
| "poll_read cap (RData left) evs =
     (if cap = 0 then (Ready (Inr []), RData left, evs)
      else case inner_read (min left cap) evs of
             (Pending, evs') \<Rightarrow> (Pending, RData left, evs')
           | (Ready (Inl e), evs') \<Rightarrow> (Ready (Inl e), RData left, evs')
           | (Ready (Inr bs), evs') \<Rightarrow>
               if bs = [] then poll_read cap (RReset None) evs'
               else (Ready (Inr bs),
                     if left = length bs then reading_head else RData (left - length bs), evs'))"
| "poll_read cap (RHead head) evs =
     (case (if head = [] then Some 1 else head_len (hd head)) of
        None \<Rightarrow> poll_read cap (RReset None) evs
      | Some need \<Rightarrow>
          if length head < need
          then (case inner_read (need - length head) evs of
                  (Pending, evs') \<Rightarrow> (Pending, RHead head, evs')
                | (Ready (Inl e), evs') \<Rightarrow> (Ready (Inl e), RHead head, evs')
                | (Ready (Inr bs), evs') \<Rightarrow>
                    poll_read cap (if bs = [] then RReset None else RHead (head @ bs)) evs')
          else poll_read cap (after_head (take need head)) evs)"
  by pat_completeness auto
termination
proof (relation "measures [\<lambda>(cap, st, evs). ev_size evs, \<lambda>(cap, st, evs). rank st]", goal_cases)
  case (2 cap left evs p evs' q bs)
  then have "ev_size evs' \<le> ev_size evs" by (auto dest: inner_read_size [OF sym])
  then show ?case by auto
next
  case (4 cap head evs need p evs' q bs)
  then have le: "ev_size evs' \<le> ev_size evs" by (auto dest: inner_read_size [OF sym])
  show ?case
  proof (cases "bs = []")
    case True
    with le show ?thesis by auto
  next
    case False
    with 4 have "ev_size evs' < ev_size evs" by (auto dest: inner_read_progress [OF sym])
    then show ?thesis by simp
  qed
qed (auto simp: less_Suc_eq_le)

declare poll_read.simps [simp del]

text \<open>A caller that polls with a buffer of each given size in turn, until the end or an error.\<close>

datatype 'e read_end = Eof | Failed "'e io_error" | Unfinished

fun read_all :: "nat list \<Rightarrow> Reading \<Rightarrow> 'e read_event list \<Rightarrow> bytes \<times> 'e read_end" where
  "read_all [] st evs = ([], Unfinished)"
| "read_all (cap # caps) st evs =
     (case poll_read cap st evs of
        (Pending, st', evs') \<Rightarrow> read_all caps st' evs'
      | (Ready (Inl e), st', evs') \<Rightarrow> ([], Failed e)
      | (Ready (Inr bs), st', evs') \<Rightarrow>
          if bs = [] then ([], Eof)
          else (case read_all caps st' evs' of (out, ended) \<Rightarrow> (bs @ out, ended)))"

section \<open>The reference decoder\<close>

definition need_of :: "bytes \<Rightarrow> nat option" where
  "need_of head = (if head = [] then Some 1 else head_len (hd head))"

definition settle :: "bytes \<Rightarrow> Reading" where
  "settle head =
     (case need_of head of
        None \<Rightarrow> RReset None
      | Some need \<Rightarrow> if length head < need then RHead head else after_head (take need head))"

fun settled :: "Reading \<Rightarrow> Reading" where
  "settled (RHead head) = settle head"
| "settled st = st"

fun feed :: "Reading \<Rightarrow> u8 \<Rightarrow> Reading \<times> bytes" where
  "feed (RHead head) b = (settle (head @ [b]), [])"
| "feed (RData left) b = (if left = 1 then RHead [] else RData (left - 1), [b])"
| "feed RFinished b = (RFinished, [])"
| "feed (RReset c) b = (RReset c, [])"

fun feeds :: "Reading \<Rightarrow> bytes \<Rightarrow> Reading \<times> bytes" where
  "feeds st [] = (st, [])"
| "feeds st (b # bs) =
     (case feed st b of (st', out) \<Rightarrow> case feeds st' bs of (st'', outs) \<Rightarrow> (st'', out @ outs))"

fun ending :: "Reading \<Rightarrow> 'e read_end" where
  "ending RFinished = Eof"
| "ending (RReset c) = Failed (ConnectionReset c)"
| "ending _ = Failed (ConnectionReset None)"

fun wire :: "'e read_event list \<Rightarrow> bytes" where
  "wire [] = []"
| "wire (EvBytes bs # evs) = bs @ wire evs"
| "wire (_ # evs) = wire evs"

fun no_failure :: "'e read_event list \<Rightarrow> bool" where
  "no_failure [] = True"
| "no_failure (EvFailed _ # _) = False"
| "no_failure (_ # evs) = no_failure evs"

definition reference :: "Reading \<Rightarrow> bytes \<Rightarrow> bytes \<times> 'e read_end" where
  "reference st bs = (case feeds (settled st) bs of (q, out) \<Rightarrow> (out, ending q))"

definition reading_ok :: "Reading \<Rightarrow> bool" where
  "reading_ok st =
     (case st of
        RData left \<Rightarrow> 0 < left
      | RHead head \<Rightarrow> (case need_of head of None \<Rightarrow> True | Some need \<Rightarrow> length head \<le> need)
      | _ \<Rightarrow> True)"

lemma feeds_append:
  "feeds st (bs @ cs) =
     (case feeds st bs of (q, out) \<Rightarrow> case feeds q cs of (r, outs) \<Rightarrow> (r, out @ outs))"
  by (induction bs arbitrary: st) (auto split: prod.splits)

lemma feeds_done [simp]: "feeds RFinished bs = (RFinished, [])" "feeds (RReset c) bs = (RReset c, [])"
  by (induction bs) simp_all

lemma feeds_data:
  "bs \<noteq> [] \<Longrightarrow> length bs \<le> left \<Longrightarrow>
   feeds (RData left) bs = (if length bs = left then RHead [] else RData (left - length bs), bs)"
proof (induction bs arbitrary: left)
  case (Cons b bs)
  show ?case
  proof (cases "bs = []")
    case False
    with Cons.prems have "left \<noteq> 1" "length bs \<le> left - 1" by (cases bs; simp)+
    with Cons.IH [of "left - 1"] False Cons.prems show ?thesis by auto
  qed (use Cons.prems in simp)
qed simp

lemma need_of_snoc [simp]: "head \<noteq> [] \<Longrightarrow> need_of (head @ bs) = need_of head"
  by (simp add: need_of_def)

lemma settle_short [simp]: "need_of head = Some need \<Longrightarrow> length head < need \<Longrightarrow> settle head = RHead head"
  by (simp add: settle_def)

lemma feeds_head:
  "bs \<noteq> [] \<Longrightarrow> need_of head = Some need \<Longrightarrow> length head + length bs \<le> need \<Longrightarrow>
   feeds (RHead head) bs = (settle (head @ bs), [])"
proof (induction bs arbitrary: head)
  case (Cons b bs)
  show ?case
  proof (cases "bs = []")
    case False
    with Cons.prems have "head \<noteq> []" by (cases bs) (auto simp: need_of_def)
    then have need: "need_of (head @ [b]) = Some need" using Cons.prems by simp
    moreover have "length (head @ [b]) < need" using False Cons.prems by (cases bs) auto
    ultimately have "settle (head @ [b]) = RHead (head @ [b])" by simp
    with Cons.IH [of "head @ [b]"] need False Cons.prems show ?thesis by simp
  qed simp
qed simp

lemma inner_read_bytes:
  "inner_read want evs = (Ready (Inr bs), evs') \<Longrightarrow> 0 < want \<Longrightarrow>
   wire evs = bs @ wire evs' \<and> length bs \<le> want \<and> (bs = [] \<longrightarrow> evs = [] \<and> evs' = []) \<and>
   (no_failure evs \<longrightarrow> no_failure evs')"
  by (induction want evs rule: inner_read.induct) (auto split: if_splits)

lemma inner_read_pending:
  "inner_read want evs = (Pending, evs') \<Longrightarrow>
   wire evs = wire evs' \<and> ev_size evs' < ev_size evs \<and> (no_failure evs \<longrightarrow> no_failure evs')"
  by (induction want evs rule: inner_read.induct) auto

lemma inner_read_failure: "inner_read want evs = (Ready (Inl e), evs') \<Longrightarrow> \<not> no_failure evs"
  by (induction want evs rule: inner_read.induct) auto

lemma after_head_ok [simp]: "reading_ok (after_head head)" "settled (after_head head) = after_head head"
proof -
  have "record_decode head = Some (Data len) \<Longrightarrow> 0 < unat len" for len
    using decode_only_heads [of head "Data len"] by (simp add: unat_gt_0)
  then show "reading_ok (after_head head)"
    by (auto simp: after_head_def reading_ok_def split: option.splits Head.splits)
  show "settled (after_head head) = after_head head"
    by (simp add: after_head_def split: option.splits Head.splits)
qed

text \<open>
  One poll against the reference: what it hands on is what the reference decodes from the
  bytes the poll took, and every poll that does not end the stream takes something.
\<close>

definition poll_agrees :: "Reading \<Rightarrow> 'e read_event list \<Rightarrow>
    ('e, bytes) poll \<times> Reading \<times> 'e read_event list \<Rightarrow> bool" where
  "poll_agrees st evs res =
     (case res of (r, st', evs') \<Rightarrow>
        case r of
          Pending \<Rightarrow> reading_ok st' \<and> no_failure evs' \<and> ev_size evs' < ev_size evs \<and>
            (reference st (wire evs) :: bytes \<times> 'e read_end) = reference st' (wire evs')
        | Ready (Inl e) \<Rightarrow> reference st (wire evs) = ([], Failed e)
        | Ready (Inr bs) \<Rightarrow>
            if bs = [] then (reference st (wire evs) :: bytes \<times> 'e read_end) = ([], Eof)
            else reading_ok st' \<and> no_failure evs' \<and> ev_size evs' < ev_size evs \<and>
              (reference st (wire evs) :: bytes \<times> 'e read_end) =
                (bs @ fst (reference st' (wire evs') :: bytes \<times> 'e read_end),
                 snd (reference st' (wire evs'))))"

lemma poll_agrees_shift:
  assumes "poll_agrees st' evs' res" "(reference st (wire evs) :: bytes \<times> 'e read_end) = reference st' (wire evs')"
    "ev_size evs' \<le> ev_size (evs :: 'e read_event list)"
  shows "poll_agrees st evs res"
  using assms by (auto simp: poll_agrees_def split: prod.splits poll.splits sum.splits)

lemma reference_reset [simp]: "reference (RReset c) bs = ([], Failed (ConnectionReset c))"
  by (simp add: reference_def)

lemma poll_data_agrees:
  fixes evs :: "'e read_event list"
  assumes "0 < left" "no_failure evs" "0 < cap"
  shows "poll_agrees (RData left) evs (poll_read cap (RData left) evs)"
proof (cases "inner_read (min left cap) evs")
  case (Pair r evs')
  show ?thesis
  proof (cases r)
    case Pending
    with Pair assms show ?thesis
      using inner_read_pending [of "min left cap" evs evs']
      by (simp add: poll_read.simps poll_agrees_def reading_ok_def)
  next
    case (Ready res)
    then obtain bs where res: "res = Inr bs"
      using Pair assms(2) inner_read_failure by (cases res) blast+
    have took: "wire evs = bs @ wire evs'" "length bs \<le> left" "bs = [] \<longrightarrow> evs = [] \<and> evs' = []"
      "no_failure evs'"
      using inner_read_bytes [of "min left cap" evs bs evs'] Pair Ready res assms by auto
    show ?thesis
    proof (cases "bs = []")
      case True
      with took Pair Ready res assms show ?thesis
        by (simp add: poll_read.simps poll_agrees_def reference_def)
    next
      case False
      then have "ev_size evs' < ev_size evs" using inner_read_progress Pair Ready res by blast
      with took False Pair Ready res assms show ?thesis
        by (auto simp: poll_read.simps poll_agrees_def reading_ok_def reading_head_def need_of_def
            reference_def feeds_append feeds_data split: prod.splits)
    qed
  qed
qed

lemma head_len_pos: "head_len t = Some need \<Longrightarrow> 0 < need"
  by (auto simp: head_len_def split: if_splits)

lemma reading_ok_more:
  "need_of head = Some need \<Longrightarrow> length head + length bs \<le> need \<Longrightarrow> reading_ok (RHead (head @ bs))"
  by (cases head) (auto simp: reading_ok_def need_of_def Suc_le_eq dest: head_len_pos split: option.splits)

lemma poll_head_reads:
  fixes evs :: "'e read_event list"
  assumes need: "need_of head = Some need" "length head < need" and nf: "no_failure evs"
    and read: "inner_read (need - length head) evs = (Ready (Inr bs), evs')"
    and next_def: "next = (if bs = [] then RReset None else RHead (head @ bs))"
  shows "reading_ok next" "no_failure evs'" "ev_size evs' \<le> ev_size evs"
    "reference (RHead head) (wire evs) = (reference next (wire evs') :: bytes \<times> 'e read_end)"
proof -
  have took: "wire evs = bs @ wire evs'" "length bs \<le> need - length head"
    "bs = [] \<longrightarrow> evs = [] \<and> evs' = []" "no_failure evs'"
    using inner_read_bytes [OF read] need nf by auto
  show "no_failure evs'" by fact
  show "ev_size evs' \<le> ev_size evs" using inner_read_size [OF read] .
  show "reading_ok next"
    using need took reading_ok_more [of head need bs] by (simp add: next_def reading_ok_def)
  show "reference (RHead head) (wire evs) = (reference next (wire evs') :: bytes \<times> 'e read_end)"
    using need took by (auto simp: next_def reference_def feeds_append feeds_head split: prod.splits)
qed

lemma poll_read_agrees:
  fixes evs :: "'e read_event list"
  shows "reading_ok st \<Longrightarrow> no_failure evs \<Longrightarrow> 0 < cap \<Longrightarrow> poll_agrees st evs (poll_read cap st evs)"
proof (induction cap st evs rule: poll_read.induct)
  case (3 cap left evs)
  then show ?case by (intro poll_data_agrees) (simp_all add: reading_ok_def)
next
  case (4 cap head evs)
  consider (unknown) "need_of head = None"
    | (full) need where "need_of head = Some need" "\<not> length head < need"
    | (short) need where "need_of head = Some need" "length head < need"
    by (cases "need_of head") blast+
  then show ?case
  proof cases
    case unknown
    then show ?thesis
      by (simp add: poll_read.simps poll_agrees_def need_of_def [symmetric] reference_def settle_def)
  next
    case full
    then have "take need head = head" using "4.prems" by (simp add: reading_ok_def)
    with full have "reference (RHead head) (wire evs) =
        (reference (after_head (take need head)) (wire evs) :: bytes \<times> 'e read_end)"
      by (simp add: reference_def settle_def)
    moreover have "poll_agrees (after_head (take need head)) evs
        (poll_read cap (after_head (take need head)) evs)"
      using "4.IH"(3) [of need] full "4.prems" by (simp add: need_of_def)
    ultimately show ?thesis
      using full poll_agrees_shift by (fastforce simp: poll_read.simps(4) need_of_def)
  next
    case short
    obtain r evs' where read: "inner_read (need - length head) evs = (r, evs')" by force
    show ?thesis
    proof (cases r)
      case Pending
      with short read "4.prems" show ?thesis
        using inner_read_pending [of "need - length head" evs evs']
        by (simp add: poll_read.simps need_of_def [symmetric] poll_agrees_def)
    next
      case (Ready res)
      then obtain bs where res: "res = Inr bs"
        using read "4.prems"(2) inner_read_failure by (cases res) blast+
      define st where "st = (if bs = [] then RReset None else RHead (head @ bs))"
      note reads = poll_head_reads [OF short(1,2) "4.prems"(2) read [unfolded Ready res] st_def]
      have "poll_agrees st evs' (poll_read cap st evs')"
        using "4.IH"(2) [of need r evs' res bs] short read Ready res reads "4.prems"
        by (simp add: need_of_def st_def)
      then have "poll_agrees (RHead head) evs (poll_read cap st evs')"
        by (rule poll_agrees_shift) (use reads in simp_all)
      with short read Ready res show ?thesis by (simp add: poll_read.simps need_of_def st_def)
    qed
  qed
qed (simp_all add: poll_read.simps poll_agrees_def reference_def)

lemma read_all_agrees:
  "reading_ok st \<Longrightarrow> no_failure evs \<Longrightarrow> list_all (\<lambda>cap. 0 < cap) caps \<Longrightarrow>
   ev_size evs < length caps \<Longrightarrow> read_all caps st evs = reference st (wire evs)"
proof (induction caps arbitrary: st evs)
  case (Cons cap caps)
  obtain r st' evs' where p: "poll_read cap st evs = (r, st', evs')" by (cases "poll_read cap st evs")
  have agrees: "poll_agrees st evs (r, st', evs')"
    using poll_read_agrees [of st evs cap] Cons.prems p by simp
  show ?case
  proof (cases r)
    case Pending
    with agrees p Cons show ?thesis by (auto simp: poll_agrees_def)
  next
    case (Ready res)
    with agrees p Cons show ?thesis
      by (cases res) (auto simp: poll_agrees_def split: prod.splits if_splits)
  qed
qed simp

text \<open>
  C22: reading a record stream gives the same bytes and the same end whatever the stream
  underneath does: for every cut of the wire into pieces, every run of polls that find nothing
  and every size of the caller's buffers, enough polls give what the reference decoder reads
  from the bytes of the wire. In particular the caller sees a clean end only when a finish
  record came, and a connection reset in every other case.
\<close>

theorem read_all_reference:
  assumes "reading_ok st" "no_failure evs" "list_all (\<lambda>cap. 0 < cap) caps" "ev_size evs < length caps"
  shows "read_all caps st evs = reference st (wire evs)"
  using assms by (rule read_all_agrees)

theorem read_all_reference_witness:
  "read_all (replicate 12 3) reading_head
     [EvBytes [DATA, 2], EvPending, EvBytes [0, 7], EvBytes [8, FINISH]] =
   ([7, 8], Eof :: nat read_end)"
proof -
  have "read_all (replicate 12 3) reading_head
      ([EvBytes [DATA, 2], EvPending, EvBytes [0, 7], EvBytes [8, FINISH]] :: nat read_event list) =
    reference reading_head (wire
      ([EvBytes [DATA, 2], EvPending, EvBytes [0, 7], EvBytes [8, FINISH]] :: nat read_event list))"
    by (rule read_all_reference) (simp_all add: reading_ok_def reading_head_def need_of_def list_all_iff)
  also have "\<dots> = ([7, 8], Eof)"
    by (simp add: reference_def reading_head_def settle_def need_of_def after_head_def
        record_decode_def of_le16_def)
  finally show ?thesis .
qed

section \<open>The writer\<close>

text \<open>
  \<open>w_sent\<close> is what the stream underneath has taken, \<open>w_closed\<close> that it was told to shut down.
  A script again says what each poll of it does: take some bytes, nothing yet, or fail.
\<close>

record writer =
  w_buf :: bytes
  w_ended :: bool
  w_sent :: bytes
  w_closed :: bool

definition new_writer :: writer where
  "new_writer = \<lparr>w_buf = [], w_ended = False, w_sent = [], w_closed = False\<rparr>"

datatype 'e write_event = WPending | WFailed 'e | WTake nat

fun poll_drain :: "writer \<Rightarrow> 'e write_event list \<Rightarrow>
    ('e, unit) poll \<times> writer \<times> 'e write_event list" where
  "poll_drain w [] = (if w_buf w = [] then (Ready (Inr ()), w, []) else (Pending, w, []))"
| "poll_drain w (ev # evs) =
     (if w_buf w = [] then (Ready (Inr ()), w, ev # evs)
      else case ev of
             WPending \<Rightarrow> (Pending, w, evs)
           | WFailed e \<Rightarrow> (Ready (Inl (Inner e)), w, evs)
           | WTake k \<Rightarrow>
               let n = min k (length (w_buf w)) in
               if n = 0 then (Ready (Inl WriteZero), w, evs)
               else poll_drain (w\<lparr>w_buf := drop n (w_buf w), w_sent := w_sent w @ take n (w_buf w)\<rparr>) evs)"

definition end_with :: "bytes \<Rightarrow> writer \<Rightarrow> writer" where
  "end_with last_record w =
     (if w_ended w then w else w\<lparr>w_ended := True, w_buf := w_buf w @ last_record\<rparr>)"

definition poll_write :: "writer \<Rightarrow> 'e write_event list \<Rightarrow> bytes \<Rightarrow>
    ('e, nat) poll \<times> writer \<times> 'e write_event list" where
  "poll_write w evs data =
     (if w_ended w then (Ready (Inl BrokenPipe), w, evs)
      else case poll_drain w evs of
             (Pending, w', evs') \<Rightarrow> (Pending, w', evs')
           | (Ready (Inl e), w', evs') \<Rightarrow> (Ready (Inl e), w', evs')
           | (Ready (Inr _), w', evs') \<Rightarrow>
               let n = min (length data) MAX_DATA in
               if n = 0 then (Ready (Inr 0), w', evs')
               else (case poll_drain
                       (w'\<lparr>w_buf := w_buf w' @ record_data (word_of_nat n) @ take n data\<rparr>) evs' of
                       (Ready (Inl e), w'', evs'') \<Rightarrow> (Ready (Inl e), w'', evs'')
                     | (_, w'', evs'') \<Rightarrow> (Ready (Inr n), w'', evs'')))"

text \<open>\<open>inner\<close> is what the stream underneath answers to its own flush or shutdown.\<close>

definition poll_flush :: "writer \<Rightarrow> 'e write_event list \<Rightarrow> ('e, unit) poll \<Rightarrow>
    ('e, unit) poll \<times> writer \<times> 'e write_event list" where
  "poll_flush w evs inner =
     (case poll_drain w evs of
        (Ready (Inr _), w', evs') \<Rightarrow> (inner, w', evs')
      | (r, w', evs') \<Rightarrow> (r, w', evs'))"

definition poll_shutdown :: "writer \<Rightarrow> 'e write_event list \<Rightarrow> ('e, unit) poll \<Rightarrow>
    ('e, unit) poll \<times> writer \<times> 'e write_event list" where
  "poll_shutdown w evs inner =
     (case poll_drain (end_with [FINISH] w) evs of
        (Ready (Inr _), w', evs') \<Rightarrow> (inner, w'\<lparr>w_closed := True\<rparr>, evs')
      | (r, w', evs') \<Rightarrow> (r, w', evs'))"

definition writer_reset :: "u32 \<Rightarrow> writer \<Rightarrow> 'e write_event list \<Rightarrow> writer \<times> 'e write_event list" where
  "writer_reset code w evs =
     (case poll_drain (end_with (record_reset code) w) evs of
        (Pending, w', evs') \<Rightarrow> (w', evs')
      | (Ready _, w', evs') \<Rightarrow> (w'\<lparr>w_closed := True\<rparr>, evs'))"

definition reset_flushed :: "u32 \<Rightarrow> writer \<Rightarrow> 'e write_event list \<Rightarrow> ('e, unit) poll \<Rightarrow>
    ('e, unit) poll \<times> writer \<times> 'e write_event list" where
  "reset_flushed code w evs inner =
     (case poll_drain (end_with (record_reset code) w) evs of
        (Ready (Inr _), w', evs') \<Rightarrow> (inner, w'\<lparr>w_closed := True\<rparr>, evs')
      | (r, w', evs') \<Rightarrow> (r, w', evs'))"

lemma poll_drain_keeps:
  "poll_drain w evs = (r, w', evs') \<Longrightarrow>
   w_sent w' @ w_buf w' = w_sent w @ w_buf w \<and> w_ended w' = w_ended w \<and>
   (r = Ready (Inr ()) \<longrightarrow> w_buf w' = [])"
proof (induction w evs rule: poll_drain.induct)
  case (2 w ev evs)
  show ?case
  proof (cases "w_buf w = []")
    case False
    show ?thesis
    proof (cases ev)
      case (WTake k)
      define n where "n = min k (length (w_buf w))"
      show ?thesis
      proof (cases "n = 0")
        case True
        with "2.prems" False WTake show ?thesis by (auto simp: Let_def n_def split: if_splits)
      next
        case n0: False
        then have "poll_drain (w\<lparr>w_buf := drop n (w_buf w), w_sent := w_sent w @ take n (w_buf w)\<rparr>) evs =
          (r, w', evs')"
          using "2.prems" False WTake by (simp add: Let_def n_def [symmetric])
        with "2.IH" [OF False WTake n_def n0] show ?thesis by simp
      qed
    qed (use "2.prems" False in auto)
  qed (use "2.prems" in auto)
qed (auto split: if_splits)

lemma feeds_head_bytes:
  "feeds reading_head (head_bytes h) = (after_head (head_bytes h), [])"
proof -
  obtain t rest where h: "head_bytes h = t # rest"
    by (cases h) (simp_all add: record_data_def record_reset_def)
  then have need: "need_of [t] = Some (Suc (length rest))"
    using head_len_bytes [of h] by (simp add: need_of_def)
  show ?thesis
  proof (cases "rest = []")
    case True
    with h need show ?thesis by (simp add: reading_head_def settle_def)
  next
    case False
    then have "settle [t] = RHead [t]" using need by (cases rest) simp_all
    moreover have "need_of (t # rest) = Some (Suc (length rest))"
      using need by (simp add: need_of_def)
    moreover have "feeds (RHead [t]) rest = (settle (t # rest), [])"
      using feeds_head [OF False need] by simp
    ultimately show ?thesis by (simp add: h reading_head_def settle_def)
  qed
qed

lemma feeds_data_record:
  assumes "0 < length d" "length d \<le> MAX_DATA"
  shows "feeds reading_head (record_data (word_of_nat (length d)) @ d) = (reading_head, d)"
proof -
  have u: "unat (word_of_nat (length d) :: u16) = length d"
    using assms by (simp add: unat_of_nat MAX_DATA_def)
  then have "(word_of_nat (length d) :: u16) \<noteq> 0" using assms by (metis nat_less_le unat_0)
  then have "record_decode (head_bytes (Data (word_of_nat (length d)))) = Some (Data (word_of_nat (length d)))"
    by (intro decode_head_bytes) simp
  then have "feeds reading_head (record_data (word_of_nat (length d))) = (RData (length d), [])"
    using feeds_head_bytes [of "Data (word_of_nat (length d))"] u by (simp add: after_head_def)
  with assms show ?thesis by (simp add: feeds_append feeds_data reading_head_def)
qed

text \<open>
  The runs of a writer that has not ended and has met no error: \<open>writes w p\<close> says that the
  polls so far left it in state \<open>w\<close> and told their callers that the bytes \<open>p\<close> were taken.
  The errors of the stream underneath are named by number here.
\<close>

inductive writes :: "writer \<Rightarrow> bytes \<Rightarrow> bool" where
  start: "writes new_writer []"
| wrote: "writes w p \<Longrightarrow> poll_write w (evs :: nat write_event list) data = (Ready (Inr n), w', evs') \<Longrightarrow> writes w' (p @ take n data)"
| parked: "writes w p \<Longrightarrow> poll_write w (evs :: nat write_event list) data = (Pending, w', evs') \<Longrightarrow> writes w' p"
| flushed: "writes w p \<Longrightarrow> poll_flush w (evs :: nat write_event list) inner = (r, w', evs') \<Longrightarrow> writes w' p"

definition carries :: "writer \<Rightarrow> bytes \<Rightarrow> bool" where
  "carries w p \<longleftrightarrow> feeds reading_head (w_sent w @ w_buf w) = (reading_head, p) \<and> \<not> w_ended w"

lemma poll_write_carries:
  assumes "carries w p" "poll_write w evs data = (r, w', evs')"
  shows "case r of Pending \<Rightarrow> carries w' p | Ready (Inr n) \<Rightarrow> carries w' (p @ take n data) | _ \<Rightarrow> True"
proof -
  obtain r1 w1 evs1 where d1: "poll_drain w evs = (r1, w1, evs1)" by (cases "poll_drain w evs")
  note k1 = poll_drain_keeps [OF d1]
  have c1: "carries w1 p" using assms(1) k1 by (simp add: carries_def)
  define m where "m = min (length data) MAX_DATA"
  define w2 where "w2 = w1\<lparr>w_buf := w_buf w1 @ record_data (word_of_nat m) @ take m data\<rparr>"
  obtain r3 w3 evs3 where d3: "poll_drain w2 evs1 = (r3, w3, evs3)" by (cases "poll_drain w2 evs1")
  have c3: "carries w3 (p @ take m data)" if "m \<noteq> 0"
  proof -
    have "length (take m data) = m" "m \<le> MAX_DATA" by (simp_all add: m_def)
    with that have "feeds reading_head (record_data (word_of_nat m) @ take m data) = (reading_head, take m data)"
      using feeds_data_record [of "take m data"] by simp
    then have "carries w2 (p @ take m data)"
      using c1 feeds_append [of reading_head "w_sent w1 @ w_buf w1"]
      by (simp add: carries_def w2_def)
    then show ?thesis using poll_drain_keeps [OF d3] by (simp add: carries_def)
  qed
  have open_w: "\<not> w_ended w" using assms(1) by (simp add: carries_def)
  show ?thesis
  proof (cases "r1 = Ready (Inr ())")
    case True
    then have "poll_write w evs data =
      (if m = 0 then (Ready (Inr 0), w1, evs1)
       else case r3 of Ready (Inl e) \<Rightarrow> (Ready (Inl e), w3, evs3) | _ \<Rightarrow> (Ready (Inr m), w3, evs3))"
      by (simp add: poll_write_def open_w d1 Let_def m_def [symmetric] w2_def [symmetric] d3
          split: poll.split sum.split)
    with assms(2) c1 c3 show ?thesis by (cases "m = 0") (auto split: poll.splits sum.splits)
  next
    case False
    then have "r = Pending \<and> w' = w1 \<or> (\<exists>e. r = Ready (Inl e))"
      using assms(2) open_w by (cases r1) (auto simp: poll_write_def d1 split: sum.splits)
    with c1 show ?thesis by auto
  qed
qed

lemma writes_carries: "writes w p \<Longrightarrow> carries w p"
proof (induction rule: writes.induct)
  case start
  then show ?case by (simp add: carries_def new_writer_def)
next
  case (wrote w p evs data n w' evs')
  then show ?case using poll_write_carries by fastforce
next
  case (parked w p evs data w' evs')
  then show ?case using poll_write_carries by fastforce
next
  case (flushed w p evs inner r w' evs')
  obtain r1 w1 evs1 where d: "poll_drain w evs = (r1, w1, evs1)" by (cases "poll_drain w evs")
  with flushed have "w' = w1"
    by (auto simp: poll_flush_def split: poll.splits sum.splits unit.splits)
  with poll_drain_keeps [OF d] flushed show ?case by (simp add: carries_def)
qed

lemma feeds_prefix_not_finished:
  assumes "feeds reading_head (c @ rest) = (q, p)" "q \<noteq> RFinished"
  shows "fst (feeds reading_head c) \<noteq> RFinished \<and> (\<exists>p'. p = snd (feeds reading_head c) @ p')"
  using assms by (auto simp: feeds_append split: prod.splits)

lemma after_head_marks [simp]:
  "after_head [FINISH] = RFinished" "after_head (record_reset code) = RReset (Some code)"
  using decode_head_bytes [of Finish] decode_head_bytes [of "Reset code"]
  by (simp_all add: after_head_def)

lemma end_with_decodes:
  assumes "carries w p" "poll_drain (end_with (head_bytes h) w) evs = (Ready (Inr ()), w', evs')"
  shows "feeds reading_head (w_sent w') = (case feeds reading_head (head_bytes h) of (q, _) \<Rightarrow> (q, p))"
    "\<exists>body. w_sent w' = body @ head_bytes h \<and> feeds reading_head body = (reading_head, p)"
proof -
  define body where "body = w_sent w @ w_buf w"
  have "w_sent w' = body @ head_bytes h"
    using poll_drain_keeps [OF assms(2)] assms(1) by (auto simp: end_with_def carries_def body_def)
  moreover have "feeds reading_head body = (reading_head, p)"
    using assms(1) by (simp add: carries_def body_def)
  ultimately show "\<exists>body. w_sent w' = body @ head_bytes h \<and> feeds reading_head body = (reading_head, p)"
    "feeds reading_head (w_sent w') = (case feeds reading_head (head_bytes h) of (q, _) \<Rightarrow> (q, p))"
    by (auto simp: feeds_append feeds_head_bytes)
qed

lemma reading_head_ok [simp]: "reading_ok reading_head" "settled reading_head = reading_head"
  by (simp_all add: reading_head_def reading_ok_def need_of_def settle_def)

lemma reference_head: "reference reading_head bs = (snd (feeds reading_head bs), ending (fst (feeds reading_head bs)))"
  by (simp add: reference_def split: prod.splits)

lemma ending_not_eof: "q \<noteq> RFinished \<Longrightarrow> ending q \<noteq> Eof"
  by (cases q) simp_all


text \<open>
  C8: a reset never reads as a clean end. After \<open>reset\<close>, however much of what was queued went
  out, the reader sees a connection reset, and the code with it once the whole record arrived.
  Nothing may follow: every later write is refused and a shutdown adds no finish.
\<close>

theorem reset_never_reads_clean:
  fixes evs :: "'e read_event list" and wevs :: "nat write_event list"
  assumes wrote: "writes w p" and reset: "writer_reset code w wevs = (w', wevs')"
    and cut: "w_sent w' @ w_buf w' = wire evs @ lost" "no_failure evs"
    and polls: "list_all (\<lambda>cap. 0 < cap) caps" "ev_size evs < length caps"
  shows "snd (read_all caps reading_head evs) \<noteq> Eof \<and>
    (lost = [] \<longrightarrow> read_all caps reading_head evs = (p, Failed (ConnectionReset (Some code)))) \<and>
    poll_write w' wevs'' data = (Ready (Inl BrokenPipe), w', wevs'') \<and>
    end_with [FINISH] w' = w'"
proof -
  obtain r1 w1 wevs1 where d: "poll_drain (end_with (record_reset code) w) wevs = (r1, w1, wevs1)"
    by (cases "poll_drain (end_with (record_reset code) w) wevs")
  have w': "w_sent w' = w_sent w1 \<and> w_buf w' = w_buf w1 \<and> w_ended w' = w_ended w1"
    using reset d by (auto simp: writer_reset_def split: poll.splits)
  note c = writes_carries [OF wrote]
  have wire: "w_sent w' @ w_buf w' = (w_sent w @ w_buf w) @ head_bytes (Reset code)" "w_ended w'"
    using poll_drain_keeps [OF d] w' c by (simp_all add: end_with_def carries_def)
  have all: "feeds reading_head (wire evs @ lost) = (RReset (Some code), p)"
    unfolding cut(1) [symmetric] wire(1)
    by (subst feeds_append) (use c in \<open>simp add: carries_def feeds_head_bytes del: head_bytes.simps,
        simp\<close>)
  have reads: "read_all caps reading_head evs = reference reading_head (wire evs)"
    by (rule read_all_agrees) (use cut polls in simp_all)
  have "snd (read_all caps reading_head evs) \<noteq> Eof"
    using feeds_prefix_not_finished [OF all] reads by (simp add: reference_head ending_not_eof)
  moreover have "read_all caps reading_head evs = (p, Failed (ConnectionReset (Some code)))" if "lost = []"
    using all reads that by (simp add: reference_head)
  ultimately show ?thesis
    using wire(2) by (simp add: poll_write_def end_with_def)
qed

text \<open>A writer that took two bytes and still holds their record.\<close>

definition two_byte_writer :: writer where
  "two_byte_writer = new_writer\<lparr>w_buf := [DATA, 2, 0, 7, 8]\<rparr>"

lemma two_byte_writes: "writes two_byte_writer [7, 8]"
proof -
  have "poll_write new_writer ([] :: nat write_event list) [7, 8] =
      (Ready (Inr 2), two_byte_writer, [])"
    by (simp add: poll_write_def new_writer_def two_byte_writer_def MAX_DATA_def record_data_def le_eval)
  from writes.wrote [OF writes.start this] show ?thesis by simp
qed


theorem reset_never_reads_clean_witness:
  "read_all (replicate 12 4) reading_head [EvBytes [DATA, 2, 0, 7, 8, RESET, 18, 0, 0, 0]] =
     ([7, 8], Failed (ConnectionReset (Some 18)) :: nat read_end)"
proof -
  have "writer_reset 18 two_byte_writer ([WPending] :: nat write_event list) =
      (two_byte_writer\<lparr>w_ended := True, w_buf := [DATA, 2, 0, 7, 8, RESET, 18, 0, 0, 0]\<rparr>, [])"
    by (simp add: writer_reset_def end_with_def two_byte_writer_def new_writer_def record_reset_def le_eval)
  note reset = reset_never_reads_clean [OF two_byte_writes this,
      where evs = "[EvBytes [DATA, 2, 0, 7, 8, RESET, 18, 0, 0, 0]] :: nat read_event list"
        and lost = "[]" and caps = "replicate 12 4", THEN conjunct2, THEN conjunct1, THEN mp]
  show ?thesis
    by (rule reset) (simp_all add: two_byte_writer_def new_writer_def list_all_iff)
qed

end
