(* ===== verification/Rust_Text.thy ===== *)
theory Rust_Text
  imports Hawse_Prelude
begin

text \<open>
  The parts of Rust's \<open>str\<close> the code uses. A \<open>string\<close> holds the UTF-8 bytes of a Rust
  string, so \<open>length\<close> is \<open>str::len\<close>; \<open>chars\<close> reads its code points. Decimal printing and
  parsing of unsigned integers follow \<open>Display\<close> and \<open>FromStr\<close> of the standard library.
\<close>

named_theorems text_simps \<open>laws of the string operations\<close>

section \<open>Decimal numbers\<close>

definition is_digit :: "char \<Rightarrow> bool" where
  "is_digit c \<longleftrightarrow> 48 \<le> (of_char c :: nat) \<and> (of_char c :: nat) \<le> 57"

definition digit :: "nat \<Rightarrow> char" where
  "digit d = char_of (48 + d)"

fun show_nat :: "nat \<Rightarrow> string" where
  "show_nat n = (if n < 10 then [digit n] else show_nat (n div 10) @ [digit (n mod 10)])"

declare show_nat.simps [simp del]

definition digits_value :: "string \<Rightarrow> nat" where
  "digits_value s = foldl (\<lambda>n c. 10 * n + (of_char c - 48)) 0 s"

text \<open>
  \<open>str::parse\<close> at an unsigned type of \<open>w\<close> bits: at least one digit, digits only after an
  optional leading plus sign, and a value that fits.
\<close>

definition parse_uint :: "nat \<Rightarrow> string \<Rightarrow> nat option" where
  "parse_uint w s =
     (let ds = (case s of [] \<Rightarrow> [] | c # cs \<Rightarrow> if c = CHR ''+'' then cs else s)
      in if ds \<noteq> [] \<and> list_all is_digit ds \<and> digits_value ds < 2 ^ w
         then Some (digits_value ds) else None)"

lemma digit_props [simp]: "d < 10 \<Longrightarrow> is_digit (digit d)"
  "d < 10 \<Longrightarrow> of_char (digit d) = 48 + d"
  by (simp_all add: is_digit_def digit_def take_bit_eq_mod)

lemma is_digit_not [simp]: "\<not> is_digit CHR ''+''" "\<not> is_digit CHR ''-''" "\<not> is_digit CHR ''/''"
  "\<not> is_digit CHR ''a''" "\<not> is_digit CHR '':''" "\<not> is_digit CHR ''[''" "\<not> is_digit CHR '']''"
  by (simp_all add: is_digit_def)

lemma show_nat_digits: "list_all is_digit (show_nat n)"
proof (induction n rule: show_nat.induct)
  case (1 n)
  then show ?case by (subst show_nat.simps) (simp add: list_all_append)
qed

lemma show_nat_nonempty [simp]: "show_nat n \<noteq> []"
  by (subst show_nat.simps) simp

lemma digits_value_snoc: "digits_value (s @ [c]) = 10 * digits_value s + (of_char c - 48)"
  by (simp add: digits_value_def)

lemma digits_value_show: "digits_value (show_nat n) = n"
proof (induction n rule: show_nat.induct)
  case (1 n)
  show ?case
  proof (cases "n < 10")
    case True
    then show ?thesis by (subst show_nat.simps) (simp add: digits_value_def)
  next
    case False
    with 1 have "digits_value (show_nat (n div 10)) = n div 10" by simp
    with False show ?thesis by (subst show_nat.simps) (simp add: digits_value_snoc)
  qed
qed

lemma show_nat_chars: "c \<in> set (show_nat n) \<Longrightarrow> is_digit c"
  using show_nat_digits by (auto simp: list_all_iff)

lemma show_nat_no [simp]: "CHR ''/'' \<notin> set (show_nat n)" "CHR ''-'' \<notin> set (show_nat n)"
  "CHR ''+'' \<notin> set (show_nat n)" "CHR '':'' \<notin> set (show_nat n)"
  using show_nat_chars is_digit_not by blast+

lemma parse_show_nat: "n < 2 ^ w \<Longrightarrow> parse_uint w (show_nat n) = Some n"
proof -
  assume n: "n < 2 ^ w"
  have "(case show_nat n of [] \<Rightarrow> [] | c # cs \<Rightarrow> if c = CHR ''+'' then cs else show_nat n) = show_nat n"
    by (cases "show_nat n") (use show_nat_no(3) [of n] in auto)
  with n show ?thesis
    by (simp add: parse_uint_def show_nat_digits digits_value_show)
qed

lemma parse_uint_less: "parse_uint w s = Some n \<Longrightarrow> n < 2 ^ w"
  by (auto simp: parse_uint_def Let_def split: if_splits)

lemma parse_uint_Nil [simp]: "parse_uint w [] = None"
  by (simp add: parse_uint_def)

lemma parse_uint_chars: "parse_uint w s = Some n \<Longrightarrow> c \<in> set s \<Longrightarrow> is_digit c \<or> c = CHR ''+''"
  by (auto simp: parse_uint_def Let_def list_all_iff split: list.splits if_splits)

section \<open>Cutting strings\<close>

fun split_once :: "char \<Rightarrow> string \<Rightarrow> (string \<times> string) option" where
  "split_once c [] = None"
| "split_once c (x # xs) =
     (if x = c then Some ([], xs) else map_option (\<lambda>(a, b). (x # a, b)) (split_once c xs))"

fun strip_prefix :: "string \<Rightarrow> string \<Rightarrow> string option" where
  "strip_prefix [] s = Some s"
| "strip_prefix (p # ps) [] = None"
| "strip_prefix (p # ps) (c # cs) = (if p = c then strip_prefix ps cs else None)"

lemma split_once_None [text_simps]: "split_once c s = None \<longleftrightarrow> c \<notin> set s"
  by (induction c s rule: split_once.induct) auto

lemma split_once_append [text_simps]: "c \<notin> set a \<Longrightarrow> split_once c (a @ c # b) = Some (a, b)"
  by (induction a) auto

lemma split_once_Some: "split_once c s = Some (a, b) \<longleftrightarrow> s = a @ c # b \<and> c \<notin> set a"
proof (induction c s arbitrary: a b rule: split_once.induct)
  case (2 c x xs)
  then show ?case by (cases a) (auto simp: Cons_eq_append_conv)
qed simp

lemma strip_prefix_Some [text_simps]: "strip_prefix p s = Some r \<longleftrightarrow> s = p @ r"
  by (induction p s rule: strip_prefix.induct) auto

section \<open>Code points\<close>

text \<open>
  The UTF-8 form of a code point, and \<open>str::chars\<close>. A Rust string is well-formed UTF-8, so
  only the lead byte has to be looked at to know how many bytes a character takes.
\<close>

definition utf8 :: "nat \<Rightarrow> string" where
  "utf8 c = map char_of
     (if c < 128 then [c]
      else if c < 2048 then [192 + c div 64, 128 + c mod 64]
      else if c < 65536 then [224 + c div 4096, 128 + c div 64 mod 64, 128 + c mod 64]
      else [240 + c div 262144, 128 + c div 4096 mod 64, 128 + c div 64 mod 64, 128 + c mod 64])"

definition cont :: "char \<Rightarrow> nat" where
  "cont c = of_char c mod 64"

fun chars :: "string \<Rightarrow> nat list" where
  "chars [] = []"
| "chars (a # s) =
     (let n = of_char a in
      if n < 128 then n # chars s
      else if n < 224 then
        (case s of b # r \<Rightarrow> ((n mod 32) * 64 + cont b) # chars r | _ \<Rightarrow> [])
      else if n < 240 then
        (case s of b # c # r \<Rightarrow> ((n mod 16) * 4096 + cont b * 64 + cont c) # chars r | _ \<Rightarrow> [])
      else
        (case s of b # c # d # r \<Rightarrow>
           ((n mod 8) * 262144 + cont b * 4096 + cont c * 64 + cont d) # chars r | _ \<Rightarrow> []))"

definition of_chars :: "nat list \<Rightarrow> string" where
  "of_chars cs = concat (map utf8 cs)"

lemma of_char_char_of: "(n :: nat) < 256 \<Longrightarrow> of_char (char_of n) = n"
  by (simp add: take_bit_eq_mod)

lemma cont_byte [simp]: "m < 64 \<Longrightarrow> cont (char_of (m + 128)) = m"
  using mod_mult_self1 [of m 2 64] by (simp add: cont_def of_char_char_of)

lemma chars_lead2: "k < 32 \<Longrightarrow> m < 64 \<Longrightarrow>
  chars (char_of (192 + k) # char_of (128 + m) # s) = (k * 64 + m) # chars s"
  using mod_mult_self1 [of k 6 32] by (simp add: of_char_char_of add.commute)

lemma chars_lead3: "k < 16 \<Longrightarrow> m < 64 \<Longrightarrow> l < 64 \<Longrightarrow>
  chars (char_of (224 + k) # char_of (128 + m) # char_of (128 + l) # s) =
    (k * 4096 + m * 64 + l) # chars s"
  using mod_mult_self1 [of k 14 16] by (simp add: of_char_char_of add.commute)

lemma chars_lead4: "k < 8 \<Longrightarrow> m < 64 \<Longrightarrow> l < 64 \<Longrightarrow> j < 64 \<Longrightarrow>
  chars (char_of (240 + k) # char_of (128 + m) # char_of (128 + l) # char_of (128 + j) # s) =
    (k * 262144 + m * 4096 + l * 64 + j) # chars s"
  using mod_mult_self1 [of k 30 8] by (simp add: of_char_char_of add.commute)

lemma sextets:
  "c div 4096 * 4096 + c div 64 mod 64 * 64 + c mod 64 = (c :: nat)"
  "c div 4096 = c div 262144 * 64 + c div 4096 mod (64 :: nat)"
proof -
  have d: "c div 64 div 64 = c div 4096" "c div 4096 div 64 = c div 262144"
    by (simp_all flip: div_mult2_eq)
  have "c div 64 div 64 * 64 + c div 64 mod 64 = c div 64" "c div 64 * 64 + c mod 64 = c"
    by (rule div_mult_mod_eq)+
  then show "c div 4096 * 4096 + c div 64 mod 64 * 64 + c mod 64 = c"
    by (simp only: d)
  show "c div 4096 = c div 262144 * 64 + c div 4096 mod 64"
    using div_mult_mod_eq [of "c div 4096" 64] by (simp only: d)
qed

lemma chars_utf8: "c < 2097152 \<Longrightarrow> chars (utf8 c @ s) = c # chars s"
proof -
  assume c: "c < 2097152"
  consider "c < 128" | "128 \<le> c" "c < 2048" | "2048 \<le> c" "c < 65536" | "65536 \<le> c"
    by linarith
  then show ?thesis
  proof cases
    case 1
    then show ?thesis by (simp add: utf8_def of_char_char_of)
  next
    case 2
    then show ?thesis
      using chars_lead2 [of "c div 64" "c mod 64" s] by (simp add: utf8_def del: chars.simps)
  next
    case 3
    have "c div 4096 * 4096 + c div 64 mod 64 * 64 + c mod 64 = c"
      using sextets(1) [of c] by simp
    then show ?thesis
      using 3 chars_lead3 [of "c div 4096" "c div 64 mod 64" "c mod 64" s]
      by (simp add: utf8_def del: chars.simps)
  next
    case 4
    have "c div 262144 * 262144 + c div 4096 mod 64 * 4096 + c div 64 mod 64 * 64 + c mod 64 = c"
      using sextets [of c] by simp
    then show ?thesis
      using 4 c chars_lead4 [of "c div 262144" "c div 4096 mod 64" "c div 64 mod 64" "c mod 64" s]
      by (simp add: utf8_def del: chars.simps)
  qed
qed

lemma chars_of_chars: "list_all (\<lambda>c. c < 2097152) cs \<Longrightarrow> chars (of_chars cs) = cs"
  by (induction cs) (simp_all add: of_chars_def chars_utf8)

text \<open>\<open>char::is_control\<close>: the Unicode category Cc.\<close>

definition is_control :: "nat \<Rightarrow> bool" where
  "is_control c \<longleftrightarrow> c < 32 \<or> (127 \<le> c \<and> c \<le> 159)"

lemma chars_ascii: "list_all (\<lambda>a. of_char a < (128::nat)) s \<Longrightarrow> chars s = map of_char s"
  by (induction s) simp_all

end
