(* ===== verification/Proto_Name.thy ===== *)
theory Proto_Name
  imports Rust_Text
begin

text \<open>
  \<open>hawse-proto/src/name.rs\<close>: the names of clients and services. \<open>validate\<close> looks at the
  first character, then the length in bytes, then every other character.
\<close>

definition MAX_LEN :: nat where "MAX_LEN = 32"

datatype NameError = Empty | TooLong nat | Start nat | Char nat

definition ascii_lowercase :: "nat \<Rightarrow> bool" where "ascii_lowercase c \<longleftrightarrow> 97 \<le> c \<and> c \<le> 122"
definition ascii_digit :: "nat \<Rightarrow> bool" where "ascii_digit c \<longleftrightarrow> 48 \<le> c \<and> c \<le> 57"
definition hyphen :: nat where "hyphen = 45"

definition validate :: "string \<Rightarrow> NameError + unit" where
  "validate name =
     (case chars name of
        [] \<Rightarrow> Inl Empty
      | first # rest \<Rightarrow>
          if \<not> ascii_lowercase first \<and> \<not> ascii_digit first
          then Inl (if first = hyphen then Start first else Char first)
          else if length name > MAX_LEN then Inl (TooLong (length name))
          else (case find (\<lambda>c. \<not> ascii_lowercase c \<and> \<not> ascii_digit c \<and> c \<noteq> hyphen) rest of
                  Some bad \<Rightarrow> Inl (Char bad)
                | None \<Rightarrow> Inr ()))"

text \<open>What a valid name is, as the error messages of the source put it.\<close>

definition name_char :: "nat \<Rightarrow> bool" where
  "name_char c \<longleftrightarrow> ascii_lowercase c \<or> ascii_digit c \<or> c = hyphen"

lemma validate_ok:
  "validate name = Inr () \<longleftrightarrow>
     chars name \<noteq> [] \<and> list_all name_char (chars name) \<and> hd (chars name) \<noteq> hyphen \<and>
     length name \<le> MAX_LEN"
  by (auto simp: validate_def name_char_def hyphen_def ascii_lowercase_def ascii_digit_def
      find_None_iff list_all_iff split: list.splits option.splits dest: find_SomeD)

lemma name_char_ascii: "name_char c \<Longrightarrow> c < 128"
  by (auto simp: name_char_def hyphen_def ascii_lowercase_def ascii_digit_def)

lemma of_chars_name: "list_all name_char cs \<Longrightarrow> length (of_chars cs) = length cs"
  by (induction cs) (auto simp: of_chars_def utf8_def dest: name_char_ascii)

text \<open>
  A string is accepted as a client or service name exactly when it is one to 32
  characters of \<open>a-z\<close>, \<open>0-9\<close> and the hyphen, and does not start with the hyphen. The length
  check counts bytes, but an accepted name has one byte for each character.
\<close>

theorem validate_characterised:
  assumes "list_all (\<lambda>c. c < 1114112) cs"
  shows "validate (of_chars cs) = Inr () \<longleftrightarrow>
    0 < length cs \<and> length cs \<le> 32 \<and> list_all name_char cs \<and> hd cs \<noteq> hyphen"
proof -
  have "list_all (\<lambda>c. c < 2097152) cs" using assms by (auto simp: list_all_iff)
  then have cs: "chars (of_chars cs) = cs" by (rule chars_of_chars)
  show ?thesis by (auto simp: validate_ok cs of_chars_name MAX_LEN_def)
qed

theorem validate_characterised_witness:
  "validate (of_chars [104, 97, 119, 115, 101]) = Inr () \<and> validate (of_chars [104, 233]) \<noteq> Inr ()"
proof -
  have a: "list_all (\<lambda>c. c < (1114112 :: nat)) [104, 97, 119, 115, 101]"
    and b: "list_all (\<lambda>c. c < (1114112 :: nat)) [104, 233]" by simp_all
  show ?thesis
    by (simp only: validate_characterised [OF a] validate_characterised [OF b])
       (simp add: name_char_def hyphen_def ascii_lowercase_def ascii_digit_def)
qed

lemma validate_too_long_counts_bytes:
  "validate (of_chars (97 # replicate 16 233)) = Inl (TooLong 33) \<and>
   length (chars (of_chars (97 # replicate 16 233))) = 17"
  by code_simp

end
