(* ===== verification/Proto_Port.thy ===== *)
theory Proto_Port
  imports Rust_Text
begin

text \<open>
  \<open>hawse-proto/src/port.rs\<close>: ports, ranges of ports, the span of the dynamic pool and the
  port a service asks for, with their text forms. The \<open>text_form\<close> interface of the prelude
  is interpreted for each of the four types.
\<close>

section \<open>Types\<close>

datatype Kind = Tcp | Udp

record Port =
  number :: u16
  kind :: Kind

record PortRange =
  r_first :: u16
  r_last :: u16
  r_kind :: Kind

record PortSpan =
  s_first :: u16
  s_last :: u16

datatype PortRequest = Any Kind | Fixed Port

datatype ParsePortError = EmptyPort | Number string | Protocol string | Reversed u16 u16

fun kind_as_str :: "Kind \<Rightarrow> string" where
  "kind_as_str Tcp = ''tcp''"
| "kind_as_str Udp = ''udp''"

section \<open>Parsing\<close>

definition split_kind :: "string \<Rightarrow> ParsePortError + (string \<times> Kind)" where
  "split_kind s =
     (case split_once CHR ''/'' s of
        None \<Rightarrow> Inr (s, Tcp)
      | Some (n, proto) \<Rightarrow>
          if proto = ''tcp'' then Inr (n, Tcp)
          else if proto = ''udp'' then Inr (n, Udp)
          else Inl (Protocol proto))"

definition parse_number :: "string \<Rightarrow> ParsePortError + u16" where
  "parse_number s =
     (case parse_uint 16 s of
        None \<Rightarrow> Inl (Number s)
      | Some n \<Rightarrow> if n = 0 then Inl (Number s) else Inr (word_of_nat n))"

definition parse_bounds :: "string \<Rightarrow> ParsePortError + (u16 \<times> u16)" where
  "parse_bounds s =
     (if s = [] then Inl EmptyPort
      else
        let bounds =
          (case split_once CHR ''-'' s of
             Some (a, b) \<Rightarrow>
               (case parse_number a of
                  Inl e \<Rightarrow> Inl e
                | Inr lo \<Rightarrow> (case parse_number b of Inl e \<Rightarrow> Inl e | Inr hi \<Rightarrow> Inr (lo, hi)))
           | None \<Rightarrow> (case parse_number s of Inl e \<Rightarrow> Inl e | Inr n \<Rightarrow> Inr (n, n)))
        in case bounds of
             Inl e \<Rightarrow> Inl e
           | Inr (lo, hi) \<Rightarrow>
               if lo > hi then Inl (Reversed lo hi) else Inr (lo, hi))"

definition port_from_str :: "string \<Rightarrow> ParsePortError + Port" where
  "port_from_str s =
     (if s = [] then Inl EmptyPort
      else case split_kind s of
             Inl e \<Rightarrow> Inl e
           | Inr (n, k) \<Rightarrow>
               (case parse_number n of Inl e \<Rightarrow> Inl e | Inr w \<Rightarrow> Inr \<lparr>number = w, kind = k\<rparr>))"

definition range_from_str :: "string \<Rightarrow> ParsePortError + PortRange" where
  "range_from_str s =
     (case split_kind s of
        Inl e \<Rightarrow> Inl e
      | Inr (body, k) \<Rightarrow>
          (case parse_bounds body of
             Inl e \<Rightarrow> Inl e
           | Inr (lo, hi) \<Rightarrow> Inr \<lparr>r_first = lo, r_last = hi, r_kind = k\<rparr>))"

definition span_from_str :: "string \<Rightarrow> ParsePortError + PortSpan" where
  "span_from_str s =
     (case split_once CHR ''/'' s of
        Some (_, proto) \<Rightarrow> Inl (Protocol proto)
      | None \<Rightarrow>
          (case parse_bounds s of
             Inl e \<Rightarrow> Inl e
           | Inr (lo, hi) \<Rightarrow> Inr \<lparr>s_first = lo, s_last = hi\<rparr>))"

definition request_from_str :: "string \<Rightarrow> ParsePortError + PortRequest" where
  "request_from_str s =
     (if s = ''any'' \<or> s = ''any/tcp'' then Inr (Any Tcp)
      else if s = ''any/udp'' then Inr (Any Udp)
      else case strip_prefix ''any/'' s of
             Some proto \<Rightarrow> Inl (Protocol proto)
           | None \<Rightarrow> (case port_from_str s of Inl e \<Rightarrow> Inl e | Inr p \<Rightarrow> Inr (Fixed p)))"

section \<open>Printing\<close>

definition port_to_string :: "Port \<Rightarrow> string" where
  "port_to_string p =
     (case kind p of
        Tcp \<Rightarrow> show_nat (unat (number p))
      | Udp \<Rightarrow> show_nat (unat (number p)) @ ''/udp'')"

definition bounds_to_string :: "u16 \<Rightarrow> u16 \<Rightarrow> string" where
  "bounds_to_string lo hi =
     (if lo = hi then show_nat (unat lo)
      else show_nat (unat lo) @ CHR ''-'' # show_nat (unat hi))"

definition range_to_string :: "PortRange \<Rightarrow> string" where
  "range_to_string r =
     bounds_to_string (r_first r) (r_last r) @ (if r_kind r = Udp then ''/udp'' else [])"

definition span_to_string :: "PortSpan \<Rightarrow> string" where
  "span_to_string s = bounds_to_string (s_first s) (s_last s)"

fun request_to_string :: "PortRequest \<Rightarrow> string" where
  "request_to_string (Any Tcp) = ''any''"
| "request_to_string (Any Udp) = ''any/udp''"
| "request_to_string (Fixed p) = port_to_string p"

section \<open>Membership, kinds and the configuration form\<close>

definition range_contains :: "PortRange \<Rightarrow> Port \<Rightarrow> bool" where
  "range_contains r p \<longleftrightarrow> kind p = r_kind r \<and> r_first r \<le> number p \<and> number p \<le> r_last r"

text \<open>\<open>PortSpan::iter\<close> is the inclusive range, empty when it runs backwards.\<close>

definition span_iter :: "PortSpan \<Rightarrow> u16 list" where
  "span_iter s = map word_of_nat [unat (s_first s) ..< Suc (unat (s_last s))]"

definition span_len :: "PortSpan \<Rightarrow> nat" where
  "span_len s = unat (s_last s - s_first s) + 1"

definition span_is_empty :: "PortSpan \<Rightarrow> bool" where
  "span_is_empty s = False"

definition contains_number :: "PortSpan \<Rightarrow> u16 \<Rightarrow> bool" where
  "contains_number s n \<longleftrightarrow> s_first s \<le> n \<and> n \<le> s_last s"

fun request_kind :: "PortRequest \<Rightarrow> Kind" where
  "request_kind (Any k) = k"
| "request_kind (Fixed p) = kind p"

definition request_default :: PortRequest where
  "request_default = Any Tcp"

text \<open>What serde sees of a port request: a number, or a text.\<close>

datatype Raw = RawNumber u16 | RawText string

definition request_serialize :: "PortRequest \<Rightarrow> Raw" where
  "request_serialize r =
     (case r of
        Fixed p \<Rightarrow> if kind p = Tcp then RawNumber (number p) else RawText (request_to_string r)
      | Any _ \<Rightarrow> RawText (request_to_string r))"

fun request_deserialize :: "Raw \<Rightarrow> ParsePortError + PortRequest" where
  "request_deserialize (RawNumber n) =
     (if n = 0 then Inl (Number ''0'') else Inr (Fixed \<lparr>number = n, kind = Tcp\<rparr>))"
| "request_deserialize (RawText t) = request_from_str t"

section \<open>Lemmas\<close>

text \<open>What every parsed value satisfies.\<close>

definition port_wf :: "Port \<Rightarrow> bool" where "port_wf p \<longleftrightarrow> number p \<noteq> 0"
definition range_wf :: "PortRange \<Rightarrow> bool" where
  "range_wf r \<longleftrightarrow> r_first r \<noteq> 0 \<and> r_first r \<le> r_last r"
definition span_wf :: "PortSpan \<Rightarrow> bool" where
  "span_wf s \<longleftrightarrow> s_first s \<noteq> 0 \<and> s_first s \<le> s_last s"
definition request_wf :: "PortRequest \<Rightarrow> bool" where
  "request_wf r \<longleftrightarrow> (case r of Any _ \<Rightarrow> True | Fixed p \<Rightarrow> port_wf p)"

lemmas port_parsers = split_kind_def parse_number_def parse_bounds_def port_from_str_def
  range_from_str_def span_from_str_def

lemma parse_number_show [simp]: "w \<noteq> 0 \<Longrightarrow> parse_number (show_nat (unat w)) = Inr w"
  using unat_bounds(2) [of w] by (simp add: parse_number_def parse_show_nat unat_eq_0)

lemma parse_number_ok: "parse_number s = Inr w \<Longrightarrow> w \<noteq> 0"
  using parse_uint_less [of 16 s]
  by (auto simp: parse_number_def of_nat_neq_0 split: option.splits if_splits)

lemma show_nat_unsplit [simp]:
  "split_once CHR ''/'' (show_nat n) = None" "split_once CHR ''-'' (show_nat n) = None"
  by (simp_all add: split_once_None)

lemma parse_number_nonzero [simp]: "parse_number s \<noteq> Inr 0"
  using parse_number_ok by blast

lemma bounds_no_slash: "CHR ''/'' \<notin> set (bounds_to_string a b)"
  by (simp add: bounds_to_string_def)

lemma bounds_nonempty [simp]: "bounds_to_string a b \<noteq> []"
  by (simp add: bounds_to_string_def)

lemma parse_bounds_show:
  assumes "a \<noteq> 0" "a \<le> b"
  shows "parse_bounds (bounds_to_string a b) = Inr (a, b)"
proof -
  have "b \<noteq> 0" using assms by auto
  with assms show ?thesis
    by (auto simp: parse_bounds_def bounds_to_string_def split_once_append)
qed

lemma parse_bounds_ok: "parse_bounds s = Inr (a, b) \<Longrightarrow> a \<noteq> 0 \<and> a \<le> b"
  by (auto simp: parse_bounds_def Let_def dest: parse_number_ok
      split: if_splits option.splits sum.splits prod.splits)

lemma split_kind_show:
  assumes "CHR ''/'' \<notin> set body"
  shows "split_kind body = Inr (body, Tcp)" "split_kind (body @ ''/udp'') = Inr (body, Udp)"
  using assms by (simp_all add: split_kind_def split_once_None [THEN iffD2] split_once_append)

lemma port_from_to: "port_wf p \<Longrightarrow> port_from_str (port_to_string p) = Inr p"
  by (cases p; cases "kind p")
     (simp_all add: port_wf_def port_from_str_def port_to_string_def split_kind_show)

lemma port_from_wf: "port_from_str s = Inr p \<Longrightarrow> port_wf p"
  by (auto simp: port_from_str_def port_wf_def split: if_splits sum.splits)

lemma range_from_to: "range_wf r \<Longrightarrow> range_from_str (range_to_string r) = Inr r"
  by (cases r; cases "r_kind r")
     (simp_all add: range_wf_def range_from_str_def range_to_string_def split_kind_show
        bounds_no_slash parse_bounds_show)

lemma range_from_wf: "range_from_str s = Inr r \<Longrightarrow> range_wf r"
  using parse_bounds_ok by (fastforce simp: range_from_str_def range_wf_def split: sum.splits)

lemma span_from_to: "span_wf s \<Longrightarrow> span_from_str (span_to_string s) = Inr s"
  by (cases s)
     (simp add: span_wf_def span_from_str_def span_to_string_def split_once_None [THEN iffD2]
        bounds_no_slash parse_bounds_show)

lemma span_from_wf: "span_from_str t = Inr s \<Longrightarrow> span_wf s"
  using parse_bounds_ok
  by (fastforce simp: span_from_str_def span_wf_def split: sum.splits option.splits)

lemma port_not_any: "port_wf p \<Longrightarrow> strip_prefix ''any/'' (port_to_string p) = None \<and> hd (port_to_string p) \<noteq> CHR ''a''"
proof -
  obtain c cs where "show_nat (unat (number p)) = c # cs" by (cases "show_nat (unat (number p))") auto
  moreover from this have "is_digit c" using show_nat_chars [of c "unat (number p)"] by simp
  then have "c \<noteq> CHR ''a''" using is_digit_not by blast
  ultimately show ?thesis by (cases "kind p") (simp_all add: port_to_string_def)
qed

lemma request_from_to: "request_wf r \<Longrightarrow> request_from_str (request_to_string r) = Inr r"
proof (cases r)
  case (Any k)
  then show ?thesis by (cases k) (simp_all add: request_from_str_def)
next
  case (Fixed p)
  assume "request_wf r"
  with Fixed have "port_wf p" by (simp add: request_wf_def)
  moreover from this have "port_to_string p \<noteq> ''any'' \<and> port_to_string p \<noteq> ''any/tcp'' \<and>
    port_to_string p \<noteq> ''any/udp''" using port_not_any [of p] by auto
  ultimately show ?thesis
    using Fixed port_not_any [of p] by (simp add: request_from_str_def port_from_to)
qed

lemma request_from_wf: "request_from_str s = Inr r \<Longrightarrow> request_wf r"
  by (auto simp: request_from_str_def request_wf_def dest: port_from_wf
      split: if_splits option.splits sum.splits PortRequest.splits)

section \<open>The text forms\<close>

interpretation port_text: text_form port_to_string port_from_str port_wf
  by unfold_locales (fact port_from_to, fact port_from_wf)

interpretation range_text: text_form range_to_string range_from_str range_wf
  by unfold_locales (fact range_from_to, fact range_from_wf)

interpretation span_text: text_form span_to_string span_from_str span_wf
  by unfold_locales (fact span_from_to, fact span_from_wf)

interpretation request_text: text_form request_to_string request_from_str request_wf
  by unfold_locales (fact request_from_to, fact request_from_wf)

text \<open>
  Every port, range, pool span and port request that the parsers can produce is printed
  to a text that parses back to it, and two different values never print the same.
\<close>

theorem port_texts_roundtrip:
  "(port_from_str s = Inr p \<longrightarrow> port_from_str (port_to_string p) = Inr p) \<and>
   (range_from_str s = Inr r \<longrightarrow> range_from_str (range_to_string r) = Inr r) \<and>
   (span_from_str s = Inr sp \<longrightarrow> span_from_str (span_to_string sp) = Inr sp) \<and>
   (request_from_str s = Inr q \<longrightarrow> request_from_str (request_to_string q) = Inr q) \<and>
   (request_wf q \<and> request_wf q' \<and> request_to_string q = request_to_string q' \<longrightarrow> q = q')"
  using port_text.read_show_read range_text.read_show_read span_text.read_show_read
    request_text.read_show_read request_text.show_inj by metis

theorem port_texts_roundtrip_witness:
  "port_from_str ''51820/udp'' = Inr \<lparr>number = 51820, kind = Udp\<rparr> \<and>
   port_from_str (port_to_string \<lparr>number = 51820, kind = Udp\<rparr>) = Inr \<lparr>number = 51820, kind = Udp\<rparr>"
proof -
  have "port_from_str ''51820/udp'' = Inr \<lparr>number = 51820, kind = Udp\<rparr>"
    by (simp add: port_parsers parse_uint_def is_digit_def digits_value_def)
  then show ?thesis using port_texts_roundtrip by blast
qed

text \<open>
  A port request survives the configuration file: what \<open>Serialize\<close> writes, a number for a
  fixed TCP port and a text otherwise, \<open>Deserialize\<close> reads back.
\<close>

theorem request_serde_roundtrip:
  "request_wf r \<Longrightarrow> request_deserialize (request_serialize r) = Inr r"
proof (cases r)
  case (Fixed p)
  assume "request_wf r"
  then show ?thesis
    using Fixed request_from_to [of r]
    by (cases p; cases "kind p") (auto simp: request_serialize_def request_wf_def port_wf_def)
qed (simp add: request_serialize_def request_from_to)

theorem request_serde_roundtrip_witness:
  "request_deserialize (request_serialize (Fixed \<lparr>number = 443, kind = Tcp\<rparr>)) =
     Inr (Fixed \<lparr>number = 443, kind = Tcp\<rparr>)"
  by (rule request_serde_roundtrip) (simp add: request_wf_def port_wf_def)

lemma span_nat:
  assumes "span_wf s"
  shows "unat (s_last s - s_first s) = unat (s_last s) - unat (s_first s)"
    "unat (s_first s) \<le> unat (s_last s)"
  using assms by (auto simp: span_wf_def unat_sub word_le_nat_alt)

lemma span_iter_set:
  assumes "span_wf s"
  shows "set (span_iter s) = {n. contains_number s n}"
proof (intro set_eqI iffI)
  have last: "unat (s_last s) < 65536" by (rule unat_bounds)
  fix x :: u16
  show "x \<in> {n. contains_number s n}" if "x \<in> set (span_iter s)"
    using last that by (auto simp: span_iter_def contains_number_def word_le_nat_alt unat_of_nat)
next
  fix x :: u16
  assume "x \<in> {n. contains_number s n}"
  then have "unat x \<in> set [unat (s_first s) ..< Suc (unat (s_last s))]"
    by (auto simp: contains_number_def word_le_nat_alt)
  then have "word_of_nat (unat x) \<in> set (span_iter s)"
    unfolding span_iter_def set_map by (rule imageI)
  then show "x \<in> set (span_iter s)" by simp
qed

text \<open>
  The dynamic pool: \<open>len\<close> counts what \<open>iter\<close> lists, no number is listed twice, and a
  number is listed exactly when \<open>contains_number\<close> says so. \<open>is_empty\<close> is right to be false.
\<close>

theorem span_iter_len_contains:
  assumes "span_wf s"
  shows "length (span_iter s) = span_len s \<and> distinct (span_iter s) \<and>
    set (span_iter s) = {n. contains_number s n} \<and> span_is_empty s = (span_iter s = [])"
proof -
  note n = span_nat [OF assms]
  have last: "unat (s_last s) < 65536" by (rule unat_bounds)
  have inj: "inj_on (word_of_nat :: nat \<Rightarrow> u16) {unat (s_first s) ..< Suc (unat (s_last s))}"
    by (rule inj_onI) (use last in \<open>auto simp: word_of_nat_eq_iff take_bit_eq_mod\<close>)
  have "distinct (span_iter s)"
    using inj by (simp only: span_iter_def distinct_map distinct_upt set_upt)
  with span_iter_set [OF assms] show ?thesis
    using n by (simp add: span_iter_def span_len_def span_is_empty_def)
qed

theorem span_iter_len_contains_witness:
  "length (span_iter \<lparr>s_first = 40000, s_last = 40002\<rparr>) = 3"
  using span_iter_len_contains [of "\<lparr>s_first = 40000, s_last = 40002\<rparr>"]
  by (simp add: span_wf_def span_len_def)

end
