(* ===== verification/Proto_Key.thy ===== *)
theory Proto_Key
  imports Rust_Text
begin

text \<open>
  \<open>hawse-proto/src/key.rs\<close>: Ed25519 public keys and their text form. The base64url codec is a
  crate the code calls, so its two functions are arguments of the definitions that use them;
  the properties rely on decoding what was encoded, and on nothing else.
\<close>

definition PREFIX :: string where "PREFIX = ''ed25519:''"

datatype PublicKey = PublicKey bytes

datatype ParseKeyError = MissingPrefix | Base64 | Length nat

fun as_bytes :: "PublicKey \<Rightarrow> bytes" where
  "as_bytes (PublicKey bs) = bs"

definition from_slice :: "bytes \<Rightarrow> ParseKeyError + PublicKey" where
  "from_slice bs = (if length bs = 32 then Inr (PublicKey bs) else Inl (Length (length bs)))"

definition key_short :: "(bytes \<Rightarrow> string) \<Rightarrow> PublicKey \<Rightarrow> string" where
  "key_short encode64 k = take 8 (encode64 (as_bytes k))"

definition key_to_string :: "(bytes \<Rightarrow> string) \<Rightarrow> PublicKey \<Rightarrow> string" where
  "key_to_string encode64 k = PREFIX @ encode64 (as_bytes k)"

definition key_from_str :: "(string \<Rightarrow> bytes option) \<Rightarrow> string \<Rightarrow> ParseKeyError + PublicKey" where
  "key_from_str decode64 s =
     (case strip_prefix PREFIX s of
        None \<Rightarrow> Inl MissingPrefix
      | Some rest \<Rightarrow>
          (case decode64 rest of
             None \<Rightarrow> Inl Base64
           | Some bs \<Rightarrow> from_slice bs))"

text \<open>A key as the code builds it: 32 bytes, by the type \<open>[u8; 32]\<close>.\<close>

definition key_wf :: "PublicKey \<Rightarrow> bool" where
  "key_wf k \<longleftrightarrow> length (as_bytes k) = 32"

lemma from_slice_ok: "from_slice bs = Inr k \<longleftrightarrow> k = PublicKey bs \<and> length bs = 32"
  by (auto simp: from_slice_def)

text \<open>
  A public key printed for a configuration file or a log parses back to the same key, given
  that base64 decodes what it encoded; and whatever text parses, parses to 32 bytes, with the
  error naming what was wrong in the order prefix, alphabet, length.
\<close>

theorem key_text_roundtrip:
  assumes codec: "\<And>bs. decode64 (encode64 bs) = Some bs"
  shows "(key_wf k \<longrightarrow> key_from_str decode64 (key_to_string encode64 k) = Inr k) \<and>
    (key_from_str decode64 s = Inr k \<longrightarrow>
       key_wf k \<and> (\<exists>rest. s = PREFIX @ rest \<and> decode64 rest = Some (as_bytes k))) \<and>
    (key_from_str decode64 s = Inl (Length n) \<longrightarrow> n \<noteq> 32)"
proof -
  have strip: "strip_prefix PREFIX (PREFIX @ t) = Some t" for t
    by (simp add: strip_prefix_Some)
  have "key_wf k \<longrightarrow> key_from_str decode64 (key_to_string encode64 k) = Inr k"
    by (cases k) (simp add: key_from_str_def key_to_string_def strip codec from_slice_def key_wf_def)
  moreover have "key_from_str decode64 s = Inr k \<longrightarrow>
      key_wf k \<and> (\<exists>rest. s = PREFIX @ rest \<and> decode64 rest = Some (as_bytes k))"
    by (auto simp: key_from_str_def strip_prefix_Some from_slice_ok key_wf_def split: option.splits)
  moreover have "key_from_str decode64 s = Inl (Length n) \<longrightarrow> n \<noteq> 32"
    by (auto simp: key_from_str_def from_slice_def split: option.splits if_splits)
  ultimately show ?thesis by blast
qed

theorem key_text_roundtrip_witness:
  "key_from_str (\<lambda>s. Some (map (\<lambda>c. word_of_nat (of_char c)) s))
     (key_to_string (map (\<lambda>b. char_of (unat b))) (PublicKey (replicate 32 7))) =
   Inr (PublicKey (replicate 32 7))"
proof -
  have byte: "word_of_nat (of_char (char_of (unat b) :: char)) = (b :: u8)" for b
    using unat_bounds(1) [of b] by (simp add: take_bit_eq_mod)
  then have "Some (map (\<lambda>c. word_of_nat (of_char c)) (map (\<lambda>b. char_of (unat b) :: char) bs)) = Some bs"
    for bs :: bytes by (simp add: o_def map_idI)
  from key_text_roundtrip [of "\<lambda>s. Some (map (\<lambda>c. word_of_nat (of_char c)) s)"
      "map (\<lambda>b. char_of (unat b))" "PublicKey (replicate 32 7)", OF this]
  show ?thesis by (simp add: key_wf_def)
qed

end
