(* ===== verification/Net_Addr.thy ===== *)
theory Net_Addr
  imports Rust_Text
begin

text \<open>
  The address types of \<open>std::net\<close>: an IPv4 address is its 32 bits and an IPv6 address its
  128, most significant first as on the wire. An IPv6 socket address carries its flow label
  and scope beside the address and the port, as \<open>SocketAddrV6\<close> does.
\<close>

type_synonym u128 = "128 word"

datatype IpAddr = V4 u32 | V6 u128

datatype SocketAddr = SocketV4 u32 u16 | SocketV6 u128 u16 u32 u32

fun sa_ip :: "SocketAddr \<Rightarrow> IpAddr" where
  "sa_ip (SocketV4 a _) = V4 a"
| "sa_ip (SocketV6 a _ _ _) = V6 a"

fun sa_port :: "SocketAddr \<Rightarrow> u16" where
  "sa_port (SocketV4 _ p) = p"
| "sa_port (SocketV6 _ p _ _) = p"

text \<open>\<open>SocketAddr::new\<close> leaves the flow label and the scope zero.\<close>

fun socket_addr :: "IpAddr \<Rightarrow> u16 \<Rightarrow> SocketAddr" where
  "socket_addr (V4 a) p = SocketV4 a p"
| "socket_addr (V6 a) p = SocketV6 a p 0 0"

lemma socket_addr_sel [simp]: "sa_ip (socket_addr ip p) = ip" "sa_port (socket_addr ip p) = p"
  by (cases ip; simp)+

definition octets4 :: "u32 \<Rightarrow> bytes" where "octets4 a = rev (to_le 4 (unat a))"
definition octets6 :: "u128 \<Rightarrow> bytes" where "octets6 a = rev (to_le 16 (unat a))"
definition of_octets4 :: "bytes \<Rightarrow> u32" where "of_octets4 bs = word_of_nat (of_le (rev bs))"
definition of_octets6 :: "bytes \<Rightarrow> u128" where "of_octets6 bs = word_of_nat (of_le (rev bs))"

lemma length_octets [simp]: "length (octets4 a) = 4" "length (octets6 b) = 16"
  by (simp_all add: octets4_def octets6_def)

lemma unat_u128: "unat (a :: u128) < 2 ^ 128"
  by (rule order.strict_trans2 [OF unsigned_less]) simp

lemma of_octets4_octets4 [byte_simps]: "of_octets4 (octets4 a) = a"
  using unat_bounds(3) [of a] by (simp add: of_octets4_def octets4_def of_le_to_le)

lemma of_octets6_octets6 [byte_simps]: "of_octets6 (octets6 a) = a"
  using unat_u128 [of a] by (simp add: of_octets6_def octets6_def of_le_to_le)

lemma octets4_of_octets4 [byte_simps]: "length bs = 4 \<Longrightarrow> octets4 (of_octets4 bs) = bs"
  using of_le_less [of "rev bs"] to_le_of_le [of "rev bs"]
  by (simp add: of_octets4_def octets4_def unat_of_nat)

lemma octets6_of_octets6 [byte_simps]: "length bs = 16 \<Longrightarrow> octets6 (of_octets6 bs) = bs"
  using of_le_less [of "rev bs"] to_le_of_le [of "rev bs"]
  by (simp add: of_octets6_def octets6_def unat_of_nat)

section \<open>IPv4 addresses inside IPv6\<close>

text \<open>\<open>Ipv6Addr::to_ipv4_mapped\<close>, \<open>Ipv4Addr::to_ipv6_mapped\<close> and \<open>IpAddr::to_canonical\<close>.\<close>

definition to_ipv4_mapped :: "u128 \<Rightarrow> u32 option" where
  "to_ipv4_mapped a =
     (if unat a div 4294967296 = 65535 then Some (word_of_nat (unat a mod 4294967296)) else None)"

definition to_ipv6_mapped :: "u32 \<Rightarrow> u128" where
  "to_ipv6_mapped a = word_of_nat (65535 * 4294967296 + unat a)"

fun to_canonical :: "IpAddr \<Rightarrow> IpAddr" where
  "to_canonical (V4 a) = V4 a"
| "to_canonical (V6 a) = (case to_ipv4_mapped a of Some b \<Rightarrow> V4 b | None \<Rightarrow> V6 a)"

fun is_unspecified :: "IpAddr \<Rightarrow> bool" where
  "is_unspecified (V4 a) \<longleftrightarrow> a = 0"
| "is_unspecified (V6 a) \<longleftrightarrow> a = 0"

fun is_ipv4 :: "IpAddr \<Rightarrow> bool" where
  "is_ipv4 (V4 _) = True"
| "is_ipv4 (V6 _) = False"

lemma to_canonical_idem [simp]: "to_canonical (to_canonical ip) = to_canonical ip"
  by (cases ip) (simp_all split: option.splits)

lemma mapped_roundtrip [simp]: "to_ipv4_mapped (to_ipv6_mapped a) = Some a"
proof -
  have a: "unat a < 4294967296" by (rule unat_bounds)
  then have u: "unat (to_ipv6_mapped a) = 65535 * 4294967296 + unat a"
    by (simp only: to_ipv6_mapped_def unat_of_nat) simp
  have "unat (to_ipv6_mapped a) div 4294967296 = 65535"
    using a by (simp only: u div_mult_self3 div_less)
  moreover have "unat (to_ipv6_mapped a) mod 4294967296 = unat a"
    using a by (simp only: u mod_mult_self3 mod_less)
  ultimately show ?thesis by (simp add: to_ipv4_mapped_def)
qed

lemma canonical_mapped [simp]: "to_canonical (V6 (to_ipv6_mapped a)) = V4 a"
  by simp

lemma canonical_not_mapped: "to_canonical ip = V6 a \<Longrightarrow> to_ipv4_mapped a = None"
  by (cases ip) (auto split: option.splits)

section \<open>The order of addresses\<close>

text \<open>The derived order of \<open>IpAddr\<close>: every IPv4 address before every IPv6 one.\<close>

instantiation IpAddr :: linorder
begin

fun less_eq_IpAddr :: "IpAddr \<Rightarrow> IpAddr \<Rightarrow> bool" where
  "less_eq_IpAddr (V4 a) (V4 b) = (a \<le> b)"
| "less_eq_IpAddr (V4 a) (V6 b) = True"
| "less_eq_IpAddr (V6 a) (V4 b) = False"
| "less_eq_IpAddr (V6 a) (V6 b) = (a \<le> b)"

definition less_IpAddr :: "IpAddr \<Rightarrow> IpAddr \<Rightarrow> bool" where
  "less_IpAddr a b = (a \<le> b \<and> \<not> b \<le> a)"

instance
proof
  fix x y z :: IpAddr
  show "x \<le> x" by (cases x) simp_all
  show "x \<le> y \<Longrightarrow> y \<le> z \<Longrightarrow> x \<le> z" by (cases x; cases y; cases z) auto
  show "x \<le> y \<Longrightarrow> y \<le> x \<Longrightarrow> x = y" by (cases x; cases y) auto
  show "x \<le> y \<or> y \<le> x" by (cases x; cases y) auto
qed (simp add: less_IpAddr_def)

end

end
