(* ===== verification/Allow_List.thy ===== *)
theory Allow_List
  imports Net_Addr
begin

text \<open>
  \<open>hawse-core/src/allow.rs\<close>: the visitor addresses a service admits. Networks are values of the
  \<open>ipnet\<close> crate, so the operations the code calls on them are a record of functions,
  \<open>ipnet\<close>, and what the crate documents of them is the predicate \<open>ipnet_laws\<close>.
\<close>

record 'net ipnet =
  trunc :: "'net \<Rightarrow> 'net"
  net_contains :: "'net \<Rightarrow> 'net \<Rightarrow> bool"
  addr_contains :: "'net \<Rightarrow> IpAddr \<Rightarrow> bool"
  v6_parts :: "'net \<Rightarrow> (u128 \<times> nat) option"
  v4_net :: "u32 \<Rightarrow> nat \<Rightarrow> 'net option"

text \<open>
  Truncation keeps a network's addresses; a network contains another exactly when it has its
  addresses, and two of which neither contains the other share none; a network of either family
  holds the addresses of that family that agree with it on its prefix.
\<close>

definition ipnet_laws :: "('net, 'x) ipnet_scheme \<Rightarrow> bool" where
  "ipnet_laws net \<longleftrightarrow>
     (\<forall>n ip. addr_contains net (trunc net n) ip = addr_contains net n ip) \<and>
     (\<forall>a b ip. net_contains net a b \<longrightarrow> addr_contains net b ip \<longrightarrow> addr_contains net a ip) \<and>
     (\<forall>a b ip. addr_contains net a ip \<longrightarrow> addr_contains net b ip \<longrightarrow> net_contains net a b \<or> net_contains net b a) \<and>
     (\<forall>n nw p ip. v6_parts net n = Some (nw, p) \<longrightarrow> p \<le> 128 \<and>
        (addr_contains net n ip \<longleftrightarrow> (\<exists>a. ip = V6 a \<and> drop_bit (128 - p) a = drop_bit (128 - p) nw))) \<and>
     (\<forall>n v p ip. v4_net net v p = Some n \<longrightarrow> p \<le> 32 \<and>
        (addr_contains net n ip \<longleftrightarrow> (\<exists>a. ip = V4 a \<and> drop_bit (32 - p) a = drop_bit (32 - p) v)))"

text \<open>The networks of single addresses, for witnesses: a network is its only address.\<close>

definition host_nets :: "IpAddr ipnet" where
  "host_nets =
     \<lparr>trunc = (\<lambda>n. n), net_contains = (\<lambda>a b. a = b), addr_contains = (\<lambda>n ip. n = ip),
      v6_parts = (\<lambda>n. case n of V4 _ \<Rightarrow> None | V6 a \<Rightarrow> Some (a, 128)),
      v4_net = (\<lambda>v p. if p = 32 then Some (V4 v) else None)\<rparr>"

lemma host_nets_laws: "ipnet_laws host_nets"
  by (auto simp: ipnet_laws_def host_nets_def split: IpAddr.splits)

datatype 'net AllowList = AllowList "'net list"

text \<open>An overlapping pair leaves the narrower network.\<close>

definition narrower :: "('net, 'x) ipnet_scheme \<Rightarrow> 'net \<Rightarrow> 'net \<Rightarrow> 'net option" where
  "narrower net a b =
     (if net_contains net a b then Some b else if net_contains net b a then Some a else None)"

definition effective :: "('net :: linorder, 'x) ipnet_scheme \<Rightarrow> 'net list \<Rightarrow> 'net list \<Rightarrow> 'net AllowList option" where
  "effective net client ceiling =
     (let client = map (trunc net) client; ceiling = map (trunc net) ceiling
      in if client = [] then Some (AllowList ceiling)
         else if ceiling = [] then Some (AllowList client)
         else let both = remdups_adj (sort (concat (map (\<lambda>a. List.map_filter (narrower net a) ceiling) client)))
              in if both = [] then None else Some (AllowList both))"

fun allow_permits :: "('net, 'x) ipnet_scheme \<Rightarrow> 'net AllowList \<Rightarrow> IpAddr \<Rightarrow> bool" where
  "allow_permits net (AllowList nets) ip =
     (let ip = to_canonical ip in nets = [] \<or> list_ex (\<lambda>n. addr_contains net n ip) nets)"

text \<open>What one list on its own admits: everyone when it is empty.\<close>

definition admits :: "('net, 'x) ipnet_scheme \<Rightarrow> 'net list \<Rightarrow> IpAddr \<Rightarrow> bool" where
  "admits net nets ip \<longleftrightarrow> nets = [] \<or> (\<exists>n \<in> set nets. addr_contains net n (to_canonical ip))"

lemma trunc_addr: "ipnet_laws net \<Longrightarrow> addr_contains net (trunc net n) ip = addr_contains net n ip"
  by (simp add: ipnet_laws_def)

lemma narrower_addr:
  assumes "ipnet_laws net"
  shows "(\<exists>n. narrower net a b = Some n \<and> addr_contains net n ip) \<longleftrightarrow>
    addr_contains net a ip \<and> addr_contains net b ip"
proof -
  have "net_contains net a b \<Longrightarrow> addr_contains net b ip \<Longrightarrow> addr_contains net a ip"
    "net_contains net b a \<Longrightarrow> addr_contains net a ip \<Longrightarrow> addr_contains net b ip"
    "addr_contains net a ip \<Longrightarrow> addr_contains net b ip \<Longrightarrow> net_contains net a b \<or> net_contains net b a"
    using assms unfolding ipnet_laws_def by meson+
  then show ?thesis by (auto simp: narrower_def)
qed

lemma overlaps_set:
  "set (remdups_adj (sort (concat (map (\<lambda>a. List.map_filter (narrower net a) bs) as)))) =
     {n. \<exists>a \<in> set as. \<exists>b \<in> set bs. narrower net a b = Some n}"
  by (auto simp: map_filter_def image_iff) (blast, metis option.sel)

text \<open>
  C32: the list a service is bound with admits a visitor exactly when the client's list and the
  server's ceiling both do, each admitting everyone when it is empty and comparing the visitor's
  canonical address; and when both are set and admit nobody in common there is no list at all,
  so two limits never combine into the empty list that admits everyone.
\<close>

theorem effective_exact:
  assumes laws: "ipnet_laws net"
  shows "case effective net client ceiling of
      Some l \<Rightarrow> allow_permits net l ip \<longleftrightarrow> admits net client ip \<and> admits net ceiling ip
    | None \<Rightarrow> client \<noteq> [] \<and> ceiling \<noteq> [] \<and> \<not> (admits net client ip \<and> admits net ceiling ip)"
proof -
  define both where "both = remdups_adj (sort (concat (map (\<lambda>a. List.map_filter (narrower net a)
    (map (trunc net) ceiling)) (map (trunc net) client))))"
  have "(\<exists>n \<in> set both. addr_contains net n (to_canonical ip)) \<longleftrightarrow>
      (\<exists>a \<in> set client. addr_contains net a (to_canonical ip)) \<and> (\<exists>b \<in> set ceiling. addr_contains net b (to_canonical ip))"
    unfolding both_def overlaps_set using narrower_addr [OF laws] trunc_addr [OF laws] by (simp add: Bex_def) blast
  moreover have "client \<noteq> [] \<Longrightarrow> ceiling \<noteq> [] \<Longrightarrow>
      effective net client ceiling = (if both = [] then None else Some (AllowList both))"
    by (simp add: effective_def Let_def both_def)
  moreover have ?thesis if "client = [] \<or> ceiling = []"
    using that by (auto simp: effective_def Let_def admits_def list_ex_iff trunc_addr [OF laws])
  ultimately show ?thesis
    by (cases "client = [] \<or> ceiling = []"; cases "both = []") (simp_all add: admits_def list_ex_iff)
qed

theorem effective_exact_witness:
  "case effective host_nets [V4 1, V4 2] [V4 2, V4 3] of
     Some l \<Rightarrow> allow_permits host_nets l (V6 (to_ipv6_mapped 2)) | None \<Rightarrow> False"
  using effective_exact [OF host_nets_laws, of "[V4 1, V4 2]" "[V4 2, V4 3]" "V6 (to_ipv6_mapped 2)"]
  by (simp add: admits_def host_nets_def split: option.splits)

end
