(* ===== verification/Units.thy ===== *)
theory Units
  imports Rust_Text
begin

text \<open>
  \<open>hawse-core/src/config/units.rs\<close>: byte sizes as configuration files write them. Durations are
  printed and parsed by the \<open>humantime\<close> crate and are taken as parsed.
\<close>

text \<open>\<open>char::is_whitespace\<close>, \<open>str::trim\<close>.\<close>

definition is_whitespace :: "nat \<Rightarrow> bool" where
  "is_whitespace c \<longleftrightarrow> (9 \<le> c \<and> c \<le> 13) \<or> c \<in> {32, 133, 160, 5760, 8232, 8233, 8239, 8287, 12288} \<or>
     (8192 \<le> c \<and> c \<le> 8202)"

definition trim :: "string \<Rightarrow> string" where
  "trim s = of_chars (rev (dropWhile is_whitespace (rev (dropWhile is_whitespace (chars s)))))"

datatype ByteSize = ByteSize u64

datatype ParseSizeError = ParseSizeError string

definition UNITS :: "(string \<times> nat) list" where
  "UNITS = [(''GiB'', 1073741824), (''MiB'', 1048576), (''KiB'', 1024), (''B'', 1)]"

definition size_from_str :: "string \<Rightarrow> ParseSizeError + ByteSize" where
  "size_from_str s =
     (let text = trim s; digits = takeWhile is_digit text; unit' = trim (dropWhile is_digit text)
      in case parse_uint 64 digits of
           None \<Rightarrow> Inl (ParseSizeError s)
         | Some n \<Rightarrow>
             (case (if unit' = [] then Some 1 else map_option snd (find (\<lambda>(name, _). name = unit') UNITS)) of
                None \<Rightarrow> Inl (ParseSizeError s)
              | Some m \<Rightarrow> if n * m < 2 ^ 64 then Inr (ByteSize (word_of_nat (n * m))) else Inl (ParseSizeError s)))"

fun size_to_string :: "ByteSize \<Rightarrow> string" where
  "size_to_string (ByteSize n) =
     (case find (\<lambda>(_, m). unat n mod m = 0) UNITS of
        Some (name, m) \<Rightarrow> show_nat (unat n div m) @ name
      | None \<Rightarrow> show_nat (unat n) @ ''B'')"

datatype RawSize = RawSizeNumber u64 | RawSizeText string

definition size_serialize :: "ByteSize \<Rightarrow> RawSize" where
  "size_serialize b = RawSizeText (size_to_string b)"

fun size_deserialize :: "RawSize \<Rightarrow> ParseSizeError + ByteSize" where
  "size_deserialize (RawSizeNumber n) = Inr (ByteSize n)"
| "size_deserialize (RawSizeText t) = size_from_str t"

lemma trim_plain:
  assumes "list_all (\<lambda>a. of_char a < (128 :: nat) \<and> \<not> is_whitespace (of_char a)) s"
  shows "trim s = s"
proof -
  have keep: "dropWhile is_whitespace xs = xs" if "list_all (\<lambda>x. \<not> is_whitespace x) xs" for xs
    using that by (cases xs) simp_all
  have plain: "list_all (\<lambda>x. \<not> is_whitespace x) (map of_char s)"
    "list_all (\<lambda>x. \<not> is_whitespace x) (rev (map of_char s))"
    using assms by (auto simp: list_all_iff)
  have "of_chars (map of_char t) = t" if "list_all (\<lambda>a. of_char a < (128 :: nat)) t" for t
    using that by (induction t) (simp_all add: of_chars_def utf8_def)
  moreover have "list_all (\<lambda>a. of_char a < (128 :: nat)) s" using assms by (auto simp: list_all_iff)
  ultimately show ?thesis
    by (simp add: trim_def chars_ascii keep plain del: rev_map)
qed

lemma digit_plain: "is_digit c \<Longrightarrow> of_char c < (128 :: nat) \<and> \<not> is_whitespace (of_char c)"
  by (simp add: is_digit_def is_whitespace_def)

lemma unit_text:
  assumes "n < 2 ^ 64" "(name, m) \<in> set UNITS" "n * m < 2 ^ 64"
  shows "size_from_str (show_nat n @ name) = Inr (ByteSize (word_of_nat (n * m)))"
proof -
  have name: "name = ''GiB'' \<and> m = 1073741824 \<or> name = ''MiB'' \<and> m = 1048576 \<or>
      name = ''KiB'' \<and> m = 1024 \<or> name = ''B'' \<and> m = 1"
    using assms(2) by (auto simp: UNITS_def)
  then have plain: "list_all (\<lambda>a. of_char a < (128 :: nat) \<and> \<not> is_whitespace (of_char a)) name"
    and letter: "\<not> is_digit (hd name)" "name \<noteq> []"
    by (auto simp: is_whitespace_def is_digit_def)
  have "list_all (\<lambda>a. of_char a < (128 :: nat) \<and> \<not> is_whitespace (of_char a)) (show_nat n)"
    using show_nat_digits [of n] digit_plain by (auto simp: list_all_iff)
  with plain have t: "trim (show_nat n @ name) = show_nat n @ name" "trim name = name"
    by (simp_all add: trim_plain)
  have ends: "takeWhile is_digit name = []" "dropWhile is_digit name = name"
    using letter by (cases name; simp)+
  have "takeWhile is_digit (show_nat n @ name) = show_nat n" "dropWhile is_digit (show_nat n @ name) = name"
    using show_nat_chars by (simp_all add: takeWhile_append2 dropWhile_append2 ends)
  moreover have "map_option snd (find (\<lambda>(u, _). u = name) UNITS) = Some m"
    using name by (auto simp: UNITS_def)
  ultimately show ?thesis
    using assms t letter(2) parse_show_nat [of n 64] by (auto simp: size_from_str_def Let_def)
qed

lemma size_from_to: "size_from_str (size_to_string b) = Inr b"
proof (cases b)
  case (ByteSize w)
  let ?n = "unat w"
  have n: "?n < 2 ^ 64" using unat_bounds(4) [of w] by simp
  obtain name m where u: "find (\<lambda>(_, m). ?n mod m = 0) UNITS = Some (name, m)"
    by (cases "find (\<lambda>(_, m). ?n mod m = 0) UNITS") (auto simp: UNITS_def split: if_splits)
  have m: "(name, m) \<in> set UNITS" "?n mod m = 0" using find_SomeD [OF u] by auto
  then have "?n div m * m = ?n" by auto
  moreover have "?n div m < 2 ^ 64" using n by (meson div_le_dividend le_less_trans)
  ultimately have "size_from_str (show_nat (?n div m) @ name) = Inr (ByteSize w)"
    using unit_text [OF _ m(1), of "?n div m"] n by simp
  with u ByteSize show ?thesis by simp
qed

interpretation size_text: text_form size_to_string size_from_str "\<lambda>_. True"
  by unfold_locales (simp_all add: size_from_to)

text \<open>
  A byte size printed for a configuration parses back to itself, every 64-bit value, in the
  largest unit that divides it; serialisation brings it back too;
  and different sizes print differently.
\<close>

theorem size_text_roundtrip:
  "size_from_str (size_to_string b) = Inr b \<and> size_deserialize (size_serialize b) = Inr b \<and>
   (size_to_string b = size_to_string c \<longleftrightarrow> b = c)"
  using size_text.show_inj [of b c] by (auto simp: size_serialize_def size_from_to)

end
