(* ===== verification/Config.thy ===== *)
theory Config
  imports Proto_Name Proto_Port Proto_Key Allow_List Units
begin

text \<open>
  \<open>hawse-core/src/config.rs\<close>: the two configurations, their defaults and their validation.
  \<open>serde\<close> and \<open>toml\<close> build the values; what is modelled starts from a built value. A \<open>BTreeMap\<close>
  is an association list in the order of its keys, a path a string. Each early return of a
  validation is a check in a list, and \<open>first_error\<close> is the first that fails.
\<close>

definition DEFAULT_PORT :: u16 where "DEFAULT_PORT = 4433"

record Limits =
  auth_failures_per_minute :: u32
  streams_per_client :: u32
  udp_sessions_per_service :: u32

definition default_limits :: Limits where
  "default_limits =
     \<lparr>auth_failures_per_minute = 30, streams_per_client = 4096, udp_sessions_per_service = 4096\<rparr>"

text \<open>\<open>Tuning::CLIENT.max_streams\<close> of \<open>transport/quic.rs\<close>.\<close>

definition CLIENT_max_streams :: u32 where "CLIENT_max_streams = 4096"

definition saturating_add :: "'a :: len word \<Rightarrow> 'a word \<Rightarrow> 'a word" where
  "saturating_add a b = (if unat a + unat b < 2 ^ LENGTH('a) then a + b else - 1)"

definition streams_in_effect :: "Limits \<Rightarrow> u32" where
  "streams_in_effect l = min (streams_per_client l) (saturating_add CLIENT_max_streams 1)"

datatype Congestion = Cubic | Bbr

record ServerTransport =
  idle_timeout :: duration
  stream_window :: ByteSize
  connection_window :: ByteSize
  congestion :: Congestion
  buffer :: ByteSize
  tcp_fallback :: bool

definition default_server_transport :: ServerTransport where
  "default_server_transport =
     \<lparr>idle_timeout = secs 30, stream_window = ByteSize 8388608, connection_window = ByteSize 67108864,
      congestion = Cubic, buffer = ByteSize 16384, tcp_fallback = True\<rparr>"

record 'net ClientPolicy =
  cp_key :: PublicKey
  cp_ports :: "PortRange list"
  cp_bind :: "IpAddr option"
  cp_allow :: "'net list"

record 'net ServerConfig =
  sc_listen :: SocketAddr
  sc_bind :: IpAddr
  sc_key :: "string option"
  dynamic_ports :: PortSpan
  quic_retry :: bool
  limits :: Limits
  sc_transport :: ServerTransport
  clients :: "(string \<times> 'net ClientPolicy) list"

definition default_server_config :: "'net ServerConfig" where
  "default_server_config =
     \<lparr>sc_listen = SocketV6 0 DEFAULT_PORT 0 0, sc_bind = V6 0, sc_key = None,
      dynamic_ports = \<lparr>s_first = 40000, s_last = 41000\<rparr>, quic_retry = False,
      limits = default_limits, sc_transport = default_server_transport, clients = []\<rparr>"

record 'net Expose =
  x_local :: string
  x_port :: PortRequest
  x_allow :: "'net list"
  x_proxy_protocol :: bool

datatype Prefer = Auto | Quic | PreferTcp

record ClientTransport =
  ct_prefer :: Prefer
  ct_congestion :: Congestion
  ct_idle_timeout :: duration
  ct_stream_window :: ByteSize
  ct_connection_window :: ByteSize
  ct_buffer :: ByteSize

definition default_client_transport :: ClientTransport where
  "default_client_transport =
     \<lparr>ct_prefer = Auto, ct_congestion = Bbr, ct_idle_timeout = secs 30, ct_stream_window = ByteSize 2097152,
      ct_connection_window = ByteSize 16777216, ct_buffer = ByteSize 16384\<rparr>"

record 'net ClientConfig =
  cc_server :: string
  cc_server_key :: PublicKey
  cc_key :: "string option"
  cc_name :: "string option"
  expose :: "(string \<times> 'net Expose) list"
  cc_transport :: ClientTransport

definition inert :: "ClientTransport \<Rightarrow> string list" where
  "inert t =
     (if ct_prefer t \<noteq> PreferTcp then []
      else (if ct_stream_window t \<noteq> ct_stream_window default_client_transport then [''stream_window''] else []) @
           (if ct_congestion t \<noteq> ct_congestion default_client_transport then [''congestion''] else []))"

datatype 'net ConfigError =
    ClientName string NameError
  | DuplicateKey string string
  | ServiceName string NameError
  | LocalAddr string string
  | ClientAllow string 'net 'net
  | ExposeAllow string 'net 'net
  | ServerAddr string
  | BadClientName NameError
  | ListenPort
  | ListenInPool u16
  | ListenGranted string u16
  | GrantInPool string PortRange
  | Buffer u64
  | StreamWindow u64
  | ConnectionWindow
  | Windows u64 u64
  | IdleTimeout duration
  | StreamsPerClient
  | UdpSessions

fun first_error :: "('e + unit) list \<Rightarrow> 'e + unit" where
  "first_error [] = Inr ()"
| "first_error (c # cs) = (case c of Inl e \<Rightarrow> Inl e | Inr _ \<Rightarrow> first_error cs)"

definition refuse :: "bool \<Rightarrow> 'e \<Rightarrow> 'e + unit" where
  "refuse bad e = (if bad then Inl e else Inr ())"

section \<open>Networks in allow lists\<close>

definition ipv4_form :: "('net, 'x) ipnet_scheme \<Rightarrow> 'net \<Rightarrow> 'net option" where
  "ipv4_form net n =
     (case v6_parts net n of
        None \<Rightarrow> None
      | Some (network, prefix) \<Rightarrow>
          (case to_ipv4_mapped network of
             None \<Rightarrow> None
           | Some v4 \<Rightarrow> if prefix < 96 then None else v4_net net v4 (prefix - 96)))"

fun mapped_entry :: "('net, 'x) ipnet_scheme \<Rightarrow> 'net list \<Rightarrow> ('net \<times> 'net) option" where
  "mapped_entry net [] = None"
| "mapped_entry net (n # ns) =
     (case ipv4_form net n of Some v4 \<Rightarrow> Some (n, v4) | None \<Rightarrow> mapped_entry net ns)"

section \<open>Validation\<close>

fun validate_transport :: "ByteSize \<Rightarrow> ByteSize \<Rightarrow> ByteSize \<Rightarrow> duration \<Rightarrow> 'net ConfigError + unit" where
  "validate_transport (ByteSize buf) (ByteSize stream) (ByteSize conn) idle =
     first_error
       [refuse (\<not> (1024 \<le> buf \<and> buf \<le> 1073741824)) (Buffer buf),
        refuse (idle < secs 1) (IdleTimeout idle),
        refuse (stream = 0 \<or> \<not> unat stream < 2 ^ 32) (StreamWindow stream),
        refuse (conn = 0) ConnectionWindow,
        refuse (conn < stream) (Windows stream conn)]"

definition needs_restart :: "'net ServerConfig \<Rightarrow> 'net ServerConfig \<Rightarrow> bool" where
  "needs_restart self new =
     (let fixed = (\<lambda>cfg. cfg\<lparr>clients := [], sc_bind := sc_bind self\<rparr>) in fixed self \<noteq> fixed new)"

definition check_grants :: "u16 \<Rightarrow> PortSpan \<Rightarrow> string \<times> 'net ClientPolicy \<Rightarrow> 'net ConfigError + unit" where
  "check_grants listen pool = (\<lambda>(name, policy).
     if list_ex (\<lambda>r. r_first r \<le> listen \<and> listen \<le> r_last r) (cp_ports policy)
     then Inl (ListenGranted name listen)
     else case find (\<lambda>r. r_first r \<le> s_last pool \<and> s_first pool \<le> r_last r) (cp_ports policy) of
            Some r \<Rightarrow> Inl (GrantInPool name r)
          | None \<Rightarrow> Inr ())"

fun check_clients :: "('net, 'x) ipnet_scheme \<Rightarrow> (PublicKey, string) hmap \<Rightarrow> (string \<times> 'net ClientPolicy) list \<Rightarrow>
    'net ConfigError + unit" where
  "check_clients net seen [] = Inr ()"
| "check_clients net seen ((client, policy) # rest) =
     (case validate client of
        Inl e \<Rightarrow> Inl (ClientName client e)
      | Inr _ \<Rightarrow>
          (case hget seen (cp_key policy) of
             Some other \<Rightarrow> Inl (DuplicateKey other client)
           | None \<Rightarrow>
               (case mapped_entry net (cp_allow policy) of
                  Some (n, v4) \<Rightarrow> Inl (ClientAllow client n v4)
                | None \<Rightarrow> check_clients net (hput (cp_key policy) client seen) rest)))"

definition server_validate :: "('net, 'x) ipnet_scheme \<Rightarrow> 'net ServerConfig \<Rightarrow> 'net ConfigError + unit" where
  "server_validate net cfg =
     (let listen = sa_port (sc_listen cfg); t = sc_transport cfg
      in first_error
           ([refuse (listen = 0) ListenPort,
             refuse (contains_number (dynamic_ports cfg) listen) (ListenInPool listen)] @
            map (check_grants listen (dynamic_ports cfg)) (clients cfg) @
            [validate_transport (buffer t) (stream_window t) (connection_window t) (idle_timeout t),
             refuse (streams_per_client (limits cfg) < 2) StreamsPerClient,
             refuse (udp_sessions_per_service (limits cfg) = 0) UdpSessions,
             check_clients net [] (clients cfg)]))"

section \<open>The client's side\<close>

definition needs_reconnect :: "'net ClientConfig \<Rightarrow> 'net ClientConfig \<Rightarrow> bool" where
  "needs_reconnect self new = (self\<lparr>expose := []\<rparr> \<noteq> new\<lparr>expose := []\<rparr>)"

definition parse_port :: "string \<Rightarrow> u16 option" where
  "parse_port text =
     (case parse_uint 16 text of None \<Rightarrow> None | Some n \<Rightarrow> if n \<noteq> 0 then Some (word_of_nat n) else None)"

definition split_host_port :: "string \<Rightarrow> (string \<times> u16 option) option" where
  "split_host_port text =
     (if text = [] then None
      else case strip_prefix ''['' text of
        Some rest \<Rightarrow>
          (case split_once CHR '']'' rest of
             None \<Rightarrow> None
           | Some (host, tail) \<Rightarrow>
               if host = [] then None
               else if tail = [] then Some (host, None)
               else (case strip_prefix '':'' tail of
                       None \<Rightarrow> None
                     | Some p \<Rightarrow> (case parse_port p of None \<Rightarrow> None | Some n \<Rightarrow> Some (host, Some n))))
      | None \<Rightarrow>
          if 1 < length (filter (\<lambda>c. c = CHR '':'') text) then Some (text, None)
          else (case split_once CHR '':'' text of
                  None \<Rightarrow> Some (text, None)
                | Some (host, p) \<Rightarrow>
                    if host = [] then None
                    else (case parse_port p of None \<Rightarrow> None | Some n \<Rightarrow> Some (host, Some n))))"

definition check_expose :: "('net, 'x) ipnet_scheme \<Rightarrow> string \<times> 'net Expose \<Rightarrow> 'net ConfigError + unit" where
  "check_expose net = (\<lambda>(service, x).
     (case validate service of
        Inl e \<Rightarrow> Inl (ServiceName service e)
      | Inr _ \<Rightarrow>
          (case split_host_port (x_local x) of
             Some (_, Some _) \<Rightarrow>
               (case mapped_entry net (x_allow x) of
                  Some (n, v4) \<Rightarrow> Inl (ExposeAllow service n v4)
                | None \<Rightarrow> Inr ())
           | _ \<Rightarrow> Inl (LocalAddr service (x_local x)))))"

definition client_validate :: "('net, 'x) ipnet_scheme \<Rightarrow> 'net ClientConfig \<Rightarrow> 'net ConfigError + unit" where
  "client_validate net cfg =
     (let t = cc_transport cfg
      in first_error
           ([refuse (split_host_port (cc_server cfg) = None) (ServerAddr (cc_server cfg)),
             (case cc_name cfg of
                None \<Rightarrow> Inr ()
              | Some name \<Rightarrow> (case validate name of Inl e \<Rightarrow> Inl (BadClientName e) | Inr _ \<Rightarrow> Inr ())),
             validate_transport (ct_buffer t) (ct_stream_window t) (ct_connection_window t) (ct_idle_timeout t)] @
            map (check_expose net) (expose cfg)))"

section \<open>What a valid configuration is\<close>

lemma first_error_ok: "first_error cs = Inr () \<longleftrightarrow> (\<forall>c \<in> set cs. is_ok c)"
  by (induction cs) (auto split: sum.splits)

declare first_error.simps [simp del]

lemma refuse_ok [simp]: "is_ok (refuse bad e) \<longleftrightarrow> \<not> bad"
  by (simp add: refuse_def)

lemma first_error_is_ok: "is_ok (first_error cs) \<longleftrightarrow> (\<forall>c \<in> set cs. is_ok c)"
  unfolding first_error_ok [symmetric] by (auto simp: is_ok_iff)

definition transport_ok :: "ByteSize \<Rightarrow> ByteSize \<Rightarrow> ByteSize \<Rightarrow> duration \<Rightarrow> bool" where
  "transport_ok buf stream conn idle \<longleftrightarrow>
     (case (buf, stream, conn) of (ByteSize b, ByteSize s, ByteSize c) \<Rightarrow>
        1024 \<le> unat b \<and> unat b \<le> 2 ^ 30 \<and> secs 1 \<le> idle \<and> 0 < unat s \<and> unat s < 2 ^ 32 \<and> unat s \<le> unat c)"

lemma validate_transport_ok:
  "is_ok (validate_transport b s c idle) \<longleftrightarrow> transport_ok b s c idle"
proof -
  obtain b' s' c' where "b = ByteSize b'" "s = ByteSize s'" "c = ByteSize c'"
    by (cases b; cases s; cases c) blast
  moreover have "c' = 0 \<longleftrightarrow> unat c' = 0" "s' = 0 \<longleftrightarrow> unat s' = 0" by (simp_all add: unat_eq_0)
  ultimately show ?thesis
    by (auto simp: first_error_is_ok transport_ok_def word_le_nat_alt word_less_nat_alt)
qed

definition grants_clear :: "u16 \<Rightarrow> PortSpan \<Rightarrow> 'net ClientPolicy \<Rightarrow> bool" where
  "grants_clear listen pool p \<longleftrightarrow>
     (\<forall>r \<in> set (cp_ports p). \<not> (r_first r \<le> listen \<and> listen \<le> r_last r) \<and>
        \<not> (r_first r \<le> s_last pool \<and> s_first pool \<le> r_last r))"

lemma check_grants_ok: "is_ok (check_grants listen pool (name, p)) \<longleftrightarrow> grants_clear listen pool p"
  by (auto simp: check_grants_def grants_clear_def list_ex_iff find_None_iff is_ok_def
      split: option.splits dest: find_SomeD)

lemma check_clients_ok:
  "is_ok (check_clients net seen cs) \<longleftrightarrow>
     (\<forall>(name, p) \<in> set cs. validate name = Inr () \<and> mapped_entry net (cp_allow p) = None \<and> cp_key p \<notin> hkeys seen) \<and>
     distinct (map (\<lambda>c. cp_key (snd c)) cs)"
proof (induction net seen cs rule: check_clients.induct)
  case (2 net seen client policy rest)
  show ?case
  proof (cases "validate client = Inr () \<and> cp_key policy \<notin> hkeys seen \<and> mapped_entry net (cp_allow policy) = None")
    case True
    then have h: "hget seen (cp_key policy) = None" by (simp add: hget_None_iff)
    have "is_ok (check_clients net (hput (cp_key policy) client seen) rest) \<longleftrightarrow>
        (\<forall>(name, p) \<in> set rest. validate name = Inr () \<and> mapped_entry net (cp_allow p) = None \<and>
           cp_key p \<notin> insert (cp_key policy) (hkeys seen)) \<and> distinct (map (\<lambda>c. cp_key (snd c)) rest)"
      using 2 True h by (simp add: hkeys_hput)
    moreover have "is_ok (check_clients net seen ((client, policy) # rest)) \<longleftrightarrow>
        is_ok (check_clients net (hput (cp_key policy) client seen) rest)"
      using True h by simp
    ultimately show ?thesis using True by (simp only:) (auto simp: image_iff)
  next
    case False
    then have "\<not> is_ok (check_clients net seen ((client, policy) # rest))"
      by (auto simp: is_ok_def split: sum.splits option.splits dest: hget_None_iff [THEN iffD1])
    with False show ?thesis by auto
  qed
qed simp

lemma server_validateD:
  assumes "server_validate net cfg = Inr ()"
  shows "\<not> contains_number (dynamic_ports cfg) (sa_port (sc_listen cfg))"
    "(name, p) \<in> set (clients cfg) \<Longrightarrow> grants_clear (sa_port (sc_listen cfg)) (dynamic_ports cfg) p"
    "distinct (map (\<lambda>c. cp_key (snd c)) (clients cfg))"
    "udp_sessions_per_service (limits cfg) \<noteq> 0" "\<not> streams_per_client (limits cfg) < 2"
  using assms check_grants_ok check_clients_ok [of net "[]" "clients cfg"]
  unfolding server_validate_def Let_def first_error_ok by (fastforce simp: ball_Un)+

text \<open>
  C33: the server's validation accepts exactly the configurations in which the listen port is set
  and outside the dynamic pool, no client is granted the listen port or a port of the pool, the
  transport's sizes are in range, every limit leaves room for a visitor, and every client has a
  valid name, a key of its own and no network that could never match.
\<close>

theorem server_validate_iff:
  "server_validate net cfg = Inr () \<longleftrightarrow>
     sa_port (sc_listen cfg) \<noteq> 0 \<and> \<not> contains_number (dynamic_ports cfg) (sa_port (sc_listen cfg)) \<and>
     (\<forall>(name, p) \<in> set (clients cfg). grants_clear (sa_port (sc_listen cfg)) (dynamic_ports cfg) p \<and>
        validate name = Inr () \<and> mapped_entry net (cp_allow p) = None) \<and>
     distinct (map (\<lambda>c. cp_key (snd c)) (clients cfg)) \<and>
     transport_ok (buffer (sc_transport cfg)) (stream_window (sc_transport cfg))
       (connection_window (sc_transport cfg)) (idle_timeout (sc_transport cfg)) \<and>
     2 \<le> unat (streams_per_client (limits cfg)) \<and> udp_sessions_per_service (limits cfg) \<noteq> 0"
proof -
  have two: "\<not> streams_per_client (limits cfg) < 2 \<longleftrightarrow> 2 \<le> unat (streams_per_client (limits cfg))"
    by (simp add: word_less_nat_alt not_less)
  show ?thesis
    unfolding server_validate_def Let_def first_error_ok
    using check_grants_ok check_clients_ok [of net "[]" "clients cfg"] validate_transport_ok two
    by (fastforce simp: ball_Un)
qed

theorem server_validate_iff_witness:
  "server_validate host_nets (default_server_config\<lparr>clients := [(''home'', \<lparr>cp_key = PublicKey [1],
     cp_ports = [\<lparr>r_first = 443, r_last = 444, r_kind = Tcp\<rparr>], cp_bind = None, cp_allow = [V4 7]\<rparr>)]\<rparr>) = Inr ()"
proof -
  have "validate ''home'' = Inr ()" by code_simp
  then show ?thesis
    by (subst server_validate_iff)
       (simp add: default_server_config_def default_server_transport_def default_limits_def transport_ok_def
          grants_clear_def contains_number_def DEFAULT_PORT_def ipv4_form_def host_nets_def)
qed

text \<open>
  The client's validation accepts exactly the configurations whose server is a host with or
  without a port, whose name, if any, is a name, whose transport sizes are in range, and whose
  services each have a valid name, a local host and port, and no network that could never match.
\<close>

theorem client_validate_iff:
  "client_validate net cfg = Inr () \<longleftrightarrow>
     split_host_port (cc_server cfg) \<noteq> None \<and> (\<forall>n. cc_name cfg = Some n \<longrightarrow> validate n = Inr ()) \<and>
     transport_ok (ct_buffer (cc_transport cfg)) (ct_stream_window (cc_transport cfg))
       (ct_connection_window (cc_transport cfg)) (ct_idle_timeout (cc_transport cfg)) \<and>
     (\<forall>(service, x) \<in> set (expose cfg). validate service = Inr () \<and>
        (\<exists>host port. split_host_port (x_local x) = Some (host, Some port)) \<and> mapped_entry net (x_allow x) = None)"
proof -
  have name: "is_ok (case cc_name cfg of None \<Rightarrow> Inr ()
      | Some name \<Rightarrow> (case validate name of Inl e \<Rightarrow> Inl (BadClientName e) | Inr _ \<Rightarrow> Inr ())) \<longleftrightarrow>
      (\<forall>n. cc_name cfg = Some n \<longrightarrow> validate n = Inr ())"
    by (auto simp: is_ok_def split: option.splits sum.splits)
  have "is_ok (check_expose net (service, x)) \<longleftrightarrow> validate service = Inr () \<and>
      (\<exists>host port. split_host_port (x_local x) = Some (host, Some port)) \<and> mapped_entry net (x_allow x) = None"
    for service and x :: "'a Expose"
    by (auto simp: check_expose_def is_ok_def split: sum.splits option.splits)
  with name show ?thesis
    unfolding client_validate_def Let_def first_error_ok using validate_transport_ok by (fastforce simp: ball_Un)
qed

theorem client_validate_iff_witness:
  "client_validate host_nets \<lparr>cc_server = ''example.org'', cc_server_key = PublicKey [1], cc_key = None,
     cc_name = Some ''home'', expose = [(''web'', \<lparr>x_local = ''localhost:80'', x_port = Any Tcp, x_allow = [],
       x_proxy_protocol = False\<rparr>)], cc_transport = default_client_transport\<rparr> = Inr ()"
proof -
  have "validate ''home'' = Inr ()" "validate ''web'' = Inr ()" by code_simp+
  moreover have "split_host_port ''example.org'' = Some (''example.org'', None)"
    "split_host_port ''localhost:80'' = Some (''localhost'', Some 80)"
    by (simp_all add: split_host_port_def parse_port_def parse_uint_def digits_value_def is_digit_def)
  ultimately show ?thesis
    by (subst client_validate_iff) (simp add: default_client_transport_def transport_ok_def)
qed

section \<open>Mapped networks\<close>

lemma drop_bit_nat: "drop_bit k (a :: 'a :: len word) = drop_bit k b \<longleftrightarrow> unat a div 2 ^ k = unat b div 2 ^ k"
  by (metis drop_bit_eq_div unat_drop_bit_eq word_unat_eq_iff)

lemma div_coarser: "(a :: nat) div 2 ^ k = b div 2 ^ k \<Longrightarrow> k \<le> 32 \<Longrightarrow> a div 4294967296 = b div 4294967296"
proof -
  assume e: "a div 2 ^ k = b div 2 ^ k" and k: "k \<le> 32"
  have "(4294967296 :: nat) = 2 ^ k * 2 ^ (32 - k)" using k by (simp flip: power_add)
  then show ?thesis using e by (simp only: div_mult2_eq)
qed

lemma mapped_nat: "unat (to_ipv6_mapped a) = 65535 * 4294967296 + unat a"
  using unat_bounds(3) [of a] by (simp only: to_ipv6_mapped_def unat_of_nat) simp

lemma mapped_prefix:
  assumes "k \<le> 32"
  shows "drop_bit k (to_ipv6_mapped a) = drop_bit k (to_ipv6_mapped b) \<longleftrightarrow> drop_bit k a = drop_bit k b"
proof -
  have "65535 * 4294967296 = (65535 * 2 ^ (32 - k)) * (2 :: nat) ^ k"
    using assms by (simp flip: power_add)
  then have "(65535 * 4294967296 + unat x) div 2 ^ k = 65535 * 2 ^ (32 - k) + unat x div 2 ^ k" for x :: u32
    by (metis add.commute div_mult_self1 power_not_zero zero_neq_numeral)
  then show ?thesis by (simp add: drop_bit_nat mapped_nat)
qed

text \<open>
  An allow entry that validation refuses as IPv4-mapped really matches nobody, because
  visitors are compared in canonical form; and the IPv4 network the error proposes instead admits
  exactly the addresses the entry names.
\<close>

theorem mapped_entry_never_matches:
  assumes laws: "ipnet_laws net" and found: "mapped_entry net allow = Some (n, m)"
  shows "n \<in> set allow \<and> \<not> addr_contains net n (to_canonical ip) \<and>
    (addr_contains net m (V4 a) \<longleftrightarrow> addr_contains net n (V6 (to_ipv6_mapped a)))"
proof -
  have "n \<in> set allow \<and> ipv4_form net n = Some m"
    using found by (induction net allow rule: mapped_entry.induct) (auto split: option.splits)
  then obtain nw p v4 where n: "n \<in> set allow" "v6_parts net n = Some (nw, p)" "to_ipv4_mapped nw = Some v4"
      "96 \<le> p" "v4_net net v4 (p - 96) = Some m"
    by (auto simp: ipv4_form_def split: option.splits if_splits)
  have six: "p \<le> 128" "addr_contains net n ip \<longleftrightarrow> (\<exists>a. ip = V6 a \<and> drop_bit (128 - p) a = drop_bit (128 - p) nw)" for ip
    using laws n(2) by (simp_all add: ipnet_laws_def)
  have four: "addr_contains net m ip \<longleftrightarrow> (\<exists>a. ip = V4 a \<and> drop_bit (32 - (p - 96)) a = drop_bit (32 - (p - 96)) v4)" for ip
    using laws n(5) by (simp add: ipnet_laws_def)
  have k: "32 - (p - 96) = 128 - p" "128 - p \<le> 32" using six(1) n(4) by simp_all
  have top: "unat nw div 4294967296 = 65535" "nw = to_ipv6_mapped v4"
  proof -
    show d: "unat nw div 4294967296 = 65535" using n(3) by (simp add: to_ipv4_mapped_def split: if_splits)
    have "unat v4 = unat nw mod 4294967296"
      using n(3) by (auto simp: to_ipv4_mapped_def unat_of_nat split: if_splits)
    then have "unat (to_ipv6_mapped v4) = unat nw"
      using d div_mult_mod_eq [of "unat nw" 4294967296] by (simp add: mapped_nat)
    then show "nw = to_ipv6_mapped v4" by (simp add: word_unat_eq_iff)
  qed
  have "\<not> addr_contains net n (to_canonical ip)"
  proof
    assume "addr_contains net n (to_canonical ip)"
    then obtain a where a: "to_canonical ip = V6 a" "drop_bit (128 - p) a = drop_bit (128 - p) nw"
      using six(2) by auto
    then have "unat a div 4294967296 = 65535"
      using div_coarser [of "unat a" "128 - p" "unat nw"] k(2) top(1) by (simp add: drop_bit_nat)
    then have "to_ipv4_mapped a \<noteq> None" by (simp add: to_ipv4_mapped_def)
    with canonical_not_mapped [OF a(1)] show False by simp
  qed
  moreover have "addr_contains net m (V4 a) \<longleftrightarrow> addr_contains net n (V6 (to_ipv6_mapped a))"
    using mapped_prefix [OF k(2), of a v4] by (auto simp: six(2) four k top(2))
  ultimately show ?thesis using n(1) by simp
qed

theorem mapped_entry_never_matches_witness:
  "mapped_entry host_nets [V4 1, V6 (to_ipv6_mapped 7)] = Some (V6 (to_ipv6_mapped 7), V4 7) \<and>
   \<not> addr_contains host_nets (V6 (to_ipv6_mapped 7)) (to_canonical (V6 (to_ipv6_mapped 7)))"
proof -
  have "mapped_entry host_nets [V4 1, V6 (to_ipv6_mapped 7)] = Some (V6 (to_ipv6_mapped 7), V4 7)"
    by (simp add: ipv4_form_def host_nets_def)
  with mapped_entry_never_matches [OF host_nets_laws this] show ?thesis by blast
qed

section \<open>Hosts and ports\<close>

lemma parse_port_show: "p \<noteq> 0 \<Longrightarrow> parse_port (show_nat (unat p)) = Some p"
  using unat_bounds(2) [of p] parse_show_nat [of "unat p" 16] by (simp add: parse_port_def unat_eq_0)

lemma parse_port_nonzero: "parse_port s = Some p \<Longrightarrow> p \<noteq> 0"
proof -
  assume "parse_port s = Some p"
  then obtain n where n: "parse_uint 16 s = Some n" "n \<noteq> 0" "p = word_of_nat n"
    by (auto simp: parse_port_def split: option.splits if_splits)
  then have "unat p = n" using parse_uint_less [OF n(1)] by (simp add: unat_of_nat)
  with n(2) show ?thesis by auto
qed

text \<open>
  A server or local address is read the way it is written. A host with its port, plain or in
  brackets, gives the two back; a host alone gives no port, and so does a bare IPv6 address, whose
  colons are not taken for a port's. No text gives an empty host or port 0.
\<close>

theorem split_host_port_reads:
  "(host \<noteq> [] \<and> CHR '':'' \<notin> set host \<and> hd host \<noteq> CHR ''['' \<longrightarrow>
      split_host_port host = Some (host, None) \<and>
      (p \<noteq> 0 \<longrightarrow> split_host_port (host @ '':'' @ show_nat (unat p)) = Some (host, Some p))) \<and>
   (host \<noteq> [] \<and> CHR '']'' \<notin> set host \<longrightarrow>
      split_host_port (''['' @ host @ '']'') = Some (host, None) \<and>
      (p \<noteq> 0 \<longrightarrow> split_host_port (''['' @ host @ '']:'' @ show_nat (unat p)) = Some (host, Some p))) \<and>
   (host = a @ '':'' @ b @ '':'' @ c \<and> hd host \<noteq> CHR ''['' \<longrightarrow> split_host_port host = Some (host, None)) \<and>
   (split_host_port text = Some (h, q) \<longrightarrow> h \<noteq> [] \<and> q \<noteq> Some 0)"
proof -
  have plain: "strip_prefix ''['' s = None" if "hd s \<noteq> CHR ''[''" for s
    using that by (cases s) auto
  have f: "filter (\<lambda>c. c = CHR '':'') s = []" if "CHR '':'' \<notin> set s" for s
    using that by (auto simp: filter_empty_conv)
  have "split_host_port host = Some (host, None) \<and>
      (p \<noteq> 0 \<longrightarrow> split_host_port (host @ '':'' @ show_nat (unat p)) = Some (host, Some p))"
    if "host \<noteq> []" "CHR '':'' \<notin> set host" "hd host \<noteq> CHR ''[''"
  proof -
    have "hd (host @ '':'' @ show_nat (unat p)) \<noteq> CHR ''[''" using that by simp
    moreover have "split_once CHR '':'' host = None" using that(2) by (simp add: split_once_None)
    ultimately show ?thesis using plain [of "host @ '':'' @ show_nat (unat p)"] plain [OF that(3)] that
      by (auto simp: split_host_port_def f split_once_append parse_port_show)
  qed
  moreover have "split_host_port (''['' @ host @ '']'') = Some (host, None) \<and>
      (p \<noteq> 0 \<longrightarrow> split_host_port (''['' @ host @ '']:'' @ show_nat (unat p)) = Some (host, Some p))"
    if "host \<noteq> []" "CHR '']'' \<notin> set host"
    using that by (auto simp: split_host_port_def split_once_append parse_port_show)
  moreover have "split_host_port host = Some (host, None)"
    if "host = a @ '':'' @ b @ '':'' @ c" "hd host \<noteq> CHR ''[''"
    using plain [OF that(2)] that(1) by (auto simp: split_host_port_def)
  moreover have "h \<noteq> [] \<and> q \<noteq> Some 0" if "split_host_port text = Some (h, q)"
    using that parse_port_nonzero
    by (auto simp: split_host_port_def split: if_splits option.splits)
  ultimately show ?thesis by blast
qed

theorem split_host_port_reads_witness:
  "split_host_port (''[::1]:80'') = Some (''::1'', Some 80)"
proof -
  have "show_nat 80 = ''80''" by code_simp
  moreover have "unat (80 :: u16) = 80" by simp
  ultimately show ?thesis using split_host_port_reads [of "''::1''" 80] by simp
qed

text \<open>
  A reload is taken up without a restart exactly when the new server configuration differs
  only in its clients and its default bind address, and without a reconnect exactly when the new
  client configuration differs only in what it exposes.
\<close>

theorem reload_exact:
  "(\<not> needs_restart s s' \<longleftrightarrow> s' = s\<lparr>clients := clients s', sc_bind := sc_bind s'\<rparr>) \<and>
   (\<not> needs_reconnect c c' \<longleftrightarrow> c' = c\<lparr>expose := expose c'\<rparr>)"
  by (cases s; cases s'; cases c; cases c') (auto simp: needs_restart_def needs_reconnect_def)

end
