(* ===== verification/Server_Policy.thy ===== *)
theory Server_Policy
  imports Config
begin

text \<open>
  \<open>hawse-core/src/server/policy.rs\<close>: what each client key is granted, as a reload or a start
  builds it from the configuration. \<open>collect\<close> into a map inserts in the order of the
  configuration, so the last of two clients with one key would win; validation excludes that.
\<close>

record 'net Grant =
  g_name :: string
  g_ports :: "PortRange list"
  g_bind :: IpAddr
  g_allow :: "'net list"

definition allows :: "('net, 'x) Grant_scheme \<Rightarrow> Port \<Rightarrow> bool" where
  "allows g port \<longleftrightarrow> list_ex (\<lambda>r. range_contains r port) (g_ports g)"

type_synonym 'net Policy = "(PublicKey, 'net Grant) hmap"

definition grant_of :: "IpAddr \<Rightarrow> string \<times> 'net ClientPolicy \<Rightarrow> 'net Grant" where
  "grant_of bind = (\<lambda>(name, p).
     \<lparr>g_name = name, g_ports = cp_ports p,
      g_bind = (case cp_bind p of Some b \<Rightarrow> b | None \<Rightarrow> bind), g_allow = cp_allow p\<rparr>)"

definition from_config :: "'net ServerConfig \<Rightarrow> 'net Policy" where
  "from_config cfg =
     fold (\<lambda>c. hput (cp_key (snd c)) (grant_of (sc_bind cfg) c)) (clients cfg) []"

definition lookup :: "'net Policy \<Rightarrow> PublicKey \<Rightarrow> 'net Grant option" where
  "lookup policy key = hget policy key"

definition policy_is_empty :: "'net Policy \<Rightarrow> bool" where
  "policy_is_empty policy \<longleftrightarrow> policy = []"

definition grants :: "'net Policy \<Rightarrow> (PublicKey \<times> 'net Grant) list" where
  "grants policy = policy"

lemma fold_hput_get:
  assumes "distinct (map (\<lambda>c. cp_key (snd c)) cs)" "\<And>c. c \<in> set cs \<Longrightarrow> cp_key (snd c) \<notin> hkeys m"
  shows "hget (fold (\<lambda>c. hput (cp_key (snd c)) (f c)) cs m) k = Some g \<longleftrightarrow>
    (\<exists>c \<in> set cs. cp_key (snd c) = k \<and> f c = g) \<or> hget m k = Some g"
  using assms
proof (induction cs arbitrary: m)
  case (Cons c cs)
  have "cp_key (snd c') \<notin> hkeys (hput (cp_key (snd c)) (f c) m)" if "c' \<in> set cs" for c'
    using that Cons.prems by (auto simp: hkeys_hput image_iff)
  then have "hget (fold (\<lambda>c. hput (cp_key (snd c)) (f c)) (c # cs) m) k = Some g \<longleftrightarrow>
      (\<exists>c \<in> set cs. cp_key (snd c) = k \<and> f c = g) \<or> hget (hput (cp_key (snd c)) (f c) m) k = Some g"
    using Cons.IH [of "hput (cp_key (snd c)) (f c) m"] Cons.prems(1) by simp
  moreover have "hget m (cp_key (snd c)) = None" using Cons.prems(2) by (simp add: hget_None_iff)
  ultimately show ?case by (auto simp: hget_hput)
qed simp

lemma from_config_lookup:
  assumes "distinct (map (\<lambda>c. cp_key (snd c)) (clients cfg))"
  shows "lookup (from_config cfg) key = Some g \<longleftrightarrow>
    (\<exists>c \<in> set (clients cfg). cp_key (snd c) = key \<and> g = grant_of (sc_bind cfg) c)"
  using fold_hput_get [OF assms, of "[]" "grant_of (sc_bind cfg)" key g]
  by (auto simp: lookup_def from_config_def)

text \<open>A granted port is a number of some range of the client's, of that range's kind.\<close>

lemma allows_range:
  "allows g port \<longleftrightarrow> (\<exists>r \<in> set (g_ports g). range_contains r port)"
  by (simp add: allows_def list_ex_iff)

text \<open>No grant of a validated configuration covers a port of the pool, or the listen port.\<close>

lemma granted_ports_disjoint:
  assumes "server_validate net cfg = Inr ()" "lookup (from_config cfg) key = Some g" "allows g port"
  shows "\<not> contains_number (dynamic_ports cfg) (number port) \<and> number port \<noteq> sa_port (sc_listen cfg)"
proof -
  note d = server_validateD [OF assms(1)]
  obtain name p where c: "(name, p) \<in> set (clients cfg)" "g = grant_of (sc_bind cfg) (name, p)"
    using assms(2) by (auto simp: from_config_lookup [OF d(3)])
  obtain r where r: "r \<in> set (cp_ports p)" "range_contains r port"
    using assms(3) c(2) by (auto simp: allows_range grant_of_def)
  with d(2) [OF c(1)] show ?thesis
    by (auto simp: grants_clear_def range_contains_def contains_number_def)
qed

text \<open>
  Under a validated configuration each key names at most one client, whose grant is exactly
  its table's, and no grant covers a port of the dynamic pool or the listen port: what a client
  asks for by number can never be a port the pool would hand to someone else.
\<close>

theorem granted_ports_clear:
  assumes "server_validate net cfg = Inr ()" "lookup (from_config cfg) key = Some g"
  shows "(\<exists>!c. c \<in> set (clients cfg) \<and> cp_key (snd c) = key) \<and>
    (\<exists>c \<in> set (clients cfg). cp_key (snd c) = key \<and> g = grant_of (sc_bind cfg) c) \<and>
    (\<forall>port. allows g port \<longrightarrow> \<not> contains_number (dynamic_ports cfg) (number port) \<and>
       number port \<noteq> sa_port (sc_listen cfg))"
proof -
  note d = server_validateD [OF assms(1)]
  obtain name p where c: "(name, p) \<in> set (clients cfg)" "cp_key p = key" "g = grant_of (sc_bind cfg) (name, p)"
    using assms(2) by (auto simp: from_config_lookup [OF d(3)])
  have inj: "inj_on (\<lambda>c. cp_key (snd c)) (set (clients cfg))" using d(3) by (simp only: distinct_map)
  have "\<exists>!c. c \<in> set (clients cfg) \<and> cp_key (snd c) = key"
  proof (rule ex1I)
    show "(name, p) \<in> set (clients cfg) \<and> cp_key (snd (name, p)) = key" using c(1,2) by simp
  next
    fix c' assume "c' \<in> set (clients cfg) \<and> cp_key (snd c') = key"
    then show "c' = (name, p)" using inj_onD [OF inj, of c' "(name, p)"] c(1,2) by simp
  qed
  moreover have "\<not> contains_number (dynamic_ports cfg) (number port) \<and> number port \<noteq> sa_port (sc_listen cfg)"
    if "allows g port" for port using granted_ports_disjoint [OF assms that] .
  moreover have "\<exists>c \<in> set (clients cfg). cp_key (snd c) = key \<and> g = grant_of (sc_bind cfg) c"
    using c by (intro bexI [of _ "(name, p)"]) simp_all
  ultimately show ?thesis by blast
qed

theorem granted_ports_clear_witness:
  "let cfg = default_server_config\<lparr>clients := [(''home'', \<lparr>cp_key = PublicKey [1],
       cp_ports = [\<lparr>r_first = 443, r_last = 444, r_kind = Tcp\<rparr>], cp_bind = None, cp_allow = []\<rparr>)]\<rparr>
   in server_validate host_nets cfg = Inr () \<and>
      (\<forall>port. allows (the (lookup (from_config cfg) (PublicKey [1]))) port \<longrightarrow> number port \<noteq> 4433)"
proof -
  let ?cfg = "default_server_config\<lparr>clients := [(''home'', \<lparr>cp_key = PublicKey [1],
       cp_ports = [\<lparr>r_first = 443, r_last = 444, r_kind = Tcp\<rparr>], cp_bind = None, cp_allow = []\<rparr>)]\<rparr> :: IpAddr ServerConfig"
  have name: "validate ''home'' = Inr ()" by code_simp
  have v: "server_validate host_nets ?cfg = Inr ()"
    by (simp add: server_validate_def default_server_config_def default_server_transport_def default_limits_def
        check_grants_def first_error.simps refuse_def contains_number_def DEFAULT_PORT_def name Let_def)
  have "lookup (from_config ?cfg) (PublicKey [1]) =
      Some (the (lookup (from_config ?cfg) (PublicKey [1])))"
    by (simp add: lookup_def from_config_def)
  from granted_ports_clear [OF v this] v show ?thesis
    by (simp add: default_server_config_def DEFAULT_PORT_def)
qed

end
