(* ===== verification/Proto_Msg.thy ===== *)
theory Proto_Msg
  imports Proto_Port Proto_Key Net_Addr
begin

text \<open>
  \<open>hawse-proto/src/msg.rs\<close>: the messages of the control stream, the headers of streams and
  datagrams, and the codes that reset a stream or close a connection. The network type of an
  allow list belongs to the \<open>ipnet\<close> crate and is the type parameter \<open>'net\<close>.
\<close>

definition PRINTABLE :: nat where "PRINTABLE = 128"

definition printable :: "string \<Rightarrow> string" where
  "printable text = of_chars (take PRINTABLE (filter (\<lambda>c. \<not> is_control c) (chars text)))"

datatype 'net ClientMessage =
    Hello "string option" string
  | Bind string Kind "u16 option" "'net list" bool
  | Unbind string
  | CPing u64
  | CPong u64

datatype DenyReason = UnknownKey

datatype BindFailure = NotGranted | InUse | BadPort | BadName | Unsupported

datatype ServerMessage =
    Welcome string string
  | Denied DenyReason PublicKey
  | Bound string u16 u16 IpAddr
  | BindFailed string BindFailure
  | Shutdown string
  | SPing u64
  | SPong u64

fun bind_failure_text :: "BindFailure \<Rightarrow> string" where
  "bind_failure_text NotGranted = ''port is not granted to this client''"
| "bind_failure_text InUse = ''port is already in use on the server''"
| "bind_failure_text BadPort = ''port cannot be bound''"
| "bind_failure_text BadName = ''service name is not valid''"
| "bind_failure_text Unsupported = ''this build does not support that bind yet''"

record StreamHeader =
  sh_service_id :: u16
  sh_visitor :: SocketAddr
  sh_listener :: SocketAddr

datatype StreamOpen = Visitor StreamHeader | Bulk u16

record DatagramHeader =
  dh_service_id :: u16
  dh_session :: u32

definition UNKNOWN_SERVICE :: u32 where "UNKNOWN_SERVICE = 16"
definition LOCAL_REFUSED :: u32 where "LOCAL_REFUSED = 17"
definition ABORTED :: u32 where "ABORTED = 18"
definition UNEXPECTED_STREAM :: u32 where "UNEXPECTED_STREAM = 19"

definition reset_name :: "u32 \<Rightarrow> string" where
  "reset_name code =
     (if code = UNKNOWN_SERVICE then ''unknown service''
      else if code = LOCAL_REFUSED then ''local refused''
      else if code = ABORTED then ''aborted''
      else if code = UNEXPECTED_STREAM then ''unexpected stream''
      else ''unknown code'')"

text \<open>The closing codes of \<open>msg::close\<close>, by the reason of \<open>transport/mod.rs\<close> that carries each.\<close>

datatype CloseReason = CShutdown | Superseded | CDenied | NoKey | NoHello | BadHello
  | DuplicateHello | Unresponsive | PeerLeft | ControlClosed

fun close_code :: "CloseReason \<Rightarrow> u32" where
  "close_code CShutdown = 0"
| "close_code Superseded = 1"
| "close_code CDenied = 2"
| "close_code NoKey = 3"
| "close_code NoHello = 4"
| "close_code BadHello = 5"
| "close_code DuplicateHello = 6"
| "close_code Unresponsive = 7"
| "close_code PeerLeft = 8"
| "close_code ControlClosed = 9"

fun close_text :: "CloseReason \<Rightarrow> string" where
  "close_text CShutdown = ''shutdown''"
| "close_text Superseded = ''superseded''"
| "close_text CDenied = ''denied''"
| "close_text NoKey = ''no key''"
| "close_text NoHello = ''no hello''"
| "close_text BadHello = ''expected hello''"
| "close_text DuplicateHello = ''duplicate hello''"
| "close_text Unresponsive = ''unresponsive''"
| "close_text PeerLeft = ''peer left''"
| "close_text ControlClosed = ''control stream closed''"

lemma close_code_inj: "close_code a = close_code b \<Longrightarrow> a = b"
  by (cases a; cases b) simp_all

text \<open>
  What a peer's free text becomes before a person sees it: no control character is left,
  at most 128 characters are, all of them from the text and in its order; and a second pass
  changes nothing.
\<close>

theorem printable_safe:
  assumes "list_all (\<lambda>c. c < 1114112) cs"
  shows "list_all (\<lambda>c. \<not> is_control c) (chars (printable (of_chars cs))) \<and>
    length (chars (printable (of_chars cs))) \<le> 128 \<and>
    chars (printable (of_chars cs)) = take 128 (filter (\<lambda>c. \<not> is_control c) cs) \<and>
    printable (printable (of_chars cs)) = printable (of_chars cs)"
proof -
  have small: "list_all (\<lambda>c. c < 2097152) cs" using assms by (auto simp: list_all_iff)
  let ?out = "take 128 (filter (\<lambda>c. \<not> is_control c) cs)"
  have p: "printable (of_chars cs) = of_chars ?out"
    by (simp add: printable_def PRINTABLE_def chars_of_chars [OF small])
  have "list_all (\<lambda>c. c < 2097152) ?out"
    using small by (auto simp: list_all_iff dest: in_set_takeD)
  then have out: "chars (of_chars ?out) = ?out" by (rule chars_of_chars)
  have "filter (\<lambda>c. \<not> is_control c) ?out = ?out"
    by (auto simp: filter_id_conv dest: in_set_takeD)
  then have again: "printable (of_chars ?out) = of_chars ?out"
    by (simp only: printable_def PRINTABLE_def out take_take min.idem)
  have "list_all (\<lambda>c. \<not> is_control c) ?out"
    by (auto simp: list_all_iff dest: in_set_takeD)
  then show ?thesis by (simp add: p out again)
qed

theorem printable_safe_witness:
  "chars (printable (of_chars [104, 27, 93, 10, 155])) = [104, 93]"
  using printable_safe [of "[104, 27, 93, 10, 155]"] by (simp add: is_control_def)

end
