(* ===== verification/Server_Ports.thy ===== *)
theory Server_Ports
  imports Proto_Msg
begin

text \<open>
  \<open>hawse-core/src/server/ports.rs\<close>: the allocator of public ports. Its state is the dynamic
  span, the cursor of the last dynamic claim and the set of ports in use. The interface the
  sessions rely on is the locale \<open>port_pool\<close>; the allocator is its instance.
\<close>

record PortAllocator =
  pa_span :: PortSpan
  pa_cursor :: u16
  pa_in_use :: "Port set"

definition new_allocator :: "PortSpan \<Rightarrow> PortAllocator" where
  "new_allocator span = \<lparr>pa_span = span, pa_cursor = s_first span, pa_in_use = {}\<rparr>"

definition claim :: "Port \<Rightarrow> PortAllocator \<Rightarrow> PortAllocator \<times> (BindFailure + unit)" where
  "claim port a =
     (if port \<in> pa_in_use a then (a, Inl InUse)
      else (a\<lparr>pa_in_use := insert port (pa_in_use a)\<rparr>, Inr ()))"

definition advance :: "PortSpan \<Rightarrow> u16 \<Rightarrow> u16" where
  "advance span cursor = (if cursor = s_last span then s_first span else cursor + 1)"

fun claim_loop :: "nat \<Rightarrow> Kind \<Rightarrow> PortAllocator \<Rightarrow> PortAllocator \<times> Port option" where
  "claim_loop 0 k a = (a, None)"
| "claim_loop (Suc n) k a =
     (let port = \<lparr>number = pa_cursor a, kind = k\<rparr>;
          a = a\<lparr>pa_cursor := advance (pa_span a) (pa_cursor a)\<rparr>
      in if port \<notin> pa_in_use a then (a\<lparr>pa_in_use := insert port (pa_in_use a)\<rparr>, Some port)
         else claim_loop n k a)"

definition claim_dynamic :: "Kind \<Rightarrow> PortAllocator \<Rightarrow> PortAllocator \<times> Port option" where
  "claim_dynamic k a = claim_loop (span_len (pa_span a)) k a"

definition holds :: "Port \<Rightarrow> PortAllocator \<Rightarrow> bool" where
  "holds port a \<longleftrightarrow> port \<in> pa_in_use a"

definition release :: "Port \<Rightarrow> PortAllocator \<Rightarrow> PortAllocator \<times> bool" where
  "release port a = (a\<lparr>pa_in_use := pa_in_use a - {port}\<rparr>, port \<in> pa_in_use a)"

definition reserve :: "u16 \<Rightarrow> PortAllocator \<Rightarrow> PortAllocator" where
  "reserve n a =
     a\<lparr>pa_in_use := insert \<lparr>number = n, kind = Udp\<rparr> (insert \<lparr>number = n, kind = Tcp\<rparr> (pa_in_use a))\<rparr>"

section \<open>The walk over the span\<close>

definition alloc_ok :: "PortAllocator \<Rightarrow> bool" where
  "alloc_ok a \<longleftrightarrow> span_wf (pa_span a) \<and> contains_number (pa_span a) (pa_cursor a)"

text \<open>
  The distance a cursor has to walk to reach a number, going round at the end of the span.
\<close>

definition walk :: "PortSpan \<Rightarrow> u16 \<Rightarrow> u16 \<Rightarrow> nat" where
  "walk s c n = (unat n + span_len s - unat c) mod span_len s"

abbreviation walked :: "PortSpan \<Rightarrow> nat \<Rightarrow> u16 \<Rightarrow> u16" where
  "walked s i \<equiv> advance s ^^ i"

lemma in_span_nat:
  "contains_number s n \<longleftrightarrow> unat (s_first s) \<le> unat n \<and> unat n \<le> unat (s_last s)"
  by (simp add: contains_number_def word_le_nat_alt)

lemma unat_advance:
  assumes "span_wf s" "contains_number s c"
  shows "unat (advance s c) = (if c = s_last s then unat (s_first s) else Suc (unat c))"
proof -
  have "c \<noteq> s_last s \<Longrightarrow> unat c < unat (s_last s)"
    using assms(2) by (metis in_span_nat le_neq_implies_less word_unat_eq_iff)
  moreover have "unat (s_last s) < 65536" by (rule unat_bounds)
  ultimately show ?thesis by (auto simp: advance_def unat_word_ariths)
qed

lemma advance_in_span:
  assumes "span_wf s" "contains_number s c"
  shows "contains_number s (advance s c)"
proof -
  have "unat (s_first s) \<le> unat (s_last s)" by (rule span_nat(2) [OF assms(1)])
  moreover have "c \<noteq> s_last s \<Longrightarrow> unat c < unat (s_last s)"
    using assms(2) by (metis in_span_nat le_neq_implies_less word_unat_eq_iff)
  ultimately show ?thesis
    using assms by (auto simp: in_span_nat unat_advance)
qed

lemma walked_offset:
  assumes "span_wf s" "contains_number s c"
  shows "contains_number s (walked s i c) \<and>
    unat (walked s i c) = unat (s_first s) + (unat c - unat (s_first s) + i) mod span_len s"
proof (induction i)
  case 0
  have "unat c - unat (s_first s) < span_len s"
    using assms span_nat [OF assms(1)] by (auto simp: span_len_def in_span_nat)
  with assms show ?case by (auto simp: in_span_nat)
next
  case (Suc i)
  let ?c = "walked s i c" and ?o = "unat c - unat (s_first s) + i"
  note n = span_nat [OF assms(1)]
  have "?o mod span_len s = span_len s - 1 \<longleftrightarrow> ?c = s_last s"
    using Suc n by (auto simp: word_unat_eq_iff span_len_def)
  then have "Suc ?o mod span_len s = (if ?c = s_last s then 0 else Suc (?o mod span_len s))"
    by (auto simp: mod_Suc span_len_def)
  then show ?case
    using Suc assms by (auto simp: advance_in_span unat_advance)
qed

lemma span_len_pos [simp]: "0 < span_len s"
  by (simp add: span_len_def)

lemma walked_lap:
  assumes "span_wf s" "contains_number s c"
  shows "walked s (span_len s) c = c"
  using walked_offset [OF assms, of "span_len s"] walked_offset [OF assms, of 0]
  by (simp add: word_unat_eq_iff)

lemma walk_less: "walk s c n < span_len s"
  by (simp add: walk_def)

lemma walked_walk:
  assumes "span_wf s" "contains_number s c" "contains_number s n"
  shows "walked s (walk s c n) c = n"
proof -
  let ?f = "unat (s_first s)"
  note d = span_nat [OF assms(1)]
  have b: "?f \<le> unat c" "unat c \<le> unat (s_last s)" "?f \<le> unat n" "unat n \<le> unat (s_last s)"
    using assms by (simp_all add: in_span_nat)
  have "(unat c - ?f + walk s c n) mod span_len s
      = (unat c - ?f + (unat n + span_len s - unat c)) mod span_len s"
    by (simp add: walk_def mod_simps)
  also have "unat c - ?f + (unat n + span_len s - unat c) = (unat n - ?f) + span_len s"
    using b d by (simp add: span_len_def)
  also have "\<dots> mod span_len s = (unat n - ?f) mod span_len s"
    by (rule mod_add_self2)
  also have "\<dots> = unat n - ?f"
    using b d by (simp add: span_len_def)
  finally show ?thesis
    using walked_offset [OF assms(1,2), of "walk s c n"] b by (simp add: word_unat_eq_iff)
qed

lemma add_mod_inj:
  fixes o' :: nat
  assumes "(o' + j) mod l = (o' + i) mod l" "i < l" "j < l"
  shows "j = i"
proof (cases "j \<le> i")
  case True
  then have "l dvd i - j" using assms(1) mod_eq_dvd_iff_nat [of "o' + j" "o' + i" l] by simp
  with True assms(2) show ?thesis by (metis diff_is_0_eq dual_order.antisym less_imp_diff_less nat_dvd_not_less not_gr_zero)
next
  case False
  then have "l dvd j - i" using assms(1) mod_eq_dvd_iff_nat [of "o' + i" "o' + j" l] by simp
  with False assms(3) show ?thesis by (metis diff_is_0_eq less_imp_diff_less nat_dvd_not_less nat_le_linear not_gr_zero)
qed

lemma walk_walked:
  assumes "span_wf s" "contains_number s c" "i < span_len s"
  shows "walk s c (walked s i c) = i"
proof -
  let ?j = "walk s c (walked s i c)" and ?o = "unat c - unat (s_first s)"
  have "walked s ?j c = walked s i c"
    using assms by (simp add: walked_walk walked_offset)
  then have "(?o + ?j) mod span_len s = (?o + i) mod span_len s"
    using walked_offset [OF assms(1,2), of ?j] walked_offset [OF assms(1,2), of i] by simp
  then show ?thesis
    using assms(3) walk_less [of s c "walked s i c"] by (rule add_mod_inj)
qed

lemma claim_loop_Some:
  assumes "claim_loop n k a = (a', Some p)"
  shows "\<exists>i < n. p = \<lparr>number = walked (pa_span a) i (pa_cursor a), kind = k\<rparr> \<and> p \<notin> pa_in_use a \<and>
    (\<forall>j < i. \<lparr>number = walked (pa_span a) j (pa_cursor a), kind = k\<rparr> \<in> pa_in_use a) \<and>
    a' = a\<lparr>pa_cursor := walked (pa_span a) (Suc i) (pa_cursor a), pa_in_use := insert p (pa_in_use a)\<rparr>"
  using assms
proof (induction n k a rule: claim_loop.induct)
  case (2 n k a)
  let ?p = "\<lparr>number = pa_cursor a, kind = k\<rparr>"
  show ?case
  proof (cases "?p \<in> pa_in_use a")
    case True
    with 2 obtain i where "i < n"
      "p = \<lparr>number = walked (pa_span a) (Suc i) (pa_cursor a), kind = k\<rparr>" "p \<notin> pa_in_use a"
      "\<forall>j < i. \<lparr>number = walked (pa_span a) (Suc j) (pa_cursor a), kind = k\<rparr> \<in> pa_in_use a"
      "a' = a\<lparr>pa_cursor := walked (pa_span a) (Suc (Suc i)) (pa_cursor a), pa_in_use := insert p (pa_in_use a)\<rparr>"
      by (auto simp: Let_def funpow_swap1)
    with True show ?thesis
      by (intro exI [of _ "Suc i"]) (auto simp: less_Suc_eq_0_disj)
  next
    case False
    with 2 show ?thesis by (intro exI [of _ 0]) (auto simp: Let_def)
  qed
qed simp

lemma claim_loop_None:
  assumes "claim_loop n k a = (a', None)"
  shows "(\<forall>j < n. \<lparr>number = walked (pa_span a) j (pa_cursor a), kind = k\<rparr> \<in> pa_in_use a) \<and>
    a' = a\<lparr>pa_cursor := walked (pa_span a) n (pa_cursor a)\<rparr>"
  using assms
proof (induction n k a rule: claim_loop.induct)
  case (2 n k a)
  then show ?case
    by (auto simp: Let_def less_Suc_eq_0_disj funpow_swap1 split: if_splits)
qed simp

section \<open>What a dynamic claim does\<close>

lemma claim_dynamic_Some:
  assumes "alloc_ok a" "claim_dynamic k a = (a', Some p)"
  shows "kind p = k" "contains_number (pa_span a) (number p)" "p \<notin> pa_in_use a"
    "\<And>n. contains_number (pa_span a) n \<Longrightarrow> \<lparr>number = n, kind = k\<rparr> \<notin> pa_in_use a \<Longrightarrow>
       walk (pa_span a) (pa_cursor a) (number p) \<le> walk (pa_span a) (pa_cursor a) n"
    "a' = a\<lparr>pa_cursor := advance (pa_span a) (number p), pa_in_use := insert p (pa_in_use a)\<rparr>"
    "alloc_ok a'"
proof -
  let ?s = "pa_span a" and ?c = "pa_cursor a"
  have wf: "span_wf ?s" "contains_number ?s ?c" using assms(1) by (simp_all add: alloc_ok_def)
  obtain i where i: "i < span_len ?s" "p = \<lparr>number = walked ?s i ?c, kind = k\<rparr>" "p \<notin> pa_in_use a"
    and held: "\<forall>j < i. \<lparr>number = walked ?s j ?c, kind = k\<rparr> \<in> pa_in_use a"
    and a': "a' = a\<lparr>pa_cursor := walked ?s (Suc i) ?c, pa_in_use := insert p (pa_in_use a)\<rparr>"
    using claim_loop_Some assms(2) unfolding claim_dynamic_def by blast
  show "kind p = k" "contains_number ?s (number p)" "p \<notin> pa_in_use a"
    using i walked_offset [OF wf] by simp_all
  show "walk ?s ?c (number p) \<le> walk ?s ?c n"
    if "contains_number ?s n" "\<lparr>number = n, kind = k\<rparr> \<notin> pa_in_use a" for n
    using i held that walked_walk [OF wf] walk_walked [OF wf] by (metis Port.select_convs(1) not_le)
  show "a' = a\<lparr>pa_cursor := advance ?s (number p), pa_in_use := insert p (pa_in_use a)\<rparr>"
    using i a' by simp
  with wf \<open>contains_number ?s (number p)\<close> show "alloc_ok a'"
    by (simp add: alloc_ok_def advance_in_span)
qed

lemma claim_dynamic_None:
  assumes "alloc_ok a" "claim_dynamic k a = (a', None)"
  shows "a' = a" "contains_number (pa_span a) n \<Longrightarrow> \<lparr>number = n, kind = k\<rparr> \<in> pa_in_use a"
proof -
  let ?s = "pa_span a" and ?c = "pa_cursor a"
  have wf: "span_wf ?s" "contains_number ?s ?c" using assms(1) by (simp_all add: alloc_ok_def)
  have held: "\<forall>j < span_len ?s. \<lparr>number = walked ?s j ?c, kind = k\<rparr> \<in> pa_in_use a"
    and a': "a' = a\<lparr>pa_cursor := walked ?s (span_len ?s) ?c\<rparr>"
    using claim_loop_None assms(2) unfolding claim_dynamic_def by blast+
  show "a' = a" using a' by (simp add: walked_lap [OF wf])
  show "contains_number ?s n \<Longrightarrow> \<lparr>number = n, kind = k\<rparr> \<in> pa_in_use a"
    using held walk_less [of ?s ?c n] walked_walk [OF wf] by metis
qed

lemma new_allocator_ok: "span_wf span \<Longrightarrow> alloc_ok (new_allocator span)"
  by (simp add: alloc_ok_def new_allocator_def span_wf_def contains_number_def)

lemma other_ops_keep:
  "pa_cursor (fst (claim p a)) = pa_cursor a" "pa_span (fst (claim p a)) = pa_span a"
  "pa_cursor (fst (release p a)) = pa_cursor a" "pa_span (fst (release p a)) = pa_span a"
  "pa_cursor (reserve n a) = pa_cursor a" "pa_span (reserve n a) = pa_span a"
  by (simp_all add: claim_def release_def reserve_def)

section \<open>The pool as its users see it\<close>

text \<open>
  A user of the pool keeps a ledger of what it was granted and gives back only what is on it.
  \<open>ledger_step\<close> is one request and what it does to the ledger.
\<close>

datatype pool_op = PClaim Port | PDynamic Kind | PRelease Port

fun ledger_step :: "(Port \<Rightarrow> 's \<Rightarrow> 's \<times> ('e + unit)) \<Rightarrow> (Kind \<Rightarrow> 's \<Rightarrow> 's \<times> Port option) \<Rightarrow>
    (Port \<Rightarrow> 's \<Rightarrow> 's \<times> bool) \<Rightarrow> pool_op \<Rightarrow> 's \<times> Port list \<Rightarrow> 's \<times> Port list" where
  "ledger_step cl dyn rel (PClaim p) (s, owned) =
     (case cl p s of (s', Inl _) \<Rightarrow> (s', owned) | (s', Inr _) \<Rightarrow> (s', p # owned))"
| "ledger_step cl dyn rel (PDynamic k) (s, owned) =
     (case dyn k s of (s', None) \<Rightarrow> (s', owned) | (s', Some p) \<Rightarrow> (s', p # owned))"
| "ledger_step cl dyn rel (PRelease p) (s, owned) =
     (if p \<in> set owned then (fst (rel p s), removeAll p owned) else (s, owned))"

locale port_pool =
  fixes ok :: "'s \<Rightarrow> bool"
    and held :: "'s \<Rightarrow> Port set"
    and cl :: "Port \<Rightarrow> 's \<Rightarrow> 's \<times> ('e + unit)"
    and dyn :: "Kind \<Rightarrow> 's \<Rightarrow> 's \<times> Port option"
    and rel :: "Port \<Rightarrow> 's \<Rightarrow> 's \<times> bool"
  assumes cl_ok: "ok s \<Longrightarrow> ok (fst (cl p s))"
    and cl_granted: "ok s \<Longrightarrow> cl p s = (s', Inr u) \<Longrightarrow> p \<notin> held s \<and> held s' = insert p (held s)"
    and cl_refused: "ok s \<Longrightarrow> cl p s = (s', Inl e) \<Longrightarrow> p \<in> held s \<and> held s' = held s"
    and dyn_ok: "ok s \<Longrightarrow> ok (fst (dyn k s))"
    and dyn_granted: "ok s \<Longrightarrow> dyn k s = (s', Some p) \<Longrightarrow> p \<notin> held s \<and> held s' = insert p (held s)"
    and dyn_refused: "ok s \<Longrightarrow> dyn k s = (s', None) \<Longrightarrow> held s' = held s"
    and rel_ok: "ok s \<Longrightarrow> ok (fst (rel p s))"
    and rel_held: "ok s \<Longrightarrow> held (fst (rel p s)) = held s - {p}"
begin

text \<open>
  Whatever was held before the ledger was opened stays held and is never granted, and no port
  is granted twice without a release between.
\<close>

lemma ledger_keeps:
  assumes "ok (fst st) \<and> distinct (snd st) \<and> held (fst st) = base \<union> set (snd st) \<and> base \<inter> set (snd st) = {}"
  shows "ok (fst (ledger_step cl dyn rel op st)) \<and> distinct (snd (ledger_step cl dyn rel op st)) \<and>
    held (fst (ledger_step cl dyn rel op st)) = base \<union> set (snd (ledger_step cl dyn rel op st)) \<and>
    base \<inter> set (snd (ledger_step cl dyn rel op st)) = {}"
proof -
  obtain s owned where st: "st = (s, owned)" by force
  note h = assms [unfolded st, simplified]
  show ?thesis
  proof (cases op)
    case (PClaim p)
    with h show ?thesis using cl_ok [of s p] cl_granted [of s p] cl_refused [of s p]
      by (auto simp: st split: prod.splits sum.splits)
  next
    case (PDynamic k)
    with h show ?thesis using dyn_ok [of s k] dyn_granted [of s k] dyn_refused [of s k]
      by (auto simp: st split: prod.splits option.splits)
  next
    case (PRelease p)
    with h show ?thesis using rel_ok [of s p] rel_held [of s p]
      by (auto simp: st distinct_removeAll)
  qed
qed

end

sublocale port_pool \<subseteq> ledger: machine "ledger_step cl dyn rel"
  "\<lambda>st. ok (fst st) \<and> distinct (snd st) \<and> held (fst st) = base \<union> set (snd st) \<and> base \<inter> set (snd st) = {}"
  for base
  by unfold_locales (rule ledger_keeps)

interpretation pool: port_pool alloc_ok pa_in_use claim claim_dynamic release
proof unfold_locales
  fix s k assume ok: "alloc_ok s"
  show "alloc_ok (fst (claim_dynamic k s))"
    using ok claim_dynamic_Some(6) [OF ok] claim_dynamic_None(1) [OF ok]
    by (metis fst_conv option.exhaust surj_pair)
  show "pa_in_use s' = pa_in_use s" if "claim_dynamic k s = (s', None)" for s'
    using claim_dynamic_None(1) [OF ok that] by simp
  show "p \<notin> pa_in_use s \<and> pa_in_use s' = insert p (pa_in_use s)"
    if "claim_dynamic k s = (s', Some p)" for s' p
    using claim_dynamic_Some(3,5) [OF ok that] by simp
qed (auto simp: claim_def release_def alloc_ok_def split: if_splits)

section \<open>Properties of the allocator\<close>

datatype fixed_op = FClaim Port | FRelease Port | FReserve u16

fun fixed_step :: "fixed_op \<Rightarrow> PortAllocator \<Rightarrow> PortAllocator" where
  "fixed_step (FClaim p) a = fst (claim p a)"
| "fixed_step (FRelease p) a = fst (release p a)"
| "fixed_step (FReserve n) a = reserve n a"

lemma fixed_steps_keep:
  "pa_cursor (fold fixed_step ops a) = pa_cursor a \<and> pa_span (fold fixed_step ops a) = pa_span a"
proof (induction ops arbitrary: a)
  case (Cons op ops)
  then show ?case by (cases op) (simp_all add: other_ops_keep)
qed simp

lemma walk_last:
  assumes "span_wf s" "contains_number s n" "contains_number s m"
  shows "walk s (advance s n) m \<le> walk s (advance s n) n \<and>
    (walk s (advance s n) m = walk s (advance s n) n \<longrightarrow> m = n)"
proof -
  note in' = advance_in_span [OF assms(1,2)]
  have "walked s (span_len s - 1) (advance s n) = n"
    using walked_lap [OF assms(1,2)] by (simp add: span_len_def funpow_swap1)
  then have "walk s (advance s n) n = span_len s - 1"
    using walk_walked [OF assms(1) in', of "span_len s - 1"] by simp
  then show ?thesis
    using walk_less [of s "advance s n" m] walked_walk [OF assms(1) in' assms(2)]
      walked_walk [OF assms(1) in' assms(3)] by auto
qed

text \<open>
  A dynamic claim on a well-formed allocator either returns a port of the requested kind
  inside the span that nobody held, marks exactly that port as held and leaves the cursor just
  past it; or changes nothing at all, and this happens exactly when every number of the span is
  held for that kind. The cursor stays inside the span, so its increment never overflows.
\<close>

theorem claim_dynamic_correct:
  assumes "alloc_ok a"
  shows "case claim_dynamic k a of
      (a', Some p) \<Rightarrow> kind p = k \<and> contains_number (pa_span a) (number p) \<and> \<not> holds p a \<and>
        a' = a\<lparr>pa_cursor := advance (pa_span a) (number p), pa_in_use := insert p (pa_in_use a)\<rparr> \<and> alloc_ok a'
    | (a', None) \<Rightarrow> a' = a \<and> (\<forall>n \<in> set (span_iter (pa_span a)). holds \<lparr>number = n, kind = k\<rparr> a)"
proof (cases "claim_dynamic k a")
  case (Pair a' r)
  have wf: "span_wf (pa_span a)" using assms by (simp add: alloc_ok_def)
  show ?thesis
  proof (cases r)
    case None
    with Pair show ?thesis
      using claim_dynamic_None [OF assms, of k a'] span_iter_set [OF wf] by (simp add: holds_def)
  next
    case (Some p)
    with Pair show ?thesis
      using claim_dynamic_Some(1,2,3,5,6) [OF assms, of k a' p] by (simp add: holds_def)
  qed
qed

theorem claim_dynamic_correct_witness:
  "snd (claim_dynamic Tcp (new_allocator \<lparr>s_first = 65535, s_last = 65535\<rparr>)) =
     Some \<lparr>number = 65535, kind = Tcp\<rparr> \<and>
   alloc_ok (fst (claim_dynamic Tcp (new_allocator \<lparr>s_first = 65535, s_last = 65535\<rparr>)))"
proof -
  have "alloc_ok (new_allocator \<lparr>s_first = 65535, s_last = 65535\<rparr>)"
    by (rule new_allocator_ok) (simp add: span_wf_def)
  from claim_dynamic_correct [OF this, of Tcp] show ?thesis
    by (simp add: claim_dynamic_def new_allocator_def span_len_def Let_def)
qed

text \<open>
  A port that was just freed is not handed straight back: after a dynamic claim returned a
  port, whatever fixed claims, releases and reservations follow, the next dynamic claim returns
  another number unless every other number of the span is held for the kind it asks for.
\<close>

theorem freed_port_not_reissued:
  assumes "alloc_ok a" "claim_dynamic k a = (a', Some p)"
    and "claim_dynamic k' (fold fixed_step ops a') = (a'', Some q)"
    and "contains_number (pa_span a) m" "m \<noteq> number p"
      "\<not> holds \<lparr>number = m, kind = k'\<rparr> (fold fixed_step ops a')"
  shows "number q \<noteq> number p"
proof
  assume same: "number q = number p"
  let ?b = "fold fixed_step ops a'"
  note one = claim_dynamic_Some [OF assms(1,2)]
  have b: "pa_cursor ?b = advance (pa_span a) (number p)" "pa_span ?b = pa_span a"
    by (simp_all add: fixed_steps_keep one(5))
  have wf: "span_wf (pa_span a)" using assms(1) by (simp add: alloc_ok_def)
  have "alloc_ok ?b" using one(2) wf by (simp add: alloc_ok_def b advance_in_span)
  from claim_dynamic_Some(4) [OF this assms(3), of m]
  have "walk (pa_span a) (advance (pa_span a) (number p)) (number p) \<le>
      walk (pa_span a) (advance (pa_span a) (number p)) m"
    using assms(4,6) same by (simp add: b holds_def)
  with walk_last [OF wf one(2) assms(4)] assms(5) show False by auto
qed

theorem freed_port_not_reissued_witness:
  "let a = new_allocator \<lparr>s_first = 40000, s_last = 40001\<rparr>; a' = fst (claim_dynamic Tcp a);
       p = \<lparr>number = 40000, kind = Tcp\<rparr>
   in claim_dynamic Tcp a = (a', Some p) \<and>
      number (the (snd (claim_dynamic Tcp (fold fixed_step [FRelease p] a')))) \<noteq> 40000"
proof -
  let ?a = "new_allocator \<lparr>s_first = 40000, s_last = 40001\<rparr>"
  let ?p = "\<lparr>number = 40000, kind = Tcp\<rparr>"
  let ?a' = "fst (claim_dynamic Tcp ?a)"
  have ok: "alloc_ok ?a" by (rule new_allocator_ok) (simp add: span_wf_def)
  have n2: "unat (1 :: u16) + 1 = Suc (Suc 0)" by simp
  note ev = claim_dynamic_def new_allocator_def span_len_def advance_def release_def n2 Let_def
  have one: "claim_dynamic Tcp ?a = (?a', Some ?p)" by (simp add: ev)
  have two: "claim_dynamic Tcp (fold fixed_step [FRelease ?p] ?a') =
      (fst (claim_dynamic Tcp (fold fixed_step [FRelease ?p] ?a')), Some \<lparr>number = 40001, kind = Tcp\<rparr>)"
    by (simp add: ev)
  from freed_port_not_reissued [OF ok one two, of 40001] show ?thesis
    unfolding Let_def by (subst two) (use one in \<open>simp add: ev contains_number_def holds_def\<close>)
qed

text \<open>
  C17: the pool as the sessions share it. From a fresh allocator with one number reserved,
  through any sequence of fixed claims, dynamic claims and releases of granted ports, no port is
  granted twice without a release between, the reserved number is never granted for either
  kind, and the ports held are exactly the reserved ones and those granted and not given back.
\<close>

theorem pool_grants_exclusive:
  assumes "span_wf span"
  shows "case fold (ledger_step claim claim_dynamic release) ops (reserve n (new_allocator span), []) of
    (a, owned) \<Rightarrow> distinct owned \<and> (\<forall>p. holds p a \<longleftrightarrow> number p = n \<or> p \<in> set owned) \<and>
      (\<forall>p. p \<in> set owned \<longrightarrow> number p \<noteq> n)"
proof -
  let ?a = "reserve n (new_allocator span)"
  let ?base = "{p :: Port. number p = n}"
  have base: "pa_in_use ?a = ?base"
  proof (rule set_eqI)
    fix p :: Port
    show "p \<in> pa_in_use ?a \<longleftrightarrow> p \<in> ?base"
      by (cases p; cases "kind p") (auto simp: reserve_def new_allocator_def)
  qed
  have "alloc_ok ?a"
    using new_allocator_ok [OF assms] by (simp add: alloc_ok_def other_ops_keep)
  with base have "alloc_ok (fst (?a, [])) \<and> distinct (snd (?a, [] :: Port list)) \<and>
      pa_in_use (fst (?a, [])) = ?base \<union> set (snd (?a, [])) \<and> ?base \<inter> set (snd (?a, [])) = {}"
    by simp
  from pool.ledger.run_inv [OF this, of ops] show ?thesis
    by (auto simp: holds_def split: prod.splits)
qed

theorem pool_grants_exclusive_witness:
  "snd (fold (ledger_step claim claim_dynamic release) [PDynamic Tcp, PDynamic Tcp]
     (reserve 40000 (new_allocator \<lparr>s_first = 40000, s_last = 40001\<rparr>), [])) =
     [\<lparr>number = 40001, kind = Tcp\<rparr>] \<and>
   distinct (snd (fold (ledger_step claim claim_dynamic release) [PDynamic Tcp, PDynamic Tcp]
     (reserve 40000 (new_allocator \<lparr>s_first = 40000, s_last = 40001\<rparr>), [])))"
proof -
  have n2: "unat (1 :: u16) + 1 = Suc (Suc 0)" by simp
  have "span_wf \<lparr>s_first = 40000, s_last = 40001\<rparr>" by (simp add: span_wf_def)
  from pool_grants_exclusive [OF this, of 40000 "[PDynamic Tcp, PDynamic Tcp]"] show ?thesis
    by (simp add: claim_dynamic_def reserve_def new_allocator_def span_len_def advance_def n2 Let_def
        split: prod.splits)
qed

end
