(* ===== verification/Proto_Packet.thy ===== *)
theory Proto_Packet
  imports Proto_Msg
begin

text \<open>
  What travels between the two ends apart from raw visitor bytes: frames
  (\<open>hawse-proto/src/frame.rs\<close>, \<open>hawse-core/src/frame.rs\<close>, \<open>hawse-core/src/control.rs\<close>), packets
  (\<open>hawse-proto/src/packet.rs\<close>) and the PROXY protocol header a local service reads
  (\<open>hawse-proto/src/proxy.rs\<close>). The serialisation of a value belongs to the \<open>postcard\<close> crate, so
  the two functions that write and read one are arguments: \<open>ser\<close> and \<open>de\<close> for a whole value,
  \<open>put\<close> and \<open>take_header\<close> for a header with bytes after it.
\<close>

definition MAX_FRAME :: nat where "MAX_FRAME = 64 * 1024"

datatype FrameError = EncodeErr | DecodeErr | TooLarge nat | VisitorErr

definition frame_encode :: "('a \<Rightarrow> bytes option) \<Rightarrow> 'a \<Rightarrow> FrameError + bytes" where
  "frame_encode ser v =
     (case ser v of
        None \<Rightarrow> Inl EncodeErr
      | Some bs \<Rightarrow> if MAX_FRAME < length bs then Inl (TooLarge (length bs)) else Inr bs)"

definition frame_decode :: "(bytes \<Rightarrow> 'a option) \<Rightarrow> bytes \<Rightarrow> FrameError + 'a" where
  "frame_decode de bs = (case de bs of None \<Rightarrow> Inl DecodeErr | Some v \<Rightarrow> Inr v)"

section \<open>Frames on a stream\<close>

text \<open>
  A receiving half is the bytes still to come before the stream ends; \<open>read_exact\<close> of more is
  an i/o error. A sending half is the bytes written. \<open>write_body\<close> panics (\<open>None\<close>) on a body whose
  length does not fit a \<open>u32\<close>.
\<close>

datatype StreamFrameError = FrameErr FrameError | IoErr

definition read_exact :: "nat \<Rightarrow> bytes \<Rightarrow> StreamFrameError + bytes \<times> bytes" where
  "read_exact n recv = (if length recv < n then Inl IoErr else Inr (take n recv, drop n recv))"

definition read_body :: "bytes \<Rightarrow> StreamFrameError + bytes \<times> bytes" where
  "read_body recv =
     (case read_exact 4 recv of
        Inl e \<Rightarrow> Inl e
      | Inr (len, recv) \<Rightarrow>
          let n = unat (of_le32 len)
          in if MAX_FRAME < n then Inl (FrameErr (TooLarge n)) else read_exact n recv)"

definition read_frame :: "(bytes \<Rightarrow> 'a option) \<Rightarrow> bytes \<Rightarrow> StreamFrameError + 'a \<times> bytes" where
  "read_frame de recv =
     (case read_body recv of
        Inl e \<Rightarrow> Inl e
      | Inr (body, recv) \<Rightarrow>
          (case frame_decode de body of Inl e \<Rightarrow> Inl (FrameErr e) | Inr v \<Rightarrow> Inr (v, recv)))"

definition write_body :: "bytes \<Rightarrow> bytes \<Rightarrow> bytes option" where
  "write_body sent body =
     (if length body < 4294967296 then Some (sent @ le32 (word_of_nat (length body)) @ body) else None)"

definition write_frame :: "('a \<Rightarrow> bytes option) \<Rightarrow> bytes \<Rightarrow> 'a \<Rightarrow> (FrameError + bytes) option" where
  "write_frame ser sent v =
     (case frame_encode ser v of
        Inl e \<Rightarrow> Some (Inl e)
      | Inr body \<Rightarrow> map_option Inr (write_body sent body))"

text \<open>
  What the codec's reader yields to \<open>Control\<close>: a frame, its own length error with the bytes it
  holds back, another i/o error, or the end.
\<close>

datatype rx_event = RxFrame bytes | RxOverLimit bytes | RxError | RxEnd

definition try_next :: "(bytes \<Rightarrow> 'a option) \<Rightarrow> rx_event \<Rightarrow> FrameError + 'a option" where
  "try_next de ev =
     (case ev of
        RxFrame frame \<Rightarrow> (case frame_decode de frame of Inl e \<Rightarrow> Inl e | Inr v \<Rightarrow> Inr (Some v))
      | RxOverLimit buffered \<Rightarrow>
          Inl (TooLarge (unat (of_le32 (if length buffered < 4 then [255, 255, 255, 255] else take 4 buffered))))
      | RxError \<Rightarrow> Inr None
      | RxEnd \<Rightarrow> Inr None)"

definition control_next :: "(bytes \<Rightarrow> 'a option) \<Rightarrow> rx_event \<Rightarrow> 'a option" where
  "control_next de ev = (case try_next de ev of Inl _ \<Rightarrow> None | Inr v \<Rightarrow> v)"

section \<open>Packets\<close>

definition HEADER_MAX :: nat where "HEADER_MAX = 3 + 5"
definition IPV4 :: u8 where "IPV4 = 4"
definition IPV6 :: u8 where "IPV6 = 6"

definition header_bytes :: "(DatagramHeader \<Rightarrow> bytes) \<Rightarrow> DatagramHeader \<Rightarrow> FrameError + bytes" where
  "header_bytes put header =
     (if HEADER_MAX < length (put header) then Inl EncodeErr else Inr (put header))"

definition packet_encode :: "(DatagramHeader \<Rightarrow> bytes) \<Rightarrow> DatagramHeader \<Rightarrow> bytes \<Rightarrow> FrameError + bytes" where
  "packet_encode put header payload =
     (case header_bytes put header of
        Inl e \<Rightarrow> Inl e
      | Inr head \<Rightarrow>
          let len = length head + length payload
          in if MAX_FRAME < len then Inl (TooLarge len) else Inr (head @ payload))"

definition packet_decode :: "(bytes \<Rightarrow> (DatagramHeader \<times> bytes) option) \<Rightarrow> bytes \<Rightarrow>
    FrameError + DatagramHeader \<times> bytes" where
  "packet_decode take_header packet =
     (case take_header packet of None \<Rightarrow> Inl DecodeErr | Some r \<Rightarrow> Inr r)"

definition address_bytes :: "IpAddr \<Rightarrow> bytes" where
  "address_bytes ip = (case ip of V4 a \<Rightarrow> IPV4 # octets4 a | V6 a \<Rightarrow> IPV6 # octets6 a)"

definition encode_from :: "(DatagramHeader \<Rightarrow> bytes) \<Rightarrow> DatagramHeader \<Rightarrow> SocketAddr \<Rightarrow> bytes \<Rightarrow>
    FrameError + bytes" where
  "encode_from put header visitor payload =
     (case header_bytes put header of
        Inl e \<Rightarrow> Inl e
      | Inr head \<Rightarrow>
          let ip = to_canonical (sa_ip visitor);
              address = (if is_ipv4 ip then 4 else 16);
              len = length head + 1 + address + 2 + length payload
          in if MAX_FRAME < len then Inl (TooLarge len)
             else Inr (head @ address_bytes ip @ be16 (sa_port visitor) @ payload))"

definition take_address :: "bytes \<Rightarrow> (IpAddr \<times> bytes) option" where
  "take_address bs =
     (case bs of
        [] \<Rightarrow> None
      | family # rest \<Rightarrow>
          if family = IPV4 \<and> 4 \<le> length rest then Some (V4 (of_octets4 (take 4 rest)), drop 4 rest)
          else if family = IPV6 \<and> 16 \<le> length rest then Some (V6 (of_octets6 (take 16 rest)), drop 16 rest)
          else None)"

definition decode_from :: "(bytes \<Rightarrow> (DatagramHeader \<times> bytes) option) \<Rightarrow> bytes \<Rightarrow>
    FrameError + DatagramHeader \<times> SocketAddr \<times> bytes" where
  "decode_from take_header packet =
     (case packet_decode take_header packet of
        Inl e \<Rightarrow> Inl e
      | Inr (header, rest) \<Rightarrow>
          (case take_address rest of
             Some (ip, hi # lo # payload) \<Rightarrow> Inr (header, socket_addr ip (of_be16 [hi, lo]), payload)
           | _ \<Rightarrow> Inl VisitorErr))"

section \<open>The PROXY protocol header\<close>

definition SIGNATURE :: bytes where
  "SIGNATURE = [13, 10, 13, 10, 0, 13, 10, 81, 85, 73, 84, 10]"

definition VERSION_2_PROXY :: u8 where "VERSION_2_PROXY = 33"
definition TCP_OVER_IPV4 :: u8 where "TCP_OVER_IPV4 = 17"
definition TCP_OVER_IPV6 :: u8 where "TCP_OVER_IPV6 = 33"
definition UDP_OVER_IPV4 :: u8 where "UDP_OVER_IPV4 = 18"
definition UDP_OVER_IPV6 :: u8 where "UDP_OVER_IPV6 = 34"

fun ipv6 :: "IpAddr \<Rightarrow> u128" where
  "ipv6 (V4 a) = to_ipv6_mapped a"
| "ipv6 (V6 a) = a"

definition v2 :: "SocketAddr \<Rightarrow> SocketAddr \<Rightarrow> u8 \<Rightarrow> u8 \<Rightarrow> bytes" where
  "v2 src dst over_ipv4 over_ipv6 =
     SIGNATURE @ [VERSION_2_PROXY] @
     (case (to_canonical (sa_ip src), to_canonical (sa_ip dst)) of
        (V4 from', V4 to') \<Rightarrow> [over_ipv4] @ be16 12 @ octets4 from' @ octets4 to'
      | (from', to') \<Rightarrow> [over_ipv6] @ be16 36 @ octets6 (ipv6 from') @ octets6 (ipv6 to')) @
     be16 (sa_port src) @ be16 (sa_port dst)"

definition v2_tcp :: "SocketAddr \<Rightarrow> SocketAddr \<Rightarrow> bytes" where
  "v2_tcp src dst = v2 src dst TCP_OVER_IPV4 TCP_OVER_IPV6"

definition v2_udp :: "SocketAddr \<Rightarrow> SocketAddr \<Rightarrow> bytes" where
  "v2_udp src dst = v2 src dst UDP_OVER_IPV4 UDP_OVER_IPV6"

text \<open>
  A reader of the header, after the PROXY protocol's specification (section 2.2): the signature,
  version 2 and the command PROXY, the family and transport byte, the length of what follows in
  network order, then the source and destination addresses and ports of that family.
\<close>

definition v2_read :: "bytes \<Rightarrow> (u8 \<times> SocketAddr \<times> SocketAddr \<times> bytes) option" where
  "v2_read bs =
     (if length bs < 16 \<or> take 12 bs \<noteq> SIGNATURE \<or> bs ! 12 \<noteq> 33 then None
      else let family = bs ! 13; n = unat (of_be16 (take 2 (drop 14 bs)));
               body = take n (drop 16 bs); rest = drop n (drop 16 bs);
               port = (\<lambda>i. of_be16 (take 2 (drop i body)))
           in if length body < n then None
              else if (family = 17 \<or> family = 18) \<and> 12 \<le> n
              then Some (family, SocketV4 (of_octets4 (take 4 body)) (port 8),
                         SocketV4 (of_octets4 (take 4 (drop 4 body))) (port 10), rest)
              else if (family = 33 \<or> family = 34) \<and> 36 \<le> n
              then Some (family, SocketV6 (of_octets6 (take 16 body)) (port 32) 0 0,
                         SocketV6 (of_octets6 (take 16 (drop 16 body))) (port 34) 0 0, rest)
              else None)"

section \<open>Round trips\<close>

lemma of_le32_len: "n \<le> MAX_FRAME \<Longrightarrow> unat (of_le32 (le32 (word_of_nat n))) = n"
  by (simp add: byte_simps MAX_FRAME_def unat_of_nat)

text \<open>
  A body written to a stream is the next thing read from it, with the stream left at the
  first byte after it; and a read returns a body exactly when the stream starts with that body's
  own length, little endian, then the body, within the frame limit.
\<close>

theorem read_body_exact:
  "read_body recv = Inr (body, rest) \<longleftrightarrow>
     length body \<le> MAX_FRAME \<and> write_body [] body = Some (take (4 + length body) recv) \<and>
     recv = take (4 + length body) recv @ rest"
proof
  assume r: "read_body recv = Inr (body, rest)"
  let ?n = "unat (of_le32 (take 4 recv))"
  have n: "4 \<le> length recv" "?n \<le> MAX_FRAME" "?n \<le> length recv - 4"
    and b: "body = take ?n (drop 4 recv)" "rest = drop ?n (drop 4 recv)"
    using r by (auto simp: read_body_def read_exact_def Let_def split: if_splits)
  have len: "length body = ?n" using n by (simp add: b)
  have "le32 (of_le32 (take 4 recv)) = take 4 recv" by (rule le32_of_le32) (use n in simp)
  moreover have "(word_of_nat ?n :: u32) = of_le32 (take 4 recv)" by simp
  ultimately have head: "le32 (word_of_nat ?n) = take 4 recv" by metis
  have whole: "take (4 + ?n) recv = take 4 recv @ body" "recv = take (4 + ?n) recv @ rest"
    using take_add [of 4 ?n recv] append_take_drop_id [of "4 + ?n" recv]
    by (simp_all only: b drop_drop add.commute)
  have "length body < 4294967296" using n(2) len by (simp add: MAX_FRAME_def)
  with n(2) head len whole show "length body \<le> MAX_FRAME \<and>
      write_body [] body = Some (take (4 + length body) recv) \<and> recv = take (4 + length body) recv @ rest"
    by (simp add: write_body_def)
next
  assume a: "length body \<le> MAX_FRAME \<and> write_body [] body = Some (take (4 + length body) recv) \<and>
     recv = take (4 + length body) recv @ rest"
  then have "take (4 + length body) recv = le32 (word_of_nat (length body)) @ body"
    by (simp add: write_body_def split: if_splits)
  with a have "recv = le32 (word_of_nat (length body)) @ body @ rest" by (metis append.assoc)
  with a show "read_body recv = Inr (body, rest)"
    using of_le32_len [of "length body"] by (simp add: read_body_def read_exact_def Let_def)
qed

lemma write_then_read:
  assumes codec: "\<And>v bs. ser v = Some bs \<Longrightarrow> de bs = Some v"
    and "write_frame ser sent v = Some (Inr sent')"
  shows "\<exists>wire. sent' = sent @ wire \<and> (\<forall>rest. read_frame de (wire @ rest) = Inr (v, rest))"
proof -
  obtain body where body: "ser v = Some body" "length body \<le> MAX_FRAME"
      "sent' = sent @ le32 (word_of_nat (length body)) @ body"
    using assms(2)
    by (auto simp: write_frame_def frame_encode_def write_body_def split: option.splits if_splits sum.splits)
  have "read_frame de ((le32 (word_of_nat (length body)) @ body) @ rest) = Inr (v, rest)" for rest
    using of_le32_len [OF body(2)] body(2) codec [OF body(1)]
    by (simp add: read_frame_def read_body_def read_exact_def Let_def frame_decode_def)
  with body(3) show ?thesis by blast
qed

fun write_frames :: "('a \<Rightarrow> bytes option) \<Rightarrow> 'a list \<Rightarrow> bytes \<Rightarrow> bytes option" where
  "write_frames ser [] sent = Some sent"
| "write_frames ser (v # vs) sent =
     (case write_frame ser sent v of Some (Inr sent') \<Rightarrow> write_frames ser vs sent' | _ \<Rightarrow> None)"

fun read_frames :: "(bytes \<Rightarrow> 'a option) \<Rightarrow> nat \<Rightarrow> bytes \<Rightarrow> ('a list \<times> bytes) option" where
  "read_frames de 0 recv = Some ([], recv)"
| "read_frames de (Suc n) recv =
     (case read_frame de recv of
        Inl _ \<Rightarrow> None
      | Inr (v, recv) \<Rightarrow> map_option (\<lambda>(vs, recv). (v # vs, recv)) (read_frames de n recv))"

lemma write_frames_read:
  assumes codec: "\<And>v bs. ser v = Some bs \<Longrightarrow> de bs = Some v"
    and "write_frames ser vs sent = Some sent'"
  shows "\<exists>wire. sent' = sent @ wire \<and> (\<forall>rest. read_frames de (length vs) (wire @ rest) = Some (vs, rest))"
  using assms(2)
proof (induction vs arbitrary: sent)
  case (Cons v vs)
  then obtain s1 where s1: "write_frame ser sent v = Some (Inr s1)" "write_frames ser vs s1 = Some sent'"
    by (auto split: option.splits sum.splits)
  obtain w1 w2 where "s1 = sent @ w1" "\<forall>rest. read_frame de (w1 @ rest) = Inr (v, rest)"
      "sent' = s1 @ w2" "\<forall>rest. read_frames de (length vs) (w2 @ rest) = Some (vs, rest)"
    using write_then_read [of ser de, OF codec s1(1)] Cons.IH [OF s1(2)] by blast
  then show ?case by (intro exI [of _ "w1 @ w2"]) simp
qed simp

text \<open>
  Frames written one after another are read back one by one, each leaving the stream at the
  next, as long as the serialisation reads back what it wrote.
\<close>

theorem frames_roundtrip:
  assumes "\<And>v bs. ser v = Some bs \<Longrightarrow> de bs = Some v"
    and "write_frames ser vs [] = Some wire"
  shows "read_frames de (length vs) (wire @ rest) = Some (vs, rest)"
  using write_frames_read [of ser de, OF assms] by auto

theorem frames_roundtrip_witness:
  "read_frames Some 2 [2, 0, 0, 0, 7, 8, 0, 0, 0, 0, 9] = Some ([[7, 8], []], [9])"
proof -
  have "write_frames Some [[7, 8], []] [] = Some [2, 0, 0, 0, 7, 8, 0, 0, 0, 0]"
    by (simp add: write_frame_def frame_encode_def write_body_def MAX_FRAME_def le_eval)
  from frames_roundtrip [OF _ this, of Some "[9]"] show ?thesis by (simp add: numeral_2_eq_2)
qed

text \<open>
  A packet in either layout decodes to what was encoded, the visitor's address in canonical
  form, and is never over the frame limit; a packet over it is refused with its length. The
  address costs seven bytes for an IPv4 visitor, mapped or not, and nineteen for an IPv6 one, and
  without it every UDP payload fits.
\<close>

theorem packet_roundtrip:
  assumes codec: "\<And>h rest. take_header (put h @ rest) = Some (h, rest)"
    and short: "\<And>h. length (put h) \<le> HEADER_MAX"
  defines "cost ip \<equiv> if is_ipv4 (to_canonical ip) then 7 else (19 :: nat)"
  shows "(case packet_encode put h payload of
      Inr p \<Rightarrow> length p \<le> MAX_FRAME \<and> packet_decode take_header p = Inr (h, payload)
    | Inl e \<Rightarrow> e = TooLarge (length (put h) + length payload) \<and> 65528 < length payload) \<and>
   (case encode_from put h visitor payload of
      Inr p \<Rightarrow> length p = length (put h) + cost (sa_ip visitor) + length payload \<and> length p \<le> MAX_FRAME \<and>
        decode_from take_header p = Inr (h, socket_addr (to_canonical (sa_ip visitor)) (sa_port visitor), payload)
    | Inl e \<Rightarrow> e = TooLarge (length (put h) + cost (sa_ip visitor) + length payload) \<and>
        MAX_FRAME < length (put h) + cost (sa_ip visitor) + length payload)"
proof -
  have head: "header_bytes put h = Inr (put h)"
    using short [of h] by (simp add: header_bytes_def)
  have dec: "packet_decode take_header (put h @ rest) = Inr (h, rest)" for rest
    by (simp add: packet_decode_def codec)
  have port: "\<exists>hi lo. be16 w = [hi, lo] \<and> of_be16 [hi, lo] = w" for w
    using of_be16_be16 [of w] two_bytes [of "be16 w"] by force
  have addr: "take_address (address_bytes ip @ rest) = Some (ip, rest)" for ip rest
    by (cases ip) (simp_all add: take_address_def address_bytes_def IPV4_def IPV6_def byte_simps)
  have "decode_from take_header (put h @ address_bytes ip @ be16 w @ payload) = Inr (h, socket_addr ip w, payload)" for ip w
    using port [of w] by (auto simp: decode_from_def dec addr)
  moreover have "length (address_bytes ip) = (if is_ipv4 ip then 5 else 17)" for ip
    by (cases ip) (simp_all add: address_bytes_def)
  ultimately show ?thesis
    using short [of h] by (auto simp: packet_encode_def encode_from_def head dec Let_def cost_def HEADER_MAX_def MAX_FRAME_def)
qed

theorem packet_roundtrip_witness:
  "decode_from (\<lambda>p. if length p < 6 then None
       else Some (\<lparr>dh_service_id = of_le16 (take 2 p), dh_session = of_le32 (take 4 (drop 2 p))\<rparr>, drop 6 p))
     (projr (encode_from (\<lambda>h. le16 (dh_service_id h) @ le32 (dh_session h)) \<lparr>dh_service_id = 7, dh_session = 9\<rparr>
        (SocketV6 (to_ipv6_mapped 3221225985) 53 0 0) [104, 105])) =
   Inr (\<lparr>dh_service_id = 7, dh_session = 9\<rparr>, SocketV4 3221225985 53, [104, 105])"
proof -
  let ?put = "\<lambda>h. le16 (dh_service_id h) @ le32 (dh_session h)"
  let ?take = "\<lambda>p. if length p < 6 then None
       else Some (\<lparr>dh_service_id = of_le16 (take 2 p), dh_session = of_le32 (take 4 (drop 2 p))\<rparr>, drop 6 p)"
  have codec: "?take (?put h @ rest) = Some (h, rest)" for h rest by (simp add: byte_simps)
  have "length (?put h) \<le> HEADER_MAX" for h :: DatagramHeader by (simp add: HEADER_MAX_def)
  from packet_roundtrip [of ?take ?put, OF codec this, of "\<lparr>dh_service_id = 7, dh_session = 9\<rparr>" "[104, 105]"
      "SocketV6 (to_ipv6_mapped 3221225985) 53 0 0"]
  show ?thesis by (auto split: sum.splits simp: MAX_FRAME_def)
qed

lemma v2_read_split:
  assumes "length body = n" "n < 65536"
  shows "v2_read (SIGNATURE @ [VERSION_2_PROXY, family] @ be16 (word_of_nat n) @ body @ rest) =
    (if (family = 17 \<or> family = 18) \<and> 12 \<le> n
     then Some (family, SocketV4 (of_octets4 (take 4 body)) (of_be16 (take 2 (drop 8 body))),
                SocketV4 (of_octets4 (take 4 (drop 4 body))) (of_be16 (take 2 (drop 10 body))), rest)
     else if (family = 33 \<or> family = 34) \<and> 36 \<le> n
     then Some (family, SocketV6 (of_octets6 (take 16 body)) (of_be16 (take 2 (drop 32 body))) 0 0,
                SocketV6 (of_octets6 (take 16 (drop 16 body))) (of_be16 (take 2 (drop 34 body))) 0 0, rest)
     else None)"
proof -
  obtain hi lo where be: "be16 (word_of_nat n) = [hi, lo]" "of_be16 [hi, lo] = word_of_nat n"
    using of_be16_be16 [of "word_of_nat n"] two_bytes [of "be16 (word_of_nat n)"] by force
  have "unat (word_of_nat n :: u16) = n" using assms(2) by (simp add: unat_of_nat)
  with be assms(1) show ?thesis
    unfolding v2_read_def Let_def by (simp add: SIGNATURE_def VERSION_2_PROXY_def)
qed

definition v2_pair :: "SocketAddr \<Rightarrow> SocketAddr \<Rightarrow> SocketAddr \<times> SocketAddr" where
  "v2_pair src dst =
     (case (to_canonical (sa_ip src), to_canonical (sa_ip dst)) of
        (V4 a, V4 b) \<Rightarrow> (SocketV4 a (sa_port src), SocketV4 b (sa_port dst))
      | (a, b) \<Rightarrow> (SocketV6 (ipv6 a) (sa_port src) 0 0, SocketV6 (ipv6 b) (sa_port dst) 0 0))"

lemma v2_reads:
  assumes "over4 \<in> {17, 18}" "over6 \<in> {33, 34}"
  shows "v2_read (v2 src dst over4 over6 @ rest) =
    Some (if is_ipv4 (to_canonical (sa_ip src)) \<and> is_ipv4 (to_canonical (sa_ip dst)) then over4 else over6,
          fst (v2_pair src dst), snd (v2_pair src dst), rest)"
proof -
  let ?ports = "be16 (sa_port src) @ be16 (sa_port dst)"
  have four: "v2_read (SIGNATURE @ [VERSION_2_PROXY, over4] @ be16 (word_of_nat 12) @ (octets4 a @ octets4 b @ ?ports) @ rest) =
      Some (over4, SocketV4 a (sa_port src), SocketV4 b (sa_port dst), rest)" for a b
    using assms(1) by (subst v2_read_split) (auto simp: byte_simps)
  have six: "v2_read (SIGNATURE @ [VERSION_2_PROXY, over6] @ be16 (word_of_nat 36) @ (octets6 a @ octets6 b @ ?ports) @ rest) =
      Some (over6, SocketV6 a (sa_port src) 0 0, SocketV6 b (sa_port dst) 0 0, rest)" for a b
    using assms(2) by (subst v2_read_split) (auto simp: byte_simps)
  show ?thesis
    using four six
    by (cases "to_canonical (sa_ip src)"; cases "to_canonical (sa_ip dst)")
       (simp_all add: v2_def v2_pair_def)
qed

text \<open>
  The PROXY protocol header reads back, by a reader written from its specification, to the
  visitor's and the listener's addresses and ports, with the payload after it untouched: as an
  IPv4 pair when both addresses are canonically IPv4, and otherwise as an IPv6 pair, an IPv4
  address in it mapped. It is 28 or 52 bytes long.
\<close>

theorem proxy_header_roundtrip:
  "(\<exists>family src' dst'. v2_read (v2_tcp src dst @ payload) = Some (family, src', dst', payload) \<and>
      (family = TCP_OVER_IPV4 \<or> family = TCP_OVER_IPV6) \<and>
      to_canonical (sa_ip src') = to_canonical (sa_ip src) \<and> sa_port src' = sa_port src \<and>
      to_canonical (sa_ip dst') = to_canonical (sa_ip dst) \<and> sa_port dst' = sa_port dst \<and>
      (family = TCP_OVER_IPV4 \<longleftrightarrow> is_ipv4 (to_canonical (sa_ip src)) \<and> is_ipv4 (to_canonical (sa_ip dst)))) \<and>
   (\<exists>family src' dst'. v2_read (v2_udp src dst @ payload) = Some (family, src', dst', payload) \<and>
      (family = UDP_OVER_IPV4 \<or> family = UDP_OVER_IPV6) \<and>
      to_canonical (sa_ip src') = to_canonical (sa_ip src) \<and> sa_port src' = sa_port src \<and>
      to_canonical (sa_ip dst') = to_canonical (sa_ip dst) \<and> sa_port dst' = sa_port dst) \<and>
   length (v2_tcp src dst) = (if is_ipv4 (to_canonical (sa_ip src)) \<and> is_ipv4 (to_canonical (sa_ip dst)) then 28 else 52) \<and>
   length (v2_udp src dst) = length (v2_tcp src dst)"
proof -
  let ?v4 = "is_ipv4 (to_canonical (sa_ip src)) \<and> is_ipv4 (to_canonical (sa_ip dst))"
  have pair: "to_canonical (sa_ip (fst (v2_pair src dst))) = to_canonical (sa_ip src)"
      "to_canonical (sa_ip (snd (v2_pair src dst))) = to_canonical (sa_ip dst)"
      "sa_port (fst (v2_pair src dst)) = sa_port src" "sa_port (snd (v2_pair src dst)) = sa_port dst"
    by (cases "to_canonical (sa_ip src)"; cases "to_canonical (sa_ip dst)";
        simp add: v2_pair_def canonical_not_mapped)+
  have len: "length (v2 src dst a b) = (if ?v4 then 28 else 52)" for a b
    by (cases "to_canonical (sa_ip src)"; cases "to_canonical (sa_ip dst)") (simp_all add: v2_def SIGNATURE_def)
  show ?thesis
    using v2_reads [of 17 33 src dst payload] v2_reads [of 18 34 src dst payload] pair len
    by (simp add: v2_tcp_def v2_udp_def TCP_OVER_IPV4_def TCP_OVER_IPV6_def UDP_OVER_IPV4_def UDP_OVER_IPV6_def)
qed

end
