(* ===== verification/Server_Session.thy ===== *)
theory Server_Session
  imports Server_Policy Server_Ports Proto_Packet
begin

text \<open>
  \<open>hawse-core/src/server/session.rs\<close>: one client's session on the server. The session's state is
  explicit, and so is the shared port allocator it passes around. A service runs in a task of its
  own, which a stop only tells to end and which gives its port back when it has: the tasks are part
  of the state, and their ending is an operation of its own (\<open>task_gone\<close>), so that every
  interleaving of binds, unbinds and late releases is a sequence of operations. Whether the host
  lets a port be bound is the argument \<open>os_bind\<close>. Events sent to whoever watches are appended to
  \<open>s_events\<close>; log lines are left out.
\<close>

definition PING_EVERY :: duration where "PING_EVERY = secs 15"
definition PONG_DEADLINE :: duration where "PONG_DEADLINE = secs 45"
definition DENIED_LINGER :: duration where "DENIED_LINGER = secs 2"
definition HELLO_DEADLINE :: duration where "HELLO_DEADLINE = secs 10"
definition SHUTDOWN_LINGER :: duration where "SHUTDOWN_LINGER = secs 2"
definition DRAIN :: duration where "DRAIN = secs 4"
definition SUPERSEDE_WAIT :: duration where "SUPERSEDE_WAIT = secs 5"
definition UNBIND_WAIT :: duration where "UNBIND_WAIT = secs 2"

datatype TransportKind = TransportQuic | TransportTcp

datatype Event =
    Connected string SocketAddr TransportKind string
  | EvBound string string IpAddr Port
  | EvUnbound string string Port
  | Ended string string
  | EvDenied PublicKey SocketAddr

record BoundService =
  bs_id :: u16
  bs_port :: Port
  bs_fixed :: bool

text \<open>
  A service's task: the port whose claim it owns, what it admits, and whether it was told to stop.
\<close>

record 'net Task =
  tk_port :: Port
  tk_allow :: "'net AllowList"
  tk_proxy :: bool
  tk_stop :: bool

record 'net Session =
  s_key :: PublicKey
  s_grant :: "'net Grant"
  s_services :: "(string, BoundService) hmap"
  s_last_id :: u16
  s_udp :: "u16 set"
  s_tasks :: "(u16, 'net Task) hmap"
  s_events :: "Event list"

definition new_session :: "PublicKey \<Rightarrow> 'net Grant \<Rightarrow> 'net Session" where
  "new_session key grant =
     \<lparr>s_key = key, s_grant = grant, s_services = [], s_last_id = 0, s_udp = {}, s_tasks = [], s_events = []\<rparr>"

definition tell :: "Event \<Rightarrow> 'net Session \<Rightarrow> 'net Session" where
  "tell event s = s\<lparr>s_events := s_events s @ [event]\<rparr>"

definition ended :: "CloseReason \<Rightarrow> 'net Session \<Rightarrow> 'net Session" where
  "ended reason s = tell (Ended (g_name (s_grant s)) (close_text reason)) s"

section \<open>Opening a port\<close>

definition claim_one :: "'net Grant \<Rightarrow> Kind \<Rightarrow> u16 option \<Rightarrow> PortAllocator \<Rightarrow> PortAllocator \<times> (BindFailure + Port)" where
  "claim_one grant k fixed ports =
     (case fixed of
        Some n \<Rightarrow>
          (let port = \<lparr>number = n, kind = k\<rparr>
           in if \<not> allows grant port then (ports, Inl NotGranted)
              else case claim port ports of (ports, Inl e) \<Rightarrow> (ports, Inl e) | (ports, Inr _) \<Rightarrow> (ports, Inr port))
      | None \<Rightarrow>
          (case claim_dynamic k ports of (ports, None) \<Rightarrow> (ports, Inl InUse) | (ports, Some port) \<Rightarrow> (ports, Inr port)))"

partial_function (option) open_loop :: "(IpAddr \<Rightarrow> Port \<Rightarrow> bool) \<Rightarrow> 'net Grant \<Rightarrow> Kind \<Rightarrow> u16 option \<Rightarrow>
    Port list \<Rightarrow> PortAllocator \<Rightarrow> (PortAllocator \<times> Port list \<times> (BindFailure + Port)) option" where
  "open_loop os_bind grant k fixed refused ports =
     (case claim_one grant k fixed ports of
        (ports, Inl e) \<Rightarrow> Some (ports, refused, Inl e)
      | (ports, Inr port) \<Rightarrow>
          if os_bind (g_bind grant) port then Some (ports, refused, Inr port)
          else if fixed \<noteq> None then Some (ports, refused @ [port], Inl InUse)
          else open_loop os_bind grant k fixed (refused @ [port]) ports)"

definition session_release :: "Port \<Rightarrow> PortAllocator \<Rightarrow> PortAllocator" where
  "session_release port ports = fst (release port ports)"

definition session_open :: "(IpAddr \<Rightarrow> Port \<Rightarrow> bool) \<Rightarrow> 'net Grant \<Rightarrow> Kind \<Rightarrow> u16 option \<Rightarrow> PortAllocator \<Rightarrow>
    (PortAllocator \<times> (BindFailure + Port)) option" where
  "session_open os_bind grant k fixed ports =
     map_option (\<lambda>(ports, refused, outcome). (fold session_release refused ports, outcome))
       (open_loop os_bind grant k fixed [] ports)"

section \<open>Binding and unbinding\<close>

definition session_bind :: "('net :: linorder) ipnet \<Rightarrow> (IpAddr \<Rightarrow> Port \<Rightarrow> bool) \<Rightarrow> string \<Rightarrow> Kind \<Rightarrow> u16 option \<Rightarrow>
    'net list \<Rightarrow> bool \<Rightarrow> PortAllocator \<times> 'net Session \<Rightarrow> ((PortAllocator \<times> 'net Session) \<times> ServerMessage) option" where
  "session_bind net os_bind service k port allow proxy_protocol = (\<lambda>(ports, s).
     (if \<not> is_ok (validate service) then Some ((ports, s), BindFailed service BadName)
      else if hget (s_services s) service \<noteq> None then Some ((ports, s), BindFailed service InUse)
      else case effective net allow (g_allow (s_grant s)) of
        None \<Rightarrow> Some ((ports, s), BindFailed service NotGranted)
      | Some admitted \<Rightarrow>
          if s_last_id s = - 1
          then Some ((ports, s), Shutdown ''this session has used every service id, and a new one starts over'')
          else let id = s_last_id s + 1
               in case session_open os_bind (s_grant s) k port ports of
                    None \<Rightarrow> None
                  | Some (ports, Inl reason) \<Rightarrow> Some ((ports, s), BindFailed service reason)
                  | Some (ports, Inr p) \<Rightarrow>
                      Some ((ports, tell (EvBound (g_name (s_grant s)) service (g_bind (s_grant s)) p)
                        (s\<lparr>s_tasks := hput id \<lparr>tk_port = p, tk_allow = admitted, tk_proxy = proxy_protocol, tk_stop = False\<rparr> (s_tasks s),
                           s_udp := (case k of Udp \<Rightarrow> insert id (s_udp s) | Tcp \<Rightarrow> s_udp s),
                           s_last_id := id,
                           s_services := hput service \<lparr>bs_id = id, bs_port = p, bs_fixed = (port \<noteq> None)\<rparr> (s_services s)\<rparr>)),
                        Bound service id (number p) (g_bind (s_grant s)))))"

definition stop_task :: "u16 \<Rightarrow> (u16, 'net Task) hmap \<Rightarrow> (u16, 'net Task) hmap" where
  "stop_task sid tasks = map (\<lambda>(i, t). (i, if i = sid then t\<lparr>tk_stop := True\<rparr> else t)) tasks"

definition unbind_quietly :: "string \<Rightarrow> 'net Session \<Rightarrow> 'net Session \<times> Port option" where
  "unbind_quietly service s =
     (case hget (s_services s) service of
        None \<Rightarrow> (s, None)
      | Some b \<Rightarrow>
          (s\<lparr>s_services := hdel service (s_services s), s_udp := s_udp s - {bs_id b},
             s_tasks := stop_task (bs_id b) (s_tasks s)\<rparr>, Some (bs_port b)))"

definition session_unbind :: "string \<Rightarrow> 'net Session \<Rightarrow> 'net Session \<times> Port option" where
  "session_unbind service s =
     (case unbind_quietly service s of
        (s, None) \<Rightarrow> (s, None)
      | (s, Some port) \<Rightarrow> (tell (EvUnbound (g_name (s_grant s)) service port) s, Some port))"

text \<open>
  The end of a stopped service's task: a TCP listener's task, or the last handle to a UDP service,
  which the session's map of UDP services also holds one of.
\<close>

definition task_gone :: "u16 \<Rightarrow> PortAllocator \<times> 'net Session \<Rightarrow> PortAllocator \<times> 'net Session" where
  "task_gone sid = (\<lambda>(ports, s).
     case hget (s_tasks s) sid of
       Some t \<Rightarrow>
         if tk_stop t \<and> sid \<notin> s_udp s
         then (session_release (tk_port t) ports, s\<lparr>s_tasks := hdel sid (s_tasks s)\<rparr>)
         else (ports, s)
     | None \<Rightarrow> (ports, s))"

definition freed :: "Port \<Rightarrow> PortAllocator \<Rightarrow> bool" where
  "freed port ports \<longleftrightarrow> \<not> holds port ports"

definition lost_services :: "'net Session \<Rightarrow> string list" where
  "lost_services s =
     map fst (filter (\<lambda>(_, b). bs_fixed b \<and> \<not> allows (s_grant s) (bs_port b)) (s_services s))"

definition regrant :: "'net Policy \<Rightarrow> 'net Session \<Rightarrow> 'net Session \<times> ServerMessage list" where
  "regrant policy s =
     (case lookup policy (s_key s) of
        None \<Rightarrow> (s, [Shutdown ''this key is no longer authorized on the server''])
      | Some grant \<Rightarrow>
          if (g_name grant, g_bind grant, g_allow grant) \<noteq> (g_name (s_grant s), g_bind (s_grant s), g_allow (s_grant s))
          then (s, [Shutdown ''this client's grant changed on the server''])
          else let s = s\<lparr>s_grant := grant\<rparr>; lost = lost_services s
               in (fold (\<lambda>service s. fst (session_unbind service s)) lost s,
                   map (\<lambda>service. BindFailed service NotGranted) lost))"

section \<open>The serving loop\<close>

text \<open>
  One turn of \<open>serve\<close>'s loop: the arm of the \<open>select!\<close> that won, at what instant (\<open>now\<close>), and, when
  the turn has a message to send, how and when (\<open>later\<close>) the sending ended. An arm whose
  precondition fails, or the deadline's before it has passed, cannot win (\<open>None\<close>). \<open>v_sent\<close> collects what reached the client.
\<close>

datatype 'net arm =
    ArmPending
  | ArmStop bool
  | ArmDeadline
  | ArmPing
  | ArmPolicy "'net Policy"
  | ArmMessage "FrameError + 'net ClientMessage option"

datatype sending = SentOk | SendFailed | StopWon | DeadlineWon

record 'net Serving =
  v_ports :: PortAllocator
  v_session :: "'net Session"
  v_pending :: "ServerMessage list"
  v_nonce :: u64
  v_last_heard :: instant
  v_told :: "instant option"
  v_end :: "instant option"
  v_sent :: "ServerMessage list"

definition new_serving :: "PortAllocator \<Rightarrow> 'net Session \<Rightarrow> instant \<Rightarrow> 'net Serving" where
  "new_serving ports s now =
     \<lparr>v_ports = ports, v_session = s, v_pending = [], v_nonce = 0, v_last_heard = now, v_told = None,
      v_end = None, v_sent = []\<rparr>"

definition is_shutdown :: "ServerMessage \<Rightarrow> bool" where
  "is_shutdown m = (case m of Shutdown _ \<Rightarrow> True | _ \<Rightarrow> False)"

text \<open>The second \<open>select!\<close>: sending the turn's reply.\<close>

definition send_reply :: "sending \<Rightarrow> instant \<Rightarrow> ServerMessage option \<Rightarrow> 'net Serving \<Rightarrow>
    ('net Serving \<times> CloseReason option) option" where
  "send_reply how now reply v =
     (case reply of
        None \<Rightarrow> Some (v, None)
      | Some m \<Rightarrow>
          (case how of
             SendFailed \<Rightarrow> Some (v, Some ControlClosed)
           | SentOk \<Rightarrow>
               let v = v\<lparr>v_sent := v_sent v @ [m]\<rparr>
               in if is_shutdown m then Some (v\<lparr>v_told := Some now\<rparr>, Some CShutdown) else Some (v, None)
           | StopWon \<Rightarrow> Some (v, None)
           | DeadlineWon \<Rightarrow> if v_last_heard v + PONG_DEADLINE \<le> now then Some (v, Some Unresponsive) else None))"

text \<open>What a message from the client makes of the session, and the reply, or the end.\<close>

definition handle_message :: "('net :: linorder) ipnet \<Rightarrow> (IpAddr \<Rightarrow> Port \<Rightarrow> bool) \<Rightarrow> 'net ClientMessage \<Rightarrow>
    PortAllocator \<times> 'net Session \<Rightarrow> ((PortAllocator \<times> 'net Session) \<times> (CloseReason + ServerMessage option)) option" where
  "handle_message net os_bind msg st =
     (case msg of
        Bind service k port allow proxy \<Rightarrow>
          map_option (\<lambda>(st, reply). (st, Inr (Some reply))) (session_bind net os_bind service k port allow proxy st)
      | Unbind service \<Rightarrow> Some ((fst st, fst (session_unbind service (snd st))), Inr None)
      | CPing nonce \<Rightarrow> Some (st, Inr (Some (SPong nonce)))
      | CPong _ \<Rightarrow> Some (st, Inr None)
      | Hello _ _ \<Rightarrow> Some (st, Inl DuplicateHello))"

definition stop_text :: "bool \<Rightarrow> string" where
  "stop_text superseded =
     (if superseded then ''another session for this key took over'' else ''server shutting down'')"

definition serve_turn :: "('net :: linorder) ipnet \<Rightarrow> (IpAddr \<Rightarrow> Port \<Rightarrow> bool) \<Rightarrow> 'net arm \<Rightarrow> sending \<Rightarrow> instant \<Rightarrow> instant \<Rightarrow>
    'net Serving \<Rightarrow> ('net Serving \<times> CloseReason option) option" where
  "serve_turn net os_bind arm how now later v =
     (case arm of
        ArmPending \<Rightarrow>
          if v_pending v = [] then None
          else send_reply how later (Some (last (v_pending v))) (v\<lparr>v_pending := butlast (v_pending v)\<rparr>)
      | ArmStop server_cancelled \<Rightarrow>
          let shutdown = Shutdown (stop_text (\<not> server_cancelled)); v = v\<lparr>v_end := Some (now + DRAIN)\<rparr>;
              v = (if how = SentOk \<and> later \<le> now + SHUTDOWN_LINGER
                   then v\<lparr>v_told := Some later, v_sent := v_sent v @ [shutdown]\<rparr> else v)
          in Some (v, Some (if server_cancelled then CShutdown else Superseded))
      | ArmDeadline \<Rightarrow>
          if v_last_heard v + PONG_DEADLINE \<le> now then Some (v, Some Unresponsive) else None
      | ArmPing \<Rightarrow>
          let v = v\<lparr>v_nonce := v_nonce v + 1\<rparr> in send_reply how later (Some (SPing (v_nonce v))) v
      | ArmPolicy policy \<Rightarrow>
          if v_pending v \<noteq> [] then None
          else (case regrant policy (v_session v) of
                  (s, pending) \<Rightarrow> send_reply how later None (v\<lparr>v_session := s, v_pending := pending\<rparr>))
      | ArmMessage read \<Rightarrow>
          if v_pending v \<noteq> [] then None
          else (case read of
                  Inl _ \<Rightarrow> Some (v, Some ControlClosed)
                | Inr None \<Rightarrow> Some (v, Some PeerLeft)
                | Inr (Some msg) \<Rightarrow>
                    (case handle_message net os_bind msg (v_ports v, v_session v) of
                       None \<Rightarrow> None
                     | Some ((ports, s), outcome) \<Rightarrow>
                         let v = v\<lparr>v_last_heard := now, v_ports := ports, v_session := s\<rparr>
                         in case outcome of
                              Inl reason \<Rightarrow> Some (v, Some reason)
                            | Inr reply \<Rightarrow> send_reply how later reply v)))"

text \<open>
  After the loop: the end is told, every service is stopped, and \<open>leave\<close> closes with the loop's
  reason once the drain is over, waiting for a client that was told why no longer than the linger.
\<close>

definition serve_end :: "CloseReason \<Rightarrow> 'net Serving \<Rightarrow> 'net Serving" where
  "serve_end reason v =
     (let s = ended reason (v_session v)
      in v\<lparr>v_session := fold (\<lambda>name s. fst (unbind_quietly name s)) (map fst (s_services s)) s\<rparr>)"

definition leave_deadlines :: "instant \<Rightarrow> 'net Serving \<Rightarrow> instant \<times> instant option" where
  "leave_deadlines now v =
     ((case v_end v of Some e \<Rightarrow> e | None \<Rightarrow> now + DRAIN), map_option (\<lambda>told. told + SHUTDOWN_LINGER) (v_told v))"

section \<open>Who holds a key\<close>

text \<open>
  The server's table of live sessions, by key. A session is known by a number of its own, as an
  \<open>Arc\<close> is by its address. \<open>live_cancelled\<close> is the set of sessions told to end, \<open>live_done\<close> of those
  that signalled they are done with their ports.
\<close>

record KeyTable =
  live_sessions :: "(PublicKey, nat) hmap"
  live_cancelled :: "nat set"
  live_done :: "nat set"

definition stake :: "PublicKey \<Rightarrow> nat \<Rightarrow> KeyTable \<Rightarrow> KeyTable \<times> nat option" where
  "stake key who l = (l\<lparr>live_sessions := hput key who (live_sessions l)\<rparr>, hget (live_sessions l) key)"

definition claim_drop :: "PublicKey \<Rightarrow> nat \<Rightarrow> KeyTable \<Rightarrow> KeyTable" where
  "claim_drop key who l =
     (let l = l\<lparr>live_done := insert who (live_done l)\<rparr>
      in if hget (live_sessions l) key = Some who
         then l\<lparr>live_sessions := hdel key (live_sessions l)\<rparr> else l)"

section \<open>Opening a port ends, and gives back what it does not keep\<close>

definition free_numbers :: "Kind \<Rightarrow> PortAllocator \<Rightarrow> u16 set" where
  "free_numbers k ports = {n. contains_number (pa_span ports) n \<and> \<lparr>number = n, kind = k\<rparr> \<notin> pa_in_use ports}"

lemma port_eta: "kind p = k \<Longrightarrow> \<lparr>number = number p, kind = k\<rparr> = (p :: Port)"
  by simp

lemma free_shrinks:
  assumes "alloc_ok ports" "claim_dynamic k ports = (ports', Some p)"
  shows "card (free_numbers k ports') < card (free_numbers k ports)"
proof (rule psubset_card_mono)
  note c = claim_dynamic_Some [OF assms]
  show "finite (free_numbers k ports)" by simp
  have "number p \<in> free_numbers k ports" "number p \<notin> free_numbers k ports'"
    using c(1,2,3,5) by (simp_all add: free_numbers_def port_eta)
  moreover have "free_numbers k ports' \<subseteq> free_numbers k ports"
    using c(5) by (auto simp: free_numbers_def)
  ultimately show "free_numbers k ports' \<subset> free_numbers k ports" by blast
qed

text \<open>What a walk of the pool leaves: the ports the host refused on the way, all claimed.\<close>

definition walk_ok :: "(IpAddr \<Rightarrow> Port \<Rightarrow> bool) \<Rightarrow> 'net Grant \<Rightarrow> Kind \<Rightarrow> PortAllocator \<Rightarrow>
    PortAllocator \<times> Port list \<times> (BindFailure + Port) \<Rightarrow> bool" where
  "walk_ok os_bind grant k ports = (\<lambda>(ports', tried, r).
     alloc_ok ports' \<and> pa_span ports' = pa_span ports \<and> distinct tried \<and> set tried \<inter> pa_in_use ports = {} \<and>
     (\<forall>p \<in> set tried. \<not> os_bind (g_bind grant) p) \<and>
     (case r of
        Inr p \<Rightarrow> p \<notin> pa_in_use ports \<and> p \<notin> set tried \<and> os_bind (g_bind grant) p \<and> kind p = k \<and>
          contains_number (pa_span ports) (number p) \<and> pa_in_use ports' = pa_in_use ports \<union> set tried \<union> {p}
      | Inl e \<Rightarrow> e = InUse \<and> pa_in_use ports' = pa_in_use ports \<union> set tried \<and>
          (\<forall>n. contains_number (pa_span ports) n \<longrightarrow>
             \<lparr>number = n, kind = k\<rparr> \<in> pa_in_use ports \<or> \<not> os_bind (g_bind grant) \<lparr>number = n, kind = k\<rparr>)))"

lemma walk_ok_step:
  assumes "alloc_ok ports" "claim_dynamic k ports = (ports1, Some p)" "\<not> os_bind (g_bind grant) p"
    and "walk_ok os_bind grant k ports1 (ports', tried, r)"
  shows "walk_ok os_bind grant k ports (ports', p # tried, r)"
proof -
  note c = claim_dynamic_Some [OF assms(1,2)]
  have one: "pa_span ports1 = pa_span ports" "pa_in_use ports1 = insert p (pa_in_use ports)" using c(5) by simp_all
  show ?thesis
  proof (cases r)
    case (Inl e)
    have "\<lparr>number = n, kind = k\<rparr> \<in> pa_in_use ports \<or> \<not> os_bind (g_bind grant) \<lparr>number = n, kind = k\<rparr>"
      if "contains_number (pa_span ports) n" for n
      using assms(3,4) that by (cases "\<lparr>number = n, kind = k\<rparr> = p") (auto simp: walk_ok_def one Inl)
    with Inl assms(3,4) c(3) show ?thesis by (auto simp: walk_ok_def one)
  next
    case (Inr q)
    with assms(3,4) c(3) show ?thesis by (auto simp: walk_ok_def one)
  qed
qed

lemma open_loop_dynamic:
  assumes "alloc_ok ports"
  shows "\<exists>ports' tried r. open_loop os_bind grant k None refused ports = Some (ports', refused @ tried, r) \<and>
    walk_ok os_bind grant k ports (ports', tried, r)"
  using assms
proof (induction "card (free_numbers k ports)" arbitrary: ports refused rule: less_induct)
  case less
  obtain ports1 c where c: "claim_dynamic k ports = (ports1, c)" by force
  show ?case
  proof (cases c)
    case None
    with claim_dynamic_None [OF less.prems, of k ports1] c less.prems show ?thesis
      by (subst open_loop.simps) (auto simp: claim_one_def walk_ok_def)
  next
    case (Some p)
    note cs = claim_dynamic_Some [OF less.prems c [unfolded Some]]
    show ?thesis
    proof (cases "os_bind (g_bind grant) p")
      case True
      with cs c Some show ?thesis by (subst open_loop.simps) (auto simp: claim_one_def walk_ok_def)
    next
      case False
      obtain ports' tried r where IH: "open_loop os_bind grant k None (refused @ [p]) ports1 =
          Some (ports', (refused @ [p]) @ tried, r)" "walk_ok os_bind grant k ports1 (ports', tried, r)"
        using less.hyps [OF free_shrinks [OF less.prems c [unfolded Some]] cs(6)] by blast
      have "open_loop os_bind grant k None refused ports = open_loop os_bind grant k None (refused @ [p]) ports1"
        using False c Some by (subst open_loop.simps) (simp add: claim_one_def)
      with IH walk_ok_step [OF less.prems c [unfolded Some] False IH(2)] show ?thesis by auto
    qed
  qed
qed

lemma release_all:
  "pa_in_use (fold session_release ps ports) = pa_in_use ports - set ps \<and>
   pa_span (fold session_release ps ports) = pa_span ports \<and> pa_cursor (fold session_release ps ports) = pa_cursor ports"
  by (induction ps arbitrary: ports) (auto simp: session_release_def release_def)

lemma release_all_ok: "alloc_ok ports \<Longrightarrow> alloc_ok (fold session_release ps ports)"
  by (simp add: alloc_ok_def release_all)

definition open_result :: "(IpAddr \<Rightarrow> Port \<Rightarrow> bool) \<Rightarrow> 'net Grant \<Rightarrow> Kind \<Rightarrow> u16 option \<Rightarrow> PortAllocator \<Rightarrow>
    PortAllocator \<Rightarrow> BindFailure + Port \<Rightarrow> bool" where
  "open_result os_bind grant k fixed ports ports' r \<longleftrightarrow>
     alloc_ok ports' \<and> pa_span ports' = pa_span ports \<and>
     (case r of
        Inr p \<Rightarrow> kind p = k \<and> p \<notin> pa_in_use ports \<and> pa_in_use ports' = insert p (pa_in_use ports) \<and>
          os_bind (g_bind grant) p \<and>
          (case fixed of Some n \<Rightarrow> number p = n \<and> allows grant p | None \<Rightarrow> contains_number (pa_span ports) (number p))
      | Inl e \<Rightarrow> pa_in_use ports' = pa_in_use ports \<and>
          (case fixed of
             Some n \<Rightarrow> (let p = \<lparr>number = n, kind = k\<rparr> in
               if allows grant p then e = InUse \<and> (p \<in> pa_in_use ports \<or> \<not> os_bind (g_bind grant) p) else e = NotGranted)
           | None \<Rightarrow> e = InUse \<and> (\<forall>n. contains_number (pa_span ports) n \<longrightarrow>
               \<lparr>number = n, kind = k\<rparr> \<in> pa_in_use ports \<or> \<not> os_bind (g_bind grant) \<lparr>number = n, kind = k\<rparr>)))"

lemma session_open_result:
  assumes ok: "alloc_ok ports"
  shows "\<exists>ports' r. session_open os_bind grant k fixed ports = Some (ports', r) \<and>
    open_result os_bind grant k fixed ports ports' r"
proof (cases fixed)
  case None
  obtain ports' tried r where w: "open_loop os_bind grant k None [] ports = Some (ports', tried, r)"
      "walk_ok os_bind grant k ports (ports', tried, r)"
    using open_loop_dynamic [OF ok, of os_bind grant k "[]"] by auto
  have "open_result os_bind grant k None ports (fold session_release tried ports') r"
    using w(2) by (auto simp: open_result_def walk_ok_def release_all release_all_ok split: sum.splits)
  with w(1) None show ?thesis by (simp add: session_open_def)
next
  case (Some n)
  let ?p = "\<lparr>number = n, kind = k\<rparr>"
  have "alloc_ok (fst (claim ?p ports))" "alloc_ok (session_release ?p (fst (claim ?p ports)))"
    using ok by (simp_all add: alloc_ok_def claim_def session_release_def release_def)
  with ok Some show ?thesis
    by (auto simp: session_open_def open_loop.simps claim_one_def open_result_def Let_def claim_def
        session_release_def release_def)
qed

section \<open>The invariant of a session\<close>

definition owned :: "'net Session \<Rightarrow> Port set" where
  "owned s = {p. \<exists>i t. hget (s_tasks s) i = Some t \<and> tk_port t = p}"

text \<open>
  \<open>others\<close> is what the rest of the server holds. The session's tasks hold the rest of what the
  allocator says is in use, each a port of its own, under ids no higher than the last one given;
  a task runs for exactly one bound service until it is told to stop.
\<close>

definition session_ok :: "Port set \<Rightarrow> PortAllocator \<times> 'net Session \<Rightarrow> bool" where
  "session_ok others = (\<lambda>(ports, s).
     alloc_ok ports \<and> hm_ok (s_services s) \<and> hm_ok (s_tasks s) \<and>
     pa_in_use ports = others \<union> owned s \<and> others \<inter> owned s = {} \<and>
     (\<forall>i j t u. hget (s_tasks s) i = Some t \<longrightarrow> hget (s_tasks s) j = Some u \<longrightarrow> tk_port t = tk_port u \<longrightarrow> i = j) \<and>
     (\<forall>i t. hget (s_tasks s) i = Some t \<longrightarrow> i \<noteq> 0 \<and> i \<le> s_last_id s) \<and>
     (\<forall>name b. hget (s_services s) name = Some b \<longrightarrow>
        (\<exists>t. hget (s_tasks s) (bs_id b) = Some t \<and> \<not> tk_stop t \<and> tk_port t = bs_port b) \<and>
        (bs_id b \<in> s_udp s \<longleftrightarrow> kind (bs_port b) = Udp)) \<and>
     (\<forall>i t. hget (s_tasks s) i = Some t \<longrightarrow> \<not> tk_stop t \<longrightarrow> (\<exists>name b. hget (s_services s) name = Some b \<and> bs_id b = i)) \<and>
     (\<forall>n m b c. hget (s_services s) n = Some b \<longrightarrow> hget (s_services s) m = Some c \<longrightarrow> bs_id b = bs_id c \<longrightarrow> n = m) \<and>
     s_udp s \<subseteq> {i. \<exists>name b. hget (s_services s) name = Some b \<and> bs_id b = i})"

text \<open>Every service that asked for its port by number holds it under the grant.\<close>

definition fixed_granted :: "'net Session \<Rightarrow> bool" where
  "fixed_granted s \<longleftrightarrow> (\<forall>name b. hget (s_services s) name = Some b \<longrightarrow> bs_fixed b \<longrightarrow> allows (s_grant s) (bs_port b))"

lemma session_okD:
  assumes "session_ok others (ports, s)"
  shows "alloc_ok ports" "hm_ok (s_services s)" "hm_ok (s_tasks s)" "pa_in_use ports = others \<union> owned s"
    "others \<inter> owned s = {}"
    "\<And>i j t u. hget (s_tasks s) i = Some t \<Longrightarrow> hget (s_tasks s) j = Some u \<Longrightarrow> tk_port t = tk_port u \<Longrightarrow> i = j"
    "\<And>i t. hget (s_tasks s) i = Some t \<Longrightarrow> i \<noteq> 0 \<and> i \<le> s_last_id s"
    "\<And>name b. hget (s_services s) name = Some b \<Longrightarrow>
        (\<exists>t. hget (s_tasks s) (bs_id b) = Some t \<and> \<not> tk_stop t \<and> tk_port t = bs_port b) \<and>
        (bs_id b \<in> s_udp s \<longleftrightarrow> kind (bs_port b) = Udp)"
    "\<And>i t. hget (s_tasks s) i = Some t \<Longrightarrow> \<not> tk_stop t \<Longrightarrow> \<exists>name b. hget (s_services s) name = Some b \<and> bs_id b = i"
    "\<And>n m b c. hget (s_services s) n = Some b \<Longrightarrow> hget (s_services s) m = Some c \<Longrightarrow> bs_id b = bs_id c \<Longrightarrow> n = m"
    "\<And>i. i \<in> s_udp s \<Longrightarrow> \<exists>name b. hget (s_services s) name = Some b \<and> bs_id b = i"
  using assms by (auto simp: session_ok_def)

lemma tell_keeps [simp]:
  "s_services (tell e s) = s_services s" "s_tasks (tell e s) = s_tasks s" "s_udp (tell e s) = s_udp s"
  "s_last_id (tell e s) = s_last_id s" "s_grant (tell e s) = s_grant s" "s_key (tell e s) = s_key s"
  "owned (tell e s) = owned s"
  by (simp_all add: tell_def owned_def)

lemma tell_ok [simp]: "session_ok others (ports, tell e s) \<longleftrightarrow> session_ok others (ports, s)"
  by (simp add: session_ok_def)

lemma hget_stop_task:
  "hget (stop_task sid tasks) i = map_option (\<lambda>t. if i = sid then t\<lparr>tk_stop := True\<rparr> else t) (hget tasks i)"
  by (induction tasks) (auto simp: stop_task_def)

lemma stop_task_running:
  assumes "hget (stop_task sid tasks) i = Some t" "\<not> tk_stop t"
  shows "hget tasks i = Some t \<and> i \<noteq> sid"
proof (cases "hget tasks i")
  case (Some u)
  with assms show ?thesis by (cases "i = sid") (auto simp: hget_stop_task)
qed (use assms in \<open>simp add: hget_stop_task\<close>)

lemma stop_task_port:
  assumes "hget (stop_task sid tasks) i = Some t"
  obtains u where "hget tasks i = Some u" "tk_port u = tk_port t"
  using assms by (cases "hget tasks i") (auto simp: hget_stop_task split: if_splits)

lemma hm_ok_stop_task: "hm_ok tasks \<Longrightarrow> hm_ok (stop_task sid tasks)"
  unfolding hm_ok_def stop_task_def by (simp add: comp_def case_prod_unfold)

lemma owned_alt: "owned s = {p. \<exists>i. map_option tk_port (hget (s_tasks s) i) = Some p}"
  by (auto simp: owned_def)

lemma owned_stop: "owned (s\<lparr>s_tasks := stop_task sid (s_tasks s)\<rparr>) = owned s"
proof -
  have "map_option tk_port (hget (stop_task sid (s_tasks s)) i) = map_option tk_port (hget (s_tasks s) i)" for i
    by (cases "hget (s_tasks s) i") (simp_all add: hget_stop_task)
  then show ?thesis by (simp add: owned_alt)
qed

lemma unbind_quietly_ok:
  assumes ok: "session_ok others (ports, s)"
  shows "session_ok others (ports, fst (unbind_quietly service s))"
proof (cases "hget (s_services s) service")
  case (Some b)
  note d = session_okD [OF ok]
  let ?s = "s\<lparr>s_services := hdel service (s_services s), s_udp := s_udp s - {bs_id b},
             s_tasks := stop_task (bs_id b) (s_tasks s)\<rparr>"
  have own: "owned ?s = owned s" using owned_stop [of "bs_id b" s] by (simp add: owned_def)
  have other: "bs_id c \<noteq> bs_id b" if "hget (s_services s) n = Some c" "n \<noteq> service" for n c
    using d(10) [OF that(1) Some] that(2) by blast
  have kept: "hget (s_services ?s) n = Some c" if "hget (s_services s) n = Some c" "bs_id c \<noteq> bs_id b" for n c
    using that Some by (auto simp: hmap_simps)
  have "session_ok others (ports, ?s)"
    unfolding session_ok_def split own
  proof (intro conjI allI impI)
    show "s_udp ?s \<subseteq> {i. \<exists>name b. hget (s_services ?s) name = Some b \<and> bs_id b = i}"
    proof
      fix i assume "i \<in> s_udp ?s"
      then have i: "i \<in> s_udp s" "i \<noteq> bs_id b" by simp_all
      with d(11) [OF i(1)] kept show "i \<in> {i. \<exists>name b. hget (s_services ?s) name = Some b \<and> bs_id b = i}" by blast
    qed
    fix i t assume "hget (s_tasks ?s) i = Some t" "\<not> tk_stop t"
    then have t: "hget (s_tasks s) i = Some t" "i \<noteq> bs_id b" using stop_task_running by auto
    with d(9) [OF t(1) \<open>\<not> tk_stop t\<close>] kept show "\<exists>name b. hget (s_services ?s) name = Some b \<and> bs_id b = i" by blast
  next
    fix name c assume "hget (s_services ?s) name = Some c"
    then have c: "hget (s_services s) name = Some c" "name \<noteq> service" by (auto simp: hmap_simps split: if_splits)
    note dc = d(8) [OF c(1)] and ne = other [OF c]
    show "\<exists>t. hget (s_tasks ?s) (bs_id c) = Some t \<and> \<not> tk_stop t \<and> tk_port t = bs_port c"
      using dc ne by (auto simp: hget_stop_task)
    show "bs_id c \<in> s_udp ?s \<longleftrightarrow> kind (bs_port c) = Udp" using dc ne by simp
  next
    fix n m x y assume "hget (s_services ?s) n = Some x" "hget (s_services ?s) m = Some y" "bs_id x = bs_id y"
    then show "n = m" by (intro d(10) [of n x m y]) (auto simp: hmap_simps split: if_splits)
  next
    fix i j t u assume "hget (s_tasks ?s) i = Some t" "hget (s_tasks ?s) j = Some u" "tk_port t = tk_port u"
    then obtain t' u' where "hget (s_tasks s) i = Some t'" "hget (s_tasks s) j = Some u'" "tk_port t' = tk_port u'"
      by (auto elim!: stop_task_port)
    then show "i = j" by (rule d(6))
  next
    fix i t assume "hget (s_tasks ?s) i = Some t"
    then obtain u where "hget (s_tasks s) i = Some u" by (auto elim: stop_task_port)
    from d(7) [OF this] show "i \<noteq> 0" "i \<le> s_last_id ?s" by simp_all
  qed (use d(1-5) in \<open>simp_all add: hm_ok_stop_task\<close>)
  with Some show ?thesis by (simp add: unbind_quietly_def)
qed (use ok in \<open>simp add: unbind_quietly_def\<close>)

lemma session_unbind_eq:
  "session_unbind service s =
     (case hget (s_services s) service of
        None \<Rightarrow> (s, None)
      | Some b \<Rightarrow> (tell (EvUnbound (g_name (s_grant s)) service (bs_port b)) (fst (unbind_quietly service s)), Some (bs_port b)))"
  by (simp add: session_unbind_def unbind_quietly_def split: option.split)

lemma unbind_services:
  "s_services (fst (unbind_quietly service s)) = hdel service (s_services s)"
  "s_services (fst (session_unbind service s)) = hdel service (s_services s)"
proof -
  have "hdel service (s_services s) = s_services s" if "hget (s_services s) service = None"
    using that by (force simp: hdel_def map_of_eq_None_iff filter_id_conv)
  then show "s_services (fst (unbind_quietly service s)) = hdel service (s_services s)"
    "s_services (fst (session_unbind service s)) = hdel service (s_services s)"
    by (simp_all add: session_unbind_eq unbind_quietly_def split: option.split)
qed

lemma unbind_keeps [simp]:
  "s_grant (fst (unbind_quietly service s)) = s_grant s" "s_last_id (fst (unbind_quietly service s)) = s_last_id s"
  "s_key (fst (unbind_quietly service s)) = s_key s"
  "s_grant (fst (session_unbind service s)) = s_grant s" "s_last_id (fst (session_unbind service s)) = s_last_id s"
  "s_key (fst (session_unbind service s)) = s_key s"
  by (simp_all add: session_unbind_eq unbind_quietly_def split: option.split)

lemma session_unbind_ok:
  "session_ok others (ports, s) \<Longrightarrow> session_ok others (ports, fst (session_unbind service s))"
  using unbind_quietly_ok by (fastforce simp: session_unbind_eq split: option.split)

lemma unbind_fixed_granted:
  "fixed_granted s \<Longrightarrow> fixed_granted (fst (session_unbind service s))"
  by (auto simp: fixed_granted_def unbind_services hmap_simps split: if_splits)

text \<open>Stopping several services, one after the other.\<close>

lemma fold_unbind:
  fixes unbind :: "string \<Rightarrow> 'net Session \<Rightarrow> 'net Session"
  assumes "\<And>n s. session_ok others (ports, s) \<Longrightarrow> session_ok others (ports, unbind n s)"
    and "\<And>n s. s_services (unbind n s) = hdel n (s_services s)" "\<And>n s. s_grant (unbind n s) = s_grant s"
    and "\<And>n s. s_last_id (unbind n s) = s_last_id s" "\<And>n s. s_key (unbind n s) = s_key s"
  shows "session_ok others (ports, s) \<Longrightarrow> session_ok others (ports, fold unbind names s)"
    "hget (s_services (fold unbind names s)) = (\<lambda>n. if n \<in> set names then None else hget (s_services s) n)"
    "s_grant (fold unbind names s) = s_grant s" "s_last_id (fold unbind names s) = s_last_id s"
    "s_key (fold unbind names s) = s_key s"
  by (induction names arbitrary: s) (auto simp: assms fun_eq_iff hmap_simps)

lemmas fold_session_unbind = fold_unbind [of _ _ "\<lambda>n s. fst (session_unbind n s)",
    OF session_unbind_ok unbind_services(2) unbind_keeps(4-6)]
lemmas fold_unbind_quietly = fold_unbind [of _ _ "\<lambda>n s. fst (unbind_quietly n s)",
    OF unbind_quietly_ok unbind_services(1) unbind_keeps(1-3)]

lemma owned_hdel:
  assumes "hget (s_tasks s) sid = Some t"
    and "\<And>i u. hget (s_tasks s) i = Some u \<Longrightarrow> tk_port u = tk_port t \<Longrightarrow> i = sid"
  shows "owned (s\<lparr>s_tasks := hdel sid (s_tasks s)\<rparr>) = owned s - {tk_port t}" (is "owned ?s = _")
proof (intro set_eqI iffI)
  fix p assume "p \<in> owned ?s"
  then obtain i u where u: "hget (s_tasks s) i = Some u" "tk_port u = p" "i \<noteq> sid"
    by (auto simp: owned_def hmap_simps split: if_splits)
  with assms(2) [OF u(1)] show "p \<in> owned s - {tk_port t}" unfolding owned_def by blast
next
  fix p assume "p \<in> owned s - {tk_port t}"
  then obtain i u where u: "hget (s_tasks s) i = Some u" "tk_port u = p" "p \<noteq> tk_port t" by (auto simp: owned_def)
  with assms(1) have "i \<noteq> sid" by auto
  with u(1,2) show "p \<in> owned ?s" by (auto simp: owned_def hmap_simps)
qed

lemma task_gone_ok:
  assumes ok: "session_ok others (ports, s)"
  shows "session_ok others (task_gone sid (ports, s))"
proof (cases "\<exists>t. hget (s_tasks s) sid = Some t \<and> tk_stop t \<and> sid \<notin> s_udp s")
  case True
  then obtain t where t: "hget (s_tasks s) sid = Some t" "tk_stop t" "sid \<notin> s_udp s" by blast
  note d = session_okD [OF ok]
  let ?s = "s\<lparr>s_tasks := hdel sid (s_tasks s)\<rparr>" and ?ports = "session_release (tk_port t) ports"
  have sub: "hget (s_tasks s) i = Some u \<and> i \<noteq> sid" if "hget (s_tasks ?s) i = Some u" for i u
    using that by (auto simp: hmap_simps split: if_splits)
  have own: "owned ?s = owned s - {tk_port t}" using owned_hdel [OF t(1) d(6) [OF _ t(1)]] .
  have mine: "tk_port t \<in> owned s" using t(1) by (auto simp: owned_def)
  have "session_ok others (?ports, ?s)"
    unfolding session_ok_def split own
  proof (intro conjI allI impI)
    show "alloc_ok ?ports" using release_all_ok [OF d(1), of "[tk_port t]"] by simp
    show "pa_in_use ?ports = others \<union> (owned s - {tk_port t})"
      using release_all [of "[tk_port t]" ports] d(4,5) mine by auto
    show "others \<inter> (owned s - {tk_port t}) = {}" using d(5) by blast
    fix i j u w assume "hget (s_tasks ?s) i = Some u" "hget (s_tasks ?s) j = Some w" "tk_port u = tk_port w"
    with sub show "i = j" by (intro d(6) [of i u j w]) blast+
  next
    fix i u assume u: "hget (s_tasks ?s) i = Some u"
    show "i \<noteq> 0" "i \<le> s_last_id ?s" using d(7) [of i u] sub [OF u] by simp_all
    assume "\<not> tk_stop u"
    with d(9) [of i u] sub [OF u] show "\<exists>name b. hget (s_services ?s) name = Some b \<and> bs_id b = i" by simp
  next
    fix name b assume b: "hget (s_services ?s) name = Some b"
    then have b': "hget (s_services s) name = Some b" by simp
    show "\<exists>t. hget (s_tasks ?s) (bs_id b) = Some t \<and> \<not> tk_stop t \<and> tk_port t = bs_port b"
      using d(8) [OF b'] t(1,2) by (auto simp: hmap_simps)
    show "bs_id b \<in> s_udp ?s \<longleftrightarrow> kind (bs_port b) = Udp" using d(8) [OF b'] by simp
  next
    fix n m b c assume "hget (s_services ?s) n = Some b" "hget (s_services ?s) m = Some c" "bs_id b = bs_id c"
    then show "n = m" by (intro d(10) [of n b m c]) simp_all
  next
    show "s_udp ?s \<subseteq> {i. \<exists>name b. hget (s_services ?s) name = Some b \<and> bs_id b = i}"
      using d(11) by auto
  qed (use d(2,3) in simp_all)
  with t show ?thesis by (simp add: task_gone_def)
next
  case False
  with ok show ?thesis by (auto simp: task_gone_def split: option.split)
qed

lemma lost_services_set:
  "hm_ok (s_services s) \<Longrightarrow>
   n \<in> set (lost_services s) \<longleftrightarrow> (\<exists>b. hget (s_services s) n = Some b \<and> bs_fixed b \<and> \<not> allows (s_grant s) (bs_port b))"
  by (force simp: lost_services_def hm_ok_get)

lemma grant_ok [simp]: "session_ok others (ports, s\<lparr>s_grant := g\<rparr>) \<longleftrightarrow> session_ok others (ports, s)"
  by (simp add: session_ok_def owned_def)

lemma regrant_ok:
  assumes "session_ok others (ports, s)"
  shows "session_ok others (ports, fst (regrant policy s))"
  using assms by (auto simp: regrant_def Let_def fold_session_unbind split: option.split)

lemma regrant_fixed_granted:
  assumes "hm_ok (s_services s)" "fixed_granted s"
  shows "fixed_granted (fst (regrant policy s))"
proof -
  have "fixed_granted (fold (\<lambda>n s. fst (session_unbind n s)) (lost_services (s\<lparr>s_grant := g\<rparr>)) (s\<lparr>s_grant := g\<rparr>))" for g
    using lost_services_set [of "s\<lparr>s_grant := g\<rparr>"] assms(1)
    by (auto simp: fixed_granted_def fold_session_unbind split: if_splits)
  with assms(2) show ?thesis by (auto simp: regrant_def Let_def split: option.split)
qed

lemma next_id:
  assumes "w \<noteq> (- 1 :: u16)"
  shows "w < w + 1" "w + 1 \<noteq> 0" "unat (w + 1) = Suc (unat w)"
proof -
  have "w < - 1" using assms by (simp add: word_order.not_eq_extremum)
  from unat_inc [OF this] show "unat (w + 1) = Suc (unat w)" .
  then show "w < w + 1" "w + 1 \<noteq> 0" by (simp_all add: word_less_nat_alt) (metis unsigned_0 nat.distinct(1))
qed

text \<open>The session with one more service on a port it has just opened.\<close>

definition with_service :: "string \<Rightarrow> u16 \<Rightarrow> Port \<Rightarrow> bool \<Rightarrow> 'net Task \<Rightarrow> 'net Session \<Rightarrow> 'net Session" where
  "with_service service sid p fixed t s =
     s\<lparr>s_tasks := hput sid t (s_tasks s), s_udp := (if kind p = Udp then insert sid (s_udp s) else s_udp s), s_last_id := sid,
       s_services := hput service \<lparr>bs_id = sid, bs_port = p, bs_fixed = fixed\<rparr> (s_services s)\<rparr>"

lemma owned_with_service:
  assumes "hget (s_tasks s) sid = None"
  shows "owned (with_service service sid p fixed t s) = insert (tk_port t) (owned s)" (is "owned ?s = _")
proof -
  have tasks: "hget (s_tasks ?s) = (hget (s_tasks s))(sid \<mapsto> t)" by (simp add: with_service_def hmap_simps fun_eq_iff)
  have "p \<in> owned ?s" if "p \<in> owned s" for p
  proof -
    from that obtain i u where u: "hget (s_tasks s) i = Some u" "tk_port u = p" by (auto simp: owned_def)
    with assms have "i \<noteq> sid" by auto
    with u show ?thesis by (auto simp: owned_def tasks)
  qed
  moreover have "tk_port t \<in> owned ?s" by (auto simp: owned_def tasks)
  moreover have "owned ?s \<subseteq> insert (tk_port t) (owned s)" by (auto simp: owned_def tasks split: if_splits)
  ultimately show ?thesis by blast
qed

lemma with_service_ok:
  assumes ok: "session_ok others (ports, s)" and new: "s_last_id s < sid" "sid \<noteq> 0" "hget (s_services s) service = None"
    and t: "\<not> tk_stop t" "tk_port t = p" and p: "p \<notin> pa_in_use ports" "pa_in_use ports' = insert p (pa_in_use ports)" "alloc_ok ports'"
  shows "session_ok others (ports', with_service service sid p fixed t s)"
proof -
  note d = session_okD [OF ok]
  let ?s = "with_service service sid p fixed t s"
  have fresh: "i \<noteq> sid" if "hget (s_tasks s) i = Some u" for i u using d(7) [OF that] new(1) by auto
  then have none: "hget (s_tasks s) sid = None" by (cases "hget (s_tasks s) sid") auto
  have old: "bs_id b \<noteq> sid" if "hget (s_services s) n = Some b" for n b using d(8) [OF that] fresh by blast
  have udp: "sid \<notin> s_udp s" using d(11) old by blast
  have away: "tk_port u \<noteq> p" if "hget (s_tasks s) i = Some u" for i u
    using that p(1) d(4) by (auto simp: owned_def)
  have own: "owned ?s = insert p (owned s)" using owned_with_service [OF none] t(2) by simp
  have tasks: "hget (s_tasks ?s) = (hget (s_tasks s))(sid \<mapsto> t)"
    and services: "hget (s_services ?s) = (hget (s_services s))(service \<mapsto> \<lparr>bs_id = sid, bs_port = p, bs_fixed = fixed\<rparr>)"
    and udps: "s_udp ?s = (if kind p = Udp then insert sid (s_udp s) else s_udp s)" and last: "s_last_id ?s = sid"
    by (simp_all add: with_service_def hmap_simps fun_eq_iff)
  let ?new = "\<lparr>bs_id = sid, bs_port = p, bs_fixed = fixed\<rparr>"
  have which: "n = service \<and> b = ?new \<or> hget (s_services s) n = Some b" if "hget (s_services ?s) n = Some b" for n b
    using that by (auto simp: services split: if_splits)
  have kept: "\<exists>n b. hget (s_services ?s) n = Some b \<and> bs_id b = i" if "\<exists>n b. hget (s_services s) n = Some b \<and> bs_id b = i" for i
    using that new(3) unfolding services by (metis fun_upd_apply option.distinct(1))
  show ?thesis
    unfolding session_ok_def split own
  proof (intro conjI allI impI)
    show "pa_in_use ports' = others \<union> insert p (owned s)" "others \<inter> insert p (owned s) = {}"
      using p(1,2) d(4,5) by auto
    show "hm_ok (s_services ?s)" "hm_ok (s_tasks ?s)" "alloc_ok ports'" using d(2,3) p(3) by (simp_all add: with_service_def)
    fix i j u w assume "hget (s_tasks ?s) i = Some u" "hget (s_tasks ?s) j = Some w" "tk_port u = tk_port w"
    then show "i = j" using t(2) away d(6) unfolding tasks by (metis fun_upd_apply option.inject)
  next
    fix i u assume u: "hget (s_tasks ?s) i = Some u"
    show "i \<noteq> 0" "i \<le> s_last_id ?s"
      using u d(7) [of i u] new(1,2) unfolding tasks last by (auto split: if_splits)
    assume run: "\<not> tk_stop u"
    show "\<exists>name b. hget (s_services ?s) name = Some b \<and> bs_id b = i"
    proof (cases "i = sid")
      case True
      then show ?thesis unfolding services by (metis BoundService.select_convs(1) fun_upd_same)
    next
      case False
      with u d(9) [OF _ run, of i] kept show ?thesis by (simp add: tasks)
    qed
  next
    fix name b assume "hget (s_services ?s) name = Some b"
    from which [OF this] show "\<exists>t. hget (s_tasks ?s) (bs_id b) = Some t \<and> \<not> tk_stop t \<and> tk_port t = bs_port b"
      "bs_id b \<in> s_udp ?s \<longleftrightarrow> kind (bs_port b) = Udp"
      using t udp d(8) [of name b] old [of name b] by (auto simp: tasks udps)
  next
    fix n m b c assume b: "hget (s_services ?s) n = Some b" "hget (s_services ?s) m = Some c" "bs_id b = bs_id c"
    from which [OF b(1)] which [OF b(2)] show "n = m"
      using b(3) old [of n b] old [of m c] d(10) [of n b m c] by (elim disjE conjE) simp_all
  next
    have "\<exists>n b. hget (s_services ?s) n = Some b \<and> bs_id b = sid" by (auto simp: services)
    with d(11) kept show "s_udp ?s \<subseteq> {i. \<exists>name b. hget (s_services ?s) name = Some b \<and> bs_id b = i}"
      unfolding udps by auto
  qed
qed

text \<open>What a bind may answer, and what the state is after each answer.\<close>

definition bind_answer :: "('net :: linorder) ipnet \<Rightarrow> (IpAddr \<Rightarrow> Port \<Rightarrow> bool) \<Rightarrow> string \<Rightarrow> Kind \<Rightarrow> u16 option \<Rightarrow> 'net list \<Rightarrow>
    PortAllocator \<times> 'net Session \<Rightarrow> PortAllocator \<times> 'net Session \<Rightarrow> ServerMessage \<Rightarrow> bool" where
  "bind_answer net os_bind service k port allow = (\<lambda>(ports, s) (ports', s') answer.
     case answer of
       Bound name sid n address \<Rightarrow>
         let p = \<lparr>number = n, kind = k\<rparr> in
         name = service \<and> is_ok (validate service) \<and> hget (s_services s) service = None \<and>
         unat sid = Suc (unat (s_last_id s)) \<and> s_last_id s' = sid \<and> address = g_bind (s_grant s) \<and>
         os_bind address p \<and> p \<notin> pa_in_use ports \<and> pa_in_use ports' = insert p (pa_in_use ports) \<and>
         (case port of Some m \<Rightarrow> n = m \<and> allows (s_grant s) p | None \<Rightarrow> contains_number (pa_span ports) n) \<and>
         hget (s_services s') = (hget (s_services s))(service \<mapsto> \<lparr>bs_id = sid, bs_port = p, bs_fixed = (port \<noteq> None)\<rparr>) \<and>
         (\<exists>t. hget (s_tasks s') sid = Some t \<and> effective net allow (g_allow (s_grant s)) = Some (tk_allow t))
     | BindFailed name why \<Rightarrow>
         name = service \<and> s' = s \<and> pa_in_use ports' = pa_in_use ports \<and>
         (case why of
            BadName \<Rightarrow> \<not> is_ok (validate service)
          | NotGranted \<Rightarrow> effective net allow (g_allow (s_grant s)) = None \<or>
              (\<exists>n. port = Some n \<and> \<not> allows (s_grant s) \<lparr>number = n, kind = k\<rparr>)
          | InUse \<Rightarrow> hget (s_services s) service \<noteq> None \<or>
              (\<forall>n. (case port of Some m \<Rightarrow> n = m | None \<Rightarrow> contains_number (pa_span ports) n) \<longrightarrow>
                 \<lparr>number = n, kind = k\<rparr> \<in> pa_in_use ports \<or> \<not> os_bind (g_bind (s_grant s)) \<lparr>number = n, kind = k\<rparr>)
          | _ \<Rightarrow> False)
     | Shutdown _ \<Rightarrow> s' = s \<and> ports' = ports \<and> s_last_id s = - 1
     | _ \<Rightarrow> False)"

lemma bound_shape:
  assumes "kind p = k"
  shows "s\<lparr>s_tasks := hput sid \<lparr>tk_port = p, tk_allow = a, tk_proxy = x, tk_stop = False\<rparr> (s_tasks s),
      s_udp := (case k of Udp \<Rightarrow> insert sid (s_udp s) | Tcp \<Rightarrow> s_udp s), s_last_id := sid,
      s_services := hput service \<lparr>bs_id = sid, bs_port = p, bs_fixed = fixed\<rparr> (s_services s)\<rparr> =
    with_service service sid p fixed \<lparr>tk_port = p, tk_allow = a, tk_proxy = x, tk_stop = False\<rparr> s"
  using assms by (cases k) (simp_all add: with_service_def)

lemma session_bind_result:
  assumes ok: "session_ok others (ports, s)" and fg: "fixed_granted s"
  shows "\<exists>ports' s' answer. session_bind net os_bind service k port allow proxy (ports, s) = Some ((ports', s'), answer) \<and>
    session_ok others (ports', s') \<and> fixed_granted s' \<and> s_grant s' = s_grant s \<and> s_key s' = s_key s \<and>
    bind_answer net os_bind service k port allow (ports, s) (ports', s') answer"
proof (cases "is_ok (validate service) \<and> hget (s_services s) service = None \<and>
    effective net allow (g_allow (s_grant s)) \<noteq> None \<and> s_last_id s \<noteq> - 1")
  case True
  then obtain admitted where g: "is_ok (validate service)" "hget (s_services s) service = None"
    "effective net allow (g_allow (s_grant s)) = Some admitted" "s_last_id s \<noteq> - 1" by blast
  obtain ports' r where o: "session_open os_bind (s_grant s) k port ports = Some (ports', r)"
      "open_result os_bind (s_grant s) k port ports ports' r"
    using session_open_result [OF session_okD(1) [OF ok]] by blast
  show ?thesis
  proof (cases r)
    case (Inl why)
    have "session_ok others (ports', s)"
      using ok o(2) by (auto simp: session_ok_def open_result_def Inl)
    moreover have "bind_answer net os_bind service k port allow (ports, s) (ports', s) (BindFailed service why)"
      using o(2) by (cases port) (auto simp: bind_answer_def open_result_def Inl Let_def split: if_splits)
    ultimately show ?thesis using g o(1) Inl fg by (simp add: session_bind_def)
  next
    case (Inr p)
    let ?t = "\<lparr>tk_port = p, tk_allow = admitted, tk_proxy = proxy, tk_stop = False\<rparr>" and ?id = "s_last_id s + 1"
    let ?s = "with_service service ?id p (port \<noteq> None) ?t s"
    have r: "kind p = k" "p \<notin> pa_in_use ports" "pa_in_use ports' = insert p (pa_in_use ports)" "alloc_ok ports'"
        "os_bind (g_bind (s_grant s)) p"
        "case port of Some n \<Rightarrow> number p = n \<and> allows (s_grant s) p | None \<Rightarrow> contains_number (pa_span ports) (number p)"
      using o(2) by (simp_all add: open_result_def Inr)
    note ids = next_id [OF g(4)]
    have "session_ok others (ports', ?s)"
      using with_service_ok [OF ok ids(1,2) g(2) _ _ r(2-4)] by simp
    moreover have "fixed_granted ?s"
      using fg r(6) by (auto simp: fixed_granted_def with_service_def hmap_simps split: if_splits option.splits)
    moreover have "bind_answer net os_bind service k port allow (ports, s) (ports', tell e ?s)
        (Bound service ?id (number p) (g_bind (s_grant s)))" for e
      using g ids r by (auto simp: bind_answer_def Let_def port_eta with_service_def hmap_simps fun_eq_iff split: option.splits)
    ultimately show ?thesis
      using g o(1) Inr bound_shape [OF r(1), where s = s and sid = ?id and a = admitted and x = proxy and
        service = service and fixed = "port \<noteq> None"]
      by (simp add: session_bind_def Let_def fixed_granted_def with_service_def)
  qed
next
  case False
  then show ?thesis
    using ok fg by (auto simp: session_bind_def bind_answer_def split: option.splits)
qed

section \<open>A session's life\<close>

text \<open>
  A session among others: \<open>others\<close> are the ports the rest of the server holds. A step is a turn of the
  loop that does not end it, the end of a task that was told to stop, or another session's claim or
  release on the shared allocator. What the server reserved for itself nobody releases.
\<close>

definition bound_ids :: "ServerMessage list \<Rightarrow> u16 list" where
  "bound_ids ms = concat (map (\<lambda>m. case m of Bound _ sid _ _ \<Rightarrow> [sid] | _ \<Rightarrow> []) ms)"

definition serving_ok :: "Port set \<Rightarrow> 'net Serving \<Rightarrow> bool" where
  "serving_ok others v \<longleftrightarrow>
     session_ok others (v_ports v, v_session v) \<and> fixed_granted (v_session v) \<and>
     sorted_wrt (<) (bound_ids (v_sent v)) \<and> (\<forall>i \<in> set (bound_ids (v_sent v)). i \<le> s_last_id (v_session v)) \<and>
     bound_ids (v_pending v) = []"

inductive session_step :: "('net :: linorder) ipnet \<Rightarrow> (IpAddr \<Rightarrow> Port \<Rightarrow> bool) \<Rightarrow> Port set \<Rightarrow> Port set \<times> 'net Serving \<Rightarrow> Port set \<times> 'net Serving \<Rightarrow> bool"
  for net os_bind reserved where
  turn: "serve_turn net os_bind arm how now later v = Some (v', None) \<Longrightarrow> session_step net os_bind reserved (others, v) (others, v')"
| gone: "task_gone sid (v_ports v, v_session v) = (ports, s) \<Longrightarrow>
    session_step net os_bind reserved (others, v) (others, v\<lparr>v_ports := ports, v_session := s\<rparr>)"
| other_claim: "claim p (v_ports v) = (ports, Inr ()) \<Longrightarrow>
    session_step net os_bind reserved (others, v) (insert p others, v\<lparr>v_ports := ports\<rparr>)"
| other_dynamic: "claim_dynamic k (v_ports v) = (ports, Some p) \<Longrightarrow>
    session_step net os_bind reserved (others, v) (insert p others, v\<lparr>v_ports := ports\<rparr>)"
| other_release: "p \<in> others \<Longrightarrow> p \<notin> reserved \<Longrightarrow>
    session_step net os_bind reserved (others, v) (others - {p}, v\<lparr>v_ports := session_release p (v_ports v)\<rparr>)"

lemma bound_ids_simps [simp]:
  "bound_ids [] = []" "bound_ids (ms @ ns) = bound_ids ms @ bound_ids ns"
  "bound_ids (m # ms) = (case m of Bound _ sid _ _ \<Rightarrow> sid # bound_ids ms | _ \<Rightarrow> bound_ids ms)"
  by (simp_all add: bound_ids_def split: ServerMessage.split)

lemma regrant_pending: "bound_ids (snd (regrant policy s)) = []"
proof -
  have "bound_ids (map (\<lambda>service. BindFailed service NotGranted) lost) = []" for lost
    by (induction lost) simp_all
  then show ?thesis by (simp add: regrant_def Let_def split: option.split)
qed

lemma send_reply_ok:
  assumes "send_reply how now reply v = Some (v', ending)" "serving_ok others v"
    and "\<And>m. reply = Some m \<Longrightarrow> sorted_wrt (<) (bound_ids (v_sent v) @ bound_ids [m]) \<and>
      (\<forall>i \<in> set (bound_ids [m]). i \<le> s_last_id (v_session v))"
  shows "serving_ok others v'"
  using assms
  by (auto simp: send_reply_def serving_ok_def Let_def ball_Un simp del: bound_ids_simps(3) split: option.splits sending.splits if_splits)

lemma send_reply_quiet:
  assumes "send_reply how now (Some m) v = Some (v', ending)" "serving_ok others v" "bound_ids [m] = []"
  shows "serving_ok others v'"
  using assms(2,3) by (intro send_reply_ok [OF assms(1,2)]) (simp add: serving_ok_def)

definition message_ok :: "Port set \<Rightarrow> 'net Session \<Rightarrow> PortAllocator \<times> 'net Session \<Rightarrow> CloseReason + ServerMessage option \<Rightarrow> bool" where
  "message_ok others s st' outcome \<longleftrightarrow>
     session_ok others st' \<and> fixed_granted (snd st') \<and> s_last_id s \<le> s_last_id (snd st') \<and>
     (\<forall>name sid n a. outcome = Inr (Some (Bound name sid n a)) \<longrightarrow> s_last_id s < sid \<and> sid = s_last_id (snd st'))"

lemma handle_message_ok:
  assumes ok: "session_ok others (ports, s)" "fixed_granted s"
  shows "\<exists>st' outcome. handle_message net os_bind msg (ports, s) = Some (st', outcome) \<and> message_ok others s st' outcome"
proof (cases msg)
  case (Bind service k port allow proxy)
  obtain ports' s' answer where b: "session_bind net os_bind service k port allow proxy (ports, s) = Some ((ports', s'), answer)"
      "session_ok others (ports', s')" "fixed_granted s'"
      "bind_answer net os_bind service k port allow (ports, s) (ports', s') answer"
    using session_bind_result [OF ok] by blast
  have "message_ok others s (ports', s') (Inr (Some answer))"
    using b(2-4) by (cases answer) (auto simp: message_ok_def bind_answer_def Let_def word_less_nat_alt word_le_nat_alt)
  with b(1) show ?thesis by (simp add: handle_message_def Bind)
next
  case (Unbind service)
  then show ?thesis
    using session_unbind_ok [OF ok(1)] unbind_fixed_granted [OF ok(2)] by (simp add: handle_message_def message_ok_def)
qed (use ok in \<open>simp_all add: handle_message_def message_ok_def\<close>)

lemma serve_turn_ok:
  assumes turn: "serve_turn net os_bind arm how now later v = Some (v', ending)" and ok: "serving_ok others v"
  shows "serving_ok others v'"
proof (cases arm)
  case ArmPending
  then obtain ms m where p: "v_pending v = ms @ [m]"
    using turn by (cases "v_pending v" rule: rev_cases) (auto simp: serve_turn_def)
  then have "serving_ok others (v\<lparr>v_pending := ms\<rparr>)" "bound_ids [m] = []"
    using ok by (simp_all add: serving_ok_def del: bound_ids_simps(3))
  moreover have "send_reply how later (Some m) (v\<lparr>v_pending := ms\<rparr>) = Some (v', ending)"
    using turn by (simp add: ArmPending serve_turn_def p)
  ultimately show ?thesis using send_reply_quiet by blast
next
  case (ArmStop b)
  with turn ok show ?thesis by (auto simp: serve_turn_def Let_def serving_ok_def)
next
  case ArmDeadline
  with turn ok show ?thesis by (auto simp: serve_turn_def split: if_splits)
next
  case ArmPing
  have "serving_ok others (v\<lparr>v_nonce := v_nonce v + 1\<rparr>)" using ok by (simp add: serving_ok_def)
  moreover have "send_reply how later (Some (SPing (v_nonce v + 1))) (v\<lparr>v_nonce := v_nonce v + 1\<rparr>) = Some (v', ending)"
    using turn by (simp add: ArmPing serve_turn_def Let_def)
  ultimately show ?thesis using send_reply_quiet [where m = "SPing (v_nonce v + 1)"] by simp
next
  case (ArmPolicy policy)
  then have "v' = v\<lparr>v_session := fst (regrant policy (v_session v)), v_pending := snd (regrant policy (v_session v))\<rparr>"
    using turn by (auto simp: serve_turn_def send_reply_def split: if_splits prod.splits)
  moreover have "s_last_id (fst (regrant policy s)) = s_last_id s" for s :: "'a Session"
    by (simp add: regrant_def Let_def fold_session_unbind split: option.split)
  ultimately show ?thesis
    using ok regrant_ok regrant_fixed_granted session_okD(2) by (fastforce simp: serving_ok_def regrant_pending)
next
  case (ArmMessage read)
  show ?thesis
  proof (cases "\<exists>msg. read = Inr (Some msg)")
    case True
    then obtain msg where msg: "read = Inr (Some msg)" ..
    obtain ports s outcome where h: "handle_message net os_bind msg (v_ports v, v_session v) = Some ((ports, s), outcome)"
        "message_ok others (v_session v) (ports, s) outcome"
      using handle_message_ok [of others "v_ports v" "v_session v"] ok by (force simp: serving_ok_def)
    let ?v = "v\<lparr>v_last_heard := now, v_ports := ports, v_session := s\<rparr>"
    have v: "serving_ok others ?v" using ok h(2) by (force simp: serving_ok_def message_ok_def)
    have "sorted_wrt (<) (bound_ids (v_sent ?v) @ bound_ids [m]) \<and> (\<forall>i \<in> set (bound_ids [m]). i \<le> s_last_id (v_session ?v))"
      if "outcome = Inr (Some m)" for m
      using that ok h(2) by (cases m) (force simp: serving_ok_def message_ok_def sorted_wrt_append)+
    with v turn ArmMessage msg h(1) show ?thesis
      by (auto simp: serve_turn_def Let_def intro: send_reply_ok split: if_splits sum.splits)
  next
    case False
    with turn ArmMessage ok show ?thesis by (auto simp: serve_turn_def split: if_splits sum.splits option.splits)
  qed
qed

lemma other_claims_ok:
  assumes "session_ok others (ports, s)" "p \<notin> pa_in_use ports" "pa_in_use ports' = insert p (pa_in_use ports)" "alloc_ok ports'"
  shows "session_ok (insert p others) (ports', s)"
  using assms by (auto simp: session_ok_def)

lemma other_releases_ok:
  assumes "session_ok others (ports, s)" "p \<in> others"
  shows "session_ok (others - {p}) (session_release p ports, s)"
proof -
  have "pa_in_use (session_release p ports) = pa_in_use ports - {p}" "alloc_ok (session_release p ports)"
    using release_all [of "[p]" ports] release_all_ok [OF session_okD(1) [OF assms(1)], of "[p]"] by simp_all
  with assms show ?thesis by (auto simp: session_ok_def)
qed

lemma task_gone_keeps:
  "task_gone sid (ports, s) = (ports', s') \<Longrightarrow>
   s_services s' = s_services s \<and> s_grant s' = s_grant s \<and> s_last_id s' = s_last_id s"
  by (auto simp: task_gone_def split: option.splits if_splits)

lemma session_step_reserved:
  "session_step net os_bind reserved (others, v) (others', v') \<Longrightarrow> reserved \<subseteq> others \<Longrightarrow> reserved \<subseteq> others'"
  by (erule session_step.cases) auto

lemma session_step_ok:
  assumes "session_step net os_bind reserved (others, v) (others', v')" "serving_ok others v"
  shows "serving_ok others' v'"
  using assms
proof (cases rule: session_step.cases)
  case (turn arm how now later)
  with assms(2) show ?thesis by (auto dest: serve_turn_ok)
next
  case (gone sid ports s)
  with assms(2) task_gone_ok [of others "v_ports v" "v_session v" sid] task_gone_keeps [OF gone(3)]
  show ?thesis by (simp add: serving_ok_def fixed_granted_def)
next
  case (other_claim p ports)
  then have "p \<notin> pa_in_use (v_ports v)" "pa_in_use ports = insert p (pa_in_use (v_ports v))"
      "alloc_ok (v_ports v) \<Longrightarrow> alloc_ok ports"
    by (auto simp: claim_def alloc_ok_def split: if_splits)
  with assms(2) other_claim show ?thesis by (auto simp: serving_ok_def intro: other_claims_ok dest: session_okD(1))
next
  case (other_dynamic k ports p)
  have a: "alloc_ok (v_ports v)" using assms(2) session_okD(1) by (auto simp: serving_ok_def)
  note c = claim_dynamic_Some [OF a other_dynamic(3)]
  have "pa_in_use ports = insert p (pa_in_use (v_ports v))" using c(5) by simp
  with c(3,6) assms(2) other_dynamic show ?thesis by (auto simp: serving_ok_def intro: other_claims_ok)
next
  case (other_release p)
  with assms(2) other_releases_ok [of others "v_ports v" "v_session v" p] show ?thesis by (simp add: serving_ok_def)
qed

lemma new_serving_ok:
  "alloc_ok ports \<Longrightarrow> serving_ok (pa_in_use ports) (new_serving ports (new_session key grant) now)"
  by (simp add: serving_ok_def new_serving_def new_session_def session_ok_def owned_def fixed_granted_def)

lemma session_reaches_ok:
  assumes "alloc_ok ports"
    "(session_step net os_bind reserved)\<^sup>*\<^sup>* (pa_in_use ports, new_serving ports (new_session key grant) now) (others, v)"
  shows "serving_ok others v"
  using assms(2)
proof (induction rule: rtranclp_induct2)
  case refl
  then show ?case using new_serving_ok [OF assms(1)] .
next
  case (step others v others' v')
  then show ?case using session_step_ok by blast
qed

lemma session_reaches_reserved:
  assumes "reserved \<subseteq> pa_in_use ports"
    "(session_step net os_bind reserved)\<^sup>*\<^sup>* (pa_in_use ports, new_serving ports (new_session key grant) now) (others, v)"
  shows "reserved \<subseteq> others"
  using assms(2)
proof (induction rule: rtranclp_induct2)
  case refl
  then show ?case using assms(1) .
next
  case (step others v others' v')
  then show ?case using session_step_reserved by blast
qed

lemma task_gone_stopped:
  assumes "\<forall>i t. hget (s_tasks s) i = Some t \<longrightarrow> tk_stop t" "s_udp s = {}"
  shows "\<exists>ports' s'. fold task_gone ids (ports, s) = (ports', s') \<and> s_udp s' = {} \<and>
    hget (s_tasks s') = (\<lambda>i. if i \<in> set ids then None else hget (s_tasks s) i)"
  using assms
proof (induction ids arbitrary: ports s)
  case (Cons sid ids)
  obtain ports1 s1 where one: "task_gone sid (ports, s) = (ports1, s1)" by force
  then have "s_udp s1 = {}" "hget (s_tasks s1) = (hget (s_tasks s))(sid := None)"
    using Cons.prems by (auto simp: task_gone_def hmap_simps fun_eq_iff split: option.splits if_splits)
  note s1 = this
  have "\<forall>i t. hget (s_tasks s1) i = Some t \<longrightarrow> tk_stop t" using Cons.prems(1) s1(2) by simp
  from Cons.IH [OF this s1(1), of ports1] one s1(2) show ?case by (auto simp: fun_eq_iff)
qed simp

lemma fold_task_gone_ok: "session_ok others st \<Longrightarrow> session_ok others (fold task_gone ids st)"
proof (induction ids arbitrary: st)
  case (Cons sid ids)
  then show ?case by (cases st) (simp add: task_gone_ok)
qed simp

lemma ended_services [simp]: "s_services (ended reason s) = s_services s" by (simp add: ended_def)

lemma serve_end_stops:
  assumes "session_ok others (v_ports v, v_session v)"
  shows "session_ok others (v_ports v, v_session (serve_end reason v))"
    "hget (s_services (v_session (serve_end reason v))) = Map.empty"
    "\<forall>i t. hget (s_tasks (v_session (serve_end reason v))) i = Some t \<longrightarrow> tk_stop t"
    "s_udp (v_session (serve_end reason v)) = {}"
proof -
  let ?s = "v_session (serve_end reason v)"
  show ok: "session_ok others (v_ports v, ?s)"
    using assms by (simp add: serve_end_def Let_def fold_unbind_quietly ended_def)
  show none: "hget (s_services ?s) = Map.empty"
    by (auto simp: serve_end_def Let_def fold_unbind_quietly fun_eq_iff map_of_eq_None_iff)
  from none session_okD(9) [OF ok] show "\<forall>i t. hget (s_tasks ?s) i = Some t \<longrightarrow> tk_stop t" by fastforce
  from none session_okD(11) [OF ok] show "s_udp ?s = {}" by fastforce
qed

section \<open>Who holds a key, over a sequence of sessions\<close>

lemma claim_drop_other: "who \<noteq> other \<Longrightarrow> hget (live_sessions l) key = Some who \<Longrightarrow>
    hget (live_sessions (claim_drop key other l)) key = Some who"
  by (simp add: claim_drop_def)

section \<open>What a session promises\<close>

text \<open>
  C39: opening a port always ends, however many pool ports the host refuses, and its result is
  exact: a port of the asked kind that nobody held and the host bound, the very number asked for
  and granted, or one of the pool; or the reason none could be had, and then every port tried on
  the way has been given back.
\<close>

theorem open_ends:
  assumes "alloc_ok ports"
  shows "\<exists>ports' r. session_open os_bind grant k fixed ports = Some (ports', r) \<and>
    open_result os_bind grant k fixed ports ports' r"
  using session_open_result [OF assms] .

theorem open_ends_witness:
  "\<exists>r. session_open (\<lambda>_ p. number p \<noteq> 65535) \<lparr>g_name = ''home'', g_ports = [], g_bind = V4 0, g_allow = [] :: IpAddr list\<rparr>
     Tcp None (new_allocator \<lparr>s_first = 65535, s_last = 65535\<rparr>) = Some r \<and> snd r = Inl InUse"
proof -
  let ?a = "new_allocator \<lparr>s_first = 65535, s_last = 65535\<rparr>"
  have "alloc_ok ?a" by (rule new_allocator_ok) (simp add: span_wf_def)
  then obtain ports' r where r: "session_open (\<lambda>_ p. number p \<noteq> 65535)
      \<lparr>g_name = ''home'', g_ports = [], g_bind = V4 0, g_allow = [] :: IpAddr list\<rparr> Tcp None ?a = Some (ports', r)"
      "open_result (\<lambda>_ p. number p \<noteq> 65535) \<lparr>g_name = ''home'', g_ports = [], g_bind = V4 0, g_allow = [] :: IpAddr list\<rparr>
         Tcp None ?a ports' r"
    using open_ends by blast
  have "r = Inl InUse"
    using r(2) by (cases r) (auto simp: open_result_def new_allocator_def contains_number_def)
  with r(1) show ?thesis by simp
qed

text \<open>
  C16: a bind always answers, and every answer is exact. \<open>Bound\<close> names a service that was not bound,
  the next id, a port nobody held that is granted or of the pool, and an admitted list that is the
  service's within the client's ceiling; a failure changes neither the session nor what is in use,
  and gives the reason that holds; the answer is a shutdown only when the ids have run out.
\<close>

theorem bind_correct:
  assumes "session_ok others (ports, s)" "fixed_granted s"
  shows "\<exists>ports' s' answer. session_bind net os_bind service k port allow proxy (ports, s) = Some ((ports', s'), answer) \<and>
    bind_answer net os_bind service k port allow (ports, s) (ports', s') answer \<and>
    session_ok others (ports', s') \<and> fixed_granted s'"
  using session_bind_result [OF assms] by blast

theorem bind_correct_witness:
  "\<exists>st answer. session_bind host_nets (\<lambda>_ _. True) ''ssh'' Tcp (Some 22) [] False
     (new_allocator \<lparr>s_first = 40000, s_last = 40001\<rparr>,
      new_session (PublicKey [1]) \<lparr>g_name = ''home'', g_ports = [], g_bind = V4 0, g_allow = []\<rparr>) = Some (st, answer) \<and>
     answer = BindFailed ''ssh'' NotGranted"
proof -
  let ?a = "new_allocator \<lparr>s_first = 40000, s_last = 40001\<rparr>"
  let ?s = "new_session (PublicKey [1]) \<lparr>g_name = ''home'', g_ports = [], g_bind = V4 0, g_allow = [] :: IpAddr list\<rparr>"
  have "alloc_ok ?a" by (rule new_allocator_ok) (simp add: span_wf_def)
  then have "session_ok {} (?a, ?s)" "fixed_granted ?s"
    by (simp_all add: session_ok_def new_session_def owned_def fixed_granted_def new_allocator_def)
  then obtain ports' s' answer where b: "session_bind host_nets (\<lambda>_ _. True) ''ssh'' Tcp (Some 22) [] False (?a, ?s) =
      Some ((ports', s'), answer)" "bind_answer host_nets (\<lambda>_ _. True) ''ssh'' Tcp (Some 22) [] (?a, ?s) (ports', s') answer"
    using bind_correct by blast
  have ok: "is_ok (validate ''ssh'')" by code_simp
  have "answer = BindFailed ''ssh'' NotGranted"
    using b(2) ok by (cases answer) (auto simp: bind_answer_def new_session_def new_allocator_def allows_def Let_def split: BindFailure.splits)
  with b(1) show ?thesis by blast
qed

text \<open>
  C1: whatever the order of a session's turns, of its stopped services' late releases and of the
  other sessions' claims and releases, the ports the allocator has in use are exactly those the
  others hold and, apart from them, one for each of this session's tasks, none of them reserved;
  every service bound by number holds a granted port; and the ids the client was told strictly
  increase.
\<close>

theorem session_invariant:
  assumes "alloc_ok ports" "reserved \<subseteq> pa_in_use ports"
    "(session_step net os_bind reserved)\<^sup>*\<^sup>* (pa_in_use ports, new_serving ports (new_session key grant) now) (others, v)"
  shows "pa_in_use (v_ports v) = others \<union> owned (v_session v) \<and> others \<inter> owned (v_session v) = {} \<and>
    reserved \<inter> owned (v_session v) = {} \<and>
    inj_on (\<lambda>i. tk_port (the (hget (s_tasks (v_session v)) i))) (hkeys (s_tasks (v_session v))) \<and>
    fixed_granted (v_session v) \<and> sorted_wrt (<) (bound_ids (v_sent v))"
proof -
  note ok = session_reaches_ok [OF assms(1,3)]
  then have s: "session_ok others (v_ports v, v_session v)" by (simp add: serving_ok_def)
  have "inj_on (\<lambda>i. tk_port (the (hget (s_tasks (v_session v)) i))) (hkeys (s_tasks (v_session v)))"
    unfolding inj_on_def hkeys_dom using session_okD(6) [OF s] by fastforce
  moreover have "reserved \<inter> owned (v_session v) = {}"
    using session_reaches_reserved [OF assms(2,3)] session_okD(5) [OF s] by blast
  ultimately show ?thesis using ok session_okD(4,5) [OF s] by (simp add: serving_ok_def)
qed

theorem session_invariant_witness:
  "let a = new_allocator \<lparr>s_first = 40000, s_last = 40001\<rparr>; p = \<lparr>number = 22, kind = Tcp\<rparr>;
       v = new_serving a (new_session (PublicKey [1]) \<lparr>g_name = ''home'', g_ports = [], g_bind = V4 0, g_allow = [] :: IpAddr list\<rparr>) 0
   in pa_in_use (v_ports (v\<lparr>v_ports := fst (claim p a)\<rparr>)) = {p}"
proof -
  let ?a = "new_allocator \<lparr>s_first = 40000, s_last = 40001\<rparr>" and ?p = "\<lparr>number = 22, kind = Tcp\<rparr>"
  let ?s = "new_session (PublicKey [1]) \<lparr>g_name = ''home'', g_ports = [], g_bind = V4 0, g_allow = [] :: IpAddr list\<rparr>"
  have ok: "alloc_ok ?a" by (rule new_allocator_ok) (simp add: span_wf_def)
  have "(session_step host_nets (\<lambda>_ _. True) {})\<^sup>*\<^sup>* (pa_in_use ?a, new_serving ?a ?s 0)
      (insert ?p (pa_in_use ?a), (new_serving ?a ?s 0)\<lparr>v_ports := fst (claim ?p ?a)\<rparr>)"
    by (intro r_into_rtranclp session_step.other_claim) (simp add: new_serving_def claim_def new_allocator_def)
  from session_invariant [OF ok _ this] show ?thesis
    by (simp add: new_serving_def new_session_def owned_def new_allocator_def Let_def)
qed



end
