(* ===== verification/Rust_Float.thy ===== *)
theory Rust_Float
  imports Hawse_Prelude "HOL-Library.Log_Nat"
begin

text \<open>
  The \<open>f64\<close> arithmetic the limiter and the client's backoff use. A float is the rational it denotes, and every operation
  of the source is the exact one followed by \<open>f64\<close>, which rounds to 53 significant bits, ties to
  even. The limiter's values lie between 1/60 of a nanosecond's share of a token and the seconds
  of an instant, so neither overflow nor the subnormal range is reached and neither is modelled.
  What the proofs use of rounding is the locale \<open>rounding\<close>: it is monotone and keeps what is
  already a float.
\<close>

definition round_even :: "rat \<Rightarrow> int" where
  "round_even x =
     (let f = \<lfloor>x\<rfloor>; d = x - of_int f
      in if d < 1 / 2 then f else if 1 / 2 < d then f + 1 else if even f then f else f + 1)"

text \<open>The binary exponent of a positive rational: \<open>2 powi expo x \<le> x < 2 powi (expo x + 1)\<close>.\<close>

definition expo :: "rat \<Rightarrow> int" where
  "expo x = (if 1 \<le> x then int (floorlog 2 (nat \<lfloor>x\<rfloor>)) - 1
             else - int (floorlog 2 (nat \<lceil>1 / x\<rceil> - 1)))"

definition round_pos :: "rat \<Rightarrow> rat" where
  "round_pos x = (let u = 2 powi (expo x - 52) in of_int (round_even (x / u)) * u)"

definition f64 :: "rat \<Rightarrow> rat" where
  "f64 x = (if x = 0 then 0 else if x < 0 then - round_pos (- x) else round_pos x)"

text \<open>
  \<open>Duration::as_secs_f64\<close>, and \<open>Duration::mul_f64\<close>, which takes the product's seconds to the
  nearest nanosecond, ties to even.
\<close>

definition as_secs_f64 :: "duration \<Rightarrow> rat" where
  "as_secs_f64 d =
     f64 (f64 (of_nat (d div 1000000000)) + f64 (of_nat (d mod 1000000000) / 1000000000))"

definition mul_f64 :: "rat \<Rightarrow> duration \<Rightarrow> duration" where
  "mul_f64 r d = nat (round_even (f64 (r * as_secs_f64 d) * 1000000000))"

locale rounding =
  fixes rnd :: "rat \<Rightarrow> rat" and float :: "rat \<Rightarrow> bool"
  assumes rnd_mono: "x \<le> y \<Longrightarrow> rnd x \<le> rnd y"
    and rnd_exact: "float x \<Longrightarrow> rnd x = x"
    and rnd_float: "float (rnd x)"
    and float_int: "n \<le> 2 ^ 53 \<Longrightarrow> float (of_nat n)"
begin

lemma rnd_nat: "n \<le> 2 ^ 53 \<Longrightarrow> rnd (of_nat n) = of_nat n"
  by (simp add: rnd_exact float_int)

lemma rnd_0 [simp]: "rnd 0 = 0"
  using rnd_nat [of 0] by simp

lemma rnd_nonneg: "0 \<le> x \<Longrightarrow> 0 \<le> rnd x"
  using rnd_mono [of 0 x] by simp

lemma rnd_ge: "float y \<Longrightarrow> y \<le> x \<Longrightarrow> y \<le> rnd x"
  using rnd_mono [of y x] by (simp add: rnd_exact)

lemma rnd_le: "float y \<Longrightarrow> x \<le> y \<Longrightarrow> rnd x \<le> y"
  using rnd_mono [of x y] by (simp add: rnd_exact)

lemma rnd_ge_iff: "float y \<Longrightarrow> float x \<Longrightarrow> y \<le> rnd x \<longleftrightarrow> y \<le> x"
  by (simp add: rnd_exact)

end

section \<open>Rounding to even is a rounding\<close>

lemma round_even_mono: "x \<le> y \<Longrightarrow> round_even x \<le> round_even y"
proof -
  assume le: "x \<le> y"
  then have fl: "\<lfloor>x\<rfloor> \<le> \<lfloor>y\<rfloor>" by (rule floor_mono)
  show ?thesis
  proof (cases "\<lfloor>x\<rfloor> = \<lfloor>y\<rfloor>")
    case True
    with le show ?thesis by (auto simp: round_even_def Let_def)
  next
    case False
    with fl have "\<lfloor>x\<rfloor> + 1 \<le> \<lfloor>y\<rfloor>" by simp
    moreover have "round_even x \<le> \<lfloor>x\<rfloor> + 1" "\<lfloor>y\<rfloor> \<le> round_even y" by (auto simp: round_even_def Let_def)
    ultimately show ?thesis by linarith
  qed
qed

lemma round_even_int [simp]: "round_even (of_int n) = n"
  by (simp add: round_even_def)

lemma pow2_pos [simp]: "0 < (2 :: rat) powi k"
  by (simp add: power_int_def)

lemma pow2_le: "j \<le> k \<Longrightarrow> (2 :: rat) powi j \<le> 2 powi k"
  by (rule power_int_increasing) auto

lemma pow2_less: "(2 :: rat) powi j < 2 powi k \<Longrightarrow> j < k"
  using pow2_le [of k j] by (meson leD leI)

lemma pow2_add: "(2 :: rat) powi (j + k) = 2 powi j * 2 powi k"
  by (simp add: power_int_add)

lemma floorlog2:
  assumes "0 < n"
  shows "2 ^ (floorlog 2 n - 1) \<le> n" "Suc n \<le> 2 ^ floorlog 2 n"
  using floorlog_bounds [OF assms, of 2] by simp_all

lemma expo_bounds:
  assumes "0 < x"
  shows "2 powi expo x \<le> x" "x < 2 powi (expo x + 1)"
proof -
  have "2 powi expo x \<le> x \<and> x < 2 powi (expo x + 1)"
  proof (cases "1 \<le> x")
    case True
    let ?n = "nat \<lfloor>x\<rfloor>" and ?k = "floorlog 2 (nat \<lfloor>x\<rfloor>)"
    have n: "0 < ?n" "of_nat ?n \<le> x" "x < of_nat ?n + 1" using True floor_correct [of x] by (simp_all add: le_floor_iff)
    have b: "2 ^ (?k - 1) \<le> ?n" "Suc ?n \<le> 2 ^ ?k" by (simp_all only: floorlog2 [OF n(1)])
    have "0 < ?k" using n(1) by (simp add: floorlog_def)
    then have e: "expo x = int (?k - 1)" "expo x + 1 = int ?k" using True by (simp_all add: expo_def)
    have "of_nat (2 ^ (?k - 1)) \<le> (of_nat ?n :: rat)" "of_nat (Suc ?n) \<le> (of_nat (2 ^ ?k) :: rat)"
      by (simp_all only: of_nat_le_iff b)
    with n(2,3) have "2 ^ (?k - 1) \<le> x" "x < 2 ^ ?k"
      unfolding of_nat_power of_nat_numeral of_nat_Suc by linarith+
    then show ?thesis unfolding e(2) unfolding e(1) power_int_of_nat by simp
  next
    case False
    let ?m = "nat \<lceil>1 / x\<rceil> - 1" and ?k = "floorlog 2 (nat \<lceil>1 / x\<rceil> - 1)"
    have one: "1 < 1 / x" using False assms by (simp add: field_simps)
    then have m: "0 < ?m" by (simp add: less_ceiling_iff zero_less_diff)
    have "\<lceil>1 / x\<rceil> = int ?m + 1" using m by arith
    then have "of_int \<lceil>1 / x\<rceil> = (of_int (int ?m + 1) :: rat)" by (rule arg_cong)
    then have "of_int \<lceil>1 / x\<rceil> = (of_nat ?m :: rat) + 1" by (simp only: of_int_add of_int_of_nat_eq of_int_1)
    then have c: "of_nat ?m < 1 / x" "1 / x \<le> of_nat ?m + 1"
      using ceiling_correct [of "1 / x"] by linarith+
    have b: "2 ^ (?k - 1) \<le> ?m" "Suc ?m \<le> 2 ^ ?k" by (simp_all only: floorlog2 [OF m])
    have k: "0 < ?k" using m by (simp add: floorlog_def)
    have e: "expo x = - int ?k" "expo x + 1 = - int (?k - 1)" using False k by (simp_all add: expo_def)
    have "of_nat (2 ^ (?k - 1)) \<le> (of_nat ?m :: rat)" "of_nat (Suc ?m) \<le> (of_nat (2 ^ ?k) :: rat)"
      by (simp_all only: of_nat_le_iff b)
    with c have "2 ^ (?k - 1) < 1 / x" "1 / x \<le> 2 ^ ?k"
      unfolding of_nat_power of_nat_numeral of_nat_Suc by linarith+
    then show ?thesis unfolding e(2) unfolding e(1) power_int_minus power_int_of_nat
      using assms by (simp add: field_simps)
  qed
  then show "2 powi expo x \<le> x" "x < 2 powi (expo x + 1)" by simp_all
qed

lemma expo_mono: "0 < x \<Longrightarrow> x \<le> y \<Longrightarrow> expo x \<le> expo y"
  using expo_bounds(1) [of x] expo_bounds(2) [of y] pow2_less [of "expo x" "expo y + 1"] by linarith

text \<open>A rounded value is a whole number of the unit its argument's exponent gives.\<close>

lemma scaled:
  assumes "0 < x"
  shows "2 ^ 52 \<le> x / 2 powi (expo x - 52)" "x / 2 powi (expo x - 52) < 2 ^ 53"
proof -
  have u: "2 powi expo x = 2 ^ 52 * (2 :: rat) powi (expo x - 52)"
    "2 powi (expo x + 1) = 2 ^ 53 * (2 :: rat) powi (expo x - 52)"
    using pow2_add [of 52 "expo x - 52"] pow2_add [of 53 "expo x - 52"] by (simp_all add: add.commute)
  show "2 ^ 52 \<le> x / 2 powi (expo x - 52)" "x / 2 powi (expo x - 52) < 2 ^ 53"
    using expo_bounds [OF assms] unfolding u by (simp_all add: pos_le_divide_eq pos_divide_less_eq)
qed

lemma round_pos_bounds:
  assumes "0 < x"
  shows "2 powi expo x \<le> round_pos x" "round_pos x \<le> 2 powi (expo x + 1)"
proof -
  let ?u = "(2 :: rat) powi (expo x - 52)" and ?r = "round_even (x / 2 powi (expo x - 52))"
  have "round_even (of_int (2 ^ 52)) \<le> ?r" "?r \<le> round_even (of_int (2 ^ 53))"
    using scaled [OF assms] by (intro round_even_mono; simp)+
  then have "2 ^ 52 \<le> ?r" "?r \<le> 2 ^ 53" by (simp_all only: round_even_int)
  then have r: "(of_int (2 ^ 52) :: rat) \<le> of_int ?r" "(of_int ?r :: rat) \<le> of_int (2 ^ 53)"
    by (simp_all only: of_int_le_iff)
  have "2 powi expo x = of_int (2 ^ 52) * ?u" "2 powi (expo x + 1) = of_int (2 ^ 53) * ?u"
    using pow2_add [of 52 "expo x - 52"] pow2_add [of 53 "expo x - 52"] by (simp_all add: add.commute)
  with r show "2 powi expo x \<le> round_pos x" "round_pos x \<le> 2 powi (expo x + 1)"
    by (simp_all only: round_pos_def Let_def mult_right_mono pow2_pos less_imp_le)
qed

lemma round_pos_mono:
  assumes "0 < x" "x \<le> y"
  shows "round_pos x \<le> round_pos y"
proof (cases "expo x = expo y")
  case True
  let ?u = "(2 :: rat) powi (expo y - 52)"
  have "x / ?u \<le> y / ?u" using assms(2) by (simp add: divide_right_mono)
  then have "round_even (x / ?u) \<le> round_even (y / ?u)" by (rule round_even_mono)
  then show ?thesis by (simp add: round_pos_def True Let_def)
next
  case False
  with expo_mono [OF assms] have "expo x + 1 \<le> expo y" by simp
  then have "(2 :: rat) powi (expo x + 1) \<le> 2 powi expo y" by (rule pow2_le)
  with round_pos_bounds [of x] round_pos_bounds [of y] assms show ?thesis by linarith
qed

lemma round_pos_exact:
  assumes "0 < m" "m \<le> 2 ^ 53" and x: "x = of_int m * 2 powi k"
  shows "round_pos x = x"
proof -
  have fine: "round_pos y = y" if y: "y = of_int n * 2 powi j" and n: "0 < n" "n < 2 ^ 53" for y n j
  proof -
    have pos: "0 < y" using y n by simp
    have "(of_int n :: rat) < of_int (2 ^ 53)" using n(2) by (simp only: of_int_less_iff)
    then have "y < 2 powi (53 + j)" by (simp add: y pow2_add)
    with expo_bounds(1) [OF pos] have "expo y < 53 + j" by (meson order.strict_trans1 pow2_less)
    then have "0 \<le> j - (expo y - 52)" by simp
    then obtain i where "j - (expo y - 52) = int i" by (rule nonneg_int_cases)
    then have i: "j = expo y - 52 + int i" by simp
    have "y / 2 powi (expo y - 52) = of_int (n * 2 ^ i)"
      by (subst y, subst i) (simp add: pow2_add)
    then show ?thesis unfolding round_pos_def Let_def
      by (simp only: round_even_int) (metis nonzero_divide_eq_eq pow2_pos less_irrefl)
  qed
  show ?thesis
  proof (cases "m = 2 ^ 53")
    case True
    then have "x = of_int 1 * 2 powi (53 + k)" by (simp add: x pow2_add)
    then show ?thesis by (rule fine) simp_all
  next
    case False
    with assms show ?thesis by (intro fine [OF x]) simp_all
  qed
qed

definition is_f64 :: "rat \<Rightarrow> bool" where
  "is_f64 x \<longleftrightarrow> (\<exists>m k. x = of_int m * 2 powi k \<and> \<bar>m\<bar> \<le> 2 ^ 53)"

interpretation f64: rounding f64 is_f64
proof unfold_locales
  fix x y :: rat
  show "f64 x \<le> f64 y" if "x \<le> y"
  proof -
    have "0 \<le> round_pos z" if "0 < z" for z
      using round_pos_bounds(1) [OF that] pow2_pos by (meson less_imp_le order_trans)
    then have "x < 0 \<Longrightarrow> f64 x \<le> 0" "0 < y \<Longrightarrow> 0 \<le> f64 y" by (simp_all add: f64_def)
    then show ?thesis using that round_pos_mono [of x y] round_pos_mono [of "- y" "- x"]
      by (cases "x < 0"; cases "0 < y") (auto simp: f64_def)
  qed
  show "f64 x = x" if float: "is_f64 x"
  proof -
    obtain m k where m: "x = of_int m * 2 powi k" "\<bar>m\<bar> \<le> 2 ^ 53" using float by (auto simp: is_f64_def)
    have "0 < x \<Longrightarrow> 0 < m" "x < 0 \<Longrightarrow> m < 0"
      unfolding m(1) using pow2_pos [of k] by (simp_all add: zero_less_mult_iff mult_less_0_iff)
    then have "0 < x \<Longrightarrow> round_pos x = x" "x < 0 \<Longrightarrow> round_pos (- x) = - x"
      using m round_pos_exact [of m x k] round_pos_exact [of "- m" "- x" k] by simp_all
    then show ?thesis by (auto simp: f64_def)
  qed
  show "is_f64 (f64 x)"
  proof -
    have "is_f64 (round_pos z) \<and> is_f64 (- round_pos z)" if "0 < z" for z
    proof -
      let ?r = "round_even (z / 2 powi (expo z - 52))"
      have "round_even (of_int 0) \<le> ?r" "?r \<le> round_even (of_int (2 ^ 53))"
        using scaled [OF that] that by (intro round_even_mono; simp)+
      then have "\<bar>?r\<bar> \<le> 2 ^ 53" by (simp only: round_even_int abs_of_nonneg)
      moreover from this have "\<bar>- ?r\<bar> \<le> 2 ^ 53" by simp
      moreover have "round_pos z = of_int ?r * 2 powi (expo z - 52)"
          "- round_pos z = of_int (- ?r) * 2 powi (expo z - 52)"
        by (simp_all add: round_pos_def Let_def)
      ultimately show ?thesis unfolding is_f64_def by blast
    qed
    moreover have "is_f64 0" unfolding is_f64_def by (intro exI [of _ 0]) simp
    ultimately show ?thesis by (auto simp: f64_def)
  qed
  show "is_f64 (of_nat n)" if "n \<le> 2 ^ 53" for n
    unfolding is_f64_def by (intro exI [of _ "int n"] exI [of _ 0]) (use that in simp)
qed

section \<open>Durations\<close>

lemma as_secs_0: "as_secs_f64 0 = 0"
  by (simp add: as_secs_f64_def)

lemma as_secs_nonneg: "0 \<le> as_secs_f64 d"
  by (simp add: as_secs_f64_def f64.rnd_nonneg add_nonneg_nonneg)

lemma as_secs_whole: "n \<le> 2 ^ 53 \<Longrightarrow> as_secs_f64 (secs n) = of_nat n"
  by (simp add: as_secs_f64_def f64.rnd_nat)

text \<open>A share of at least a half and at most all of a whole number of seconds stays within them.\<close>

lemma mul_f64_bounds:
  assumes "1 / 2 \<le> r" "r \<le> 1" "n \<le> 2 ^ 52"
  shows "secs n div 2 \<le> mul_f64 r (secs n)" "mul_f64 r (secs n) \<le> secs n"
proof -
  have s: "as_secs_f64 (secs n) = of_nat n" using assms(3) by (intro as_secs_whole) simp
  have half: "is_f64 (of_nat n / 2)"
    unfolding is_f64_def using assms(3) by (intro exI [of _ "int n"] exI [of _ "- 1"]) (simp add: power_int_minus)
  have whole: "is_f64 (of_nat n)" using assms(3) by (intro f64.float_int) simp
  have "of_nat n / 2 \<le> r * of_nat n" "r * of_nat n \<le> of_nat n"
    using mult_right_mono [OF assms(1), of "of_nat n"] mult_right_mono [OF assms(2), of "of_nat n"] by simp_all
  then have lo: "of_nat n / 2 \<le> f64 (r * of_nat n)" and hi: "f64 (r * of_nat n) \<le> of_nat n"
    by (simp_all only: f64.rnd_ge [OF half] f64.rnd_le [OF whole])
  have "round_even (of_int (int (n * 500000000))) \<le> round_even (f64 (r * of_nat n) * 1000000000)"
    using lo by (intro round_even_mono) simp
  then show "secs n div 2 \<le> mul_f64 r (secs n)"
    unfolding round_even_int by (simp add: mul_f64_def s)
  have "round_even (f64 (r * of_nat n) * 1000000000) \<le> round_even (of_int (int (n * 1000000000)))"
    using hi by (intro round_even_mono) simp
  then show "mul_f64 r (secs n) \<le> secs n"
    unfolding round_even_int by (simp add: mul_f64_def s)
qed

end
