(* ===== verification/Server_Limiter.thy ===== *)
theory Server_Limiter
  imports Net_Addr Rust_Float
begin

unbundle bit_operations_syntax

text \<open>
  \<open>hawse-core/src/server/limiter.rs\<close>: failed authentications per address, as token buckets in
  \<open>f64\<close>, and the attempts under way that stand in for the tokens they may cost. The keywords
  \<open>begin\<close> and \<open>end\<close> become \<open>limiter_begin\<close> and \<open>limiter_end\<close>. Log lines are left out; the flags
  that decide when one is written are kept.
\<close>

definition WINDOW :: duration where "WINDOW = secs 60"
definition MAX_TRACKED :: nat where "MAX_TRACKED = 16384"
definition SWEEP_EVERY :: duration where "SWEEP_EVERY = secs 1"

datatype Failure = Counted | NowLimited | Untracked | Disabled

text \<open>\<open>f64::from\<close> of a \<open>u32\<close>, which is exact.\<close>

definition from_u32 :: "u32 \<Rightarrow> rat" where
  "from_u32 n = of_nat (unat n)"

record Bucket =
  tokens :: rat
  b_at :: instant
  warned :: bool

definition refill :: "rat \<Rightarrow> instant \<Rightarrow> Bucket \<Rightarrow> Bucket" where
  "refill capacity now b =
     (let elapsed = as_secs_f64 (now - b_at b);
          t = min (f64 (tokens b + f64 (f64 (capacity * elapsed) / as_secs_f64 WINDOW))) capacity
      in b\<lparr>tokens := t, b_at := now, warned := (if capacity \<le> t then False else warned b)\<rparr>)"

record Limiter =
  per_minute :: u32
  buckets :: "(IpAddr, Bucket) hmap"
  pending :: "(IpAddr, u32) hmap"
  full_warned :: bool
  last_sweep :: "instant option"

definition new_limiter :: "u32 \<Rightarrow> Limiter" where
  "new_limiter n = \<lparr>per_minute = n, buckets = [], pending = [], full_warned = False, last_sweep = None\<rparr>"

definition limiter_key :: "IpAddr \<Rightarrow> IpAddr" where
  "limiter_key ip = (case to_canonical ip of V6 v6 \<Rightarrow> V6 (v6 AND push_bit 64 (- 1)) | V4 v4 \<Rightarrow> V4 v4)"

definition capacity_of :: "Limiter \<Rightarrow> rat" where
  "capacity_of l = from_u32 (per_minute l)"

definition permits :: "IpAddr \<Rightarrow> instant \<Rightarrow> Limiter \<Rightarrow> Limiter \<times> bool" where
  "permits ip now l =
     (if per_minute l = 0 then (l, True)
      else let key = limiter_key ip;
               (l, t) = (case hget (buckets l) key of
                   Some b \<Rightarrow> (let b = refill (capacity_of l) now b
                             in (l\<lparr>buckets := hput key b (buckets l)\<rparr>, tokens b))
                 | None \<Rightarrow> (l, capacity_of l));
               p = (case hget (pending l) key of Some n \<Rightarrow> n | None \<Rightarrow> 0)
           in (l, 1 \<le> f64 (t - from_u32 p)))"

definition limiter_begin :: "IpAddr \<Rightarrow> instant \<Rightarrow> Limiter \<Rightarrow> Limiter \<times> bool" where
  "limiter_begin ip now l =
     (let (l, permitted) = permits ip now l
      in if permitted \<and> per_minute l \<noteq> 0
         then (l\<lparr>pending := hput (limiter_key ip)
                  ((case hget (pending l) (limiter_key ip) of Some n \<Rightarrow> n | None \<Rightarrow> 0) + 1) (pending l)\<rparr>, permitted)
         else (l, permitted))"

definition limiter_end :: "IpAddr \<Rightarrow> Limiter \<Rightarrow> Limiter" where
  "limiter_end ip l =
     (case hget (pending l) (limiter_key ip) of
        None \<Rightarrow> l
      | Some n \<Rightarrow>
          if n - 1 = 0 then l\<lparr>pending := hdel (limiter_key ip) (pending l)\<rparr>
          else l\<lparr>pending := hput (limiter_key ip) (n - 1) (pending l)\<rparr>)"

definition limiter_sweep :: "rat \<Rightarrow> instant \<Rightarrow> Limiter \<Rightarrow> Limiter" where
  "limiter_sweep capacity now l =
     (let kept = hretain (refill capacity now) (\<lambda>b. tokens b < capacity) (buckets l)
      in l\<lparr>last_sweep := Some now, buckets := kept,
           full_warned := (if length kept < MAX_TRACKED div 2 then False else full_warned l)\<rparr>)"

definition limiter_failed :: "IpAddr \<Rightarrow> instant \<Rightarrow> Limiter \<Rightarrow> Limiter \<times> Failure" where
  "limiter_failed ip now l =
     (if per_minute l = 0 then (l, Disabled)
      else let capacity = capacity_of l; key = limiter_key ip;
               full = (hget (buckets l) key = None \<and> MAX_TRACKED \<le> length (buckets l));
               due = (case last_sweep l of None \<Rightarrow> True | Some swept \<Rightarrow> SWEEP_EVERY \<le> now - swept);
               l = (if full \<and> due then limiter_sweep capacity now l else l)
           in if full \<and> MAX_TRACKED \<le> length (buckets l)
              then (l\<lparr>full_warned := True\<rparr>, Untracked)
              else let b = (case hget (buckets l) key of
                              Some b \<Rightarrow> b
                            | None \<Rightarrow> \<lparr>tokens = capacity, b_at = now, warned = False\<rparr>);
                       b = refill capacity now b;
                       b = b\<lparr>tokens := max (f64 (tokens b - 1)) 0\<rparr>
                   in if 1 \<le> tokens b \<or> warned b
                      then (l\<lparr>buckets := hput key b (buckets l)\<rparr>, Counted)
                      else (l\<lparr>buckets := hput key (b\<lparr>warned := True\<rparr>) (buckets l)\<rparr>, NowLimited))"

section \<open>Refilling\<close>

definition bucket_ok :: "rat \<Rightarrow> Bucket \<Rightarrow> bool" where
  "bucket_ok cap b \<longleftrightarrow> 0 \<le> tokens b \<and> tokens b \<le> cap \<and> is_f64 (tokens b)"

lemma from_u32_float: "is_f64 (from_u32 n)"
  unfolding from_u32_def by (rule f64.float_int) (use unat_bounds(3) [of n] in simp)

lemma from_u32_nonneg [simp]: "0 \<le> from_u32 n"
  unfolding from_u32_def by (rule of_nat_0_le_iff)

lemma window_secs: "as_secs_f64 WINDOW = 60"
  using f64.rnd_nat [of 60] by (simp add: as_secs_f64_def WINDOW_def)

lemma as_secs_window: "WINDOW \<le> d \<Longrightarrow> 60 \<le> as_secs_f64 d"
proof -
  assume "WINDOW \<le> d"
  then have "60 \<le> d div 1000000000" by (simp add: WINDOW_def)
  then have "of_nat 60 \<le> (of_nat (d div 1000000000) :: rat)" by (simp only: of_nat_le_iff)
  then have "60 \<le> f64 (of_nat (d div 1000000000))"
    using f64.rnd_mono [of "of_nat 60"] f64.rnd_nat [of 60] by simp
  moreover have "0 \<le> f64 (of_nat (d mod 1000000000) / 1000000000)" by (simp add: f64.rnd_nonneg)
  moreover have "is_f64 60" using f64.float_int [of 60] by simp
  ultimately show ?thesis unfolding as_secs_f64_def by (intro f64.rnd_ge) simp_all
qed

lemma refill_ok:
  assumes "bucket_ok cap b" "is_f64 cap" "0 \<le> cap"
  shows "bucket_ok cap (refill cap now b)" "tokens b \<le> tokens (refill cap now b)"
proof -
  let ?more = "f64 (f64 (cap * as_secs_f64 (now - b_at b)) / as_secs_f64 WINDOW)"
  have more: "0 \<le> ?more"
    using assms(3) as_secs_nonneg by (simp add: window_secs f64.rnd_nonneg mult_nonneg_nonneg)
  have "tokens b \<le> f64 (tokens b + ?more)"
    using assms(1) more by (intro f64.rnd_ge) (simp_all add: bucket_ok_def)
  then show "tokens b \<le> tokens (refill cap now b)"
    using assms(1) by (simp add: refill_def bucket_ok_def Let_def)
  with assms show "bucket_ok cap (refill cap now b)"
    by (auto simp: refill_def bucket_ok_def Let_def min_def f64.rnd_float)
qed

lemma refill_now:
  assumes "bucket_ok cap b" "is_f64 cap"
  shows "tokens (refill cap now (refill cap now b)) = tokens (refill cap now b)"
    "b_at b = now \<Longrightarrow> tokens (refill cap now b) = tokens b"
  using assms by (auto simp: refill_def bucket_ok_def Let_def as_secs_0 f64.rnd_exact min_def f64.rnd_float)

lemma refill_full:
  assumes "bucket_ok cap b" "is_f64 cap" "0 \<le> cap" "cap \<le> tokens b"
  shows "tokens (refill cap now b) = cap"
  using refill_ok [OF assms(1-3), of now] assms(4) by (simp add: bucket_ok_def)

lemma refill_window:
  assumes "bucket_ok cap b" "cap = of_nat n" "n < 4294967296" "b_at b + WINDOW \<le> now"
  shows "tokens (refill cap now b) = cap"
proof -
  have float: "is_f64 cap" "is_f64 (cap * 60)"
    using assms(2,3) f64.float_int [of n] f64.float_int [of "n * 60"] by simp_all
  have "60 \<le> as_secs_f64 (now - b_at b)" by (rule as_secs_window) (use assms(4) in simp)
  then have "cap * 60 \<le> f64 (cap * as_secs_f64 (now - b_at b))"
    by (intro f64.rnd_ge float) (simp add: assms(2) mult_left_mono)
  then have "cap \<le> f64 (f64 (cap * as_secs_f64 (now - b_at b)) / as_secs_f64 WINDOW)"
    by (intro f64.rnd_ge float) (simp add: window_secs)
  then have "cap \<le> f64 (tokens b + f64 (f64 (cap * as_secs_f64 (now - b_at b)) / as_secs_f64 WINDOW))"
    using assms(1) by (intro f64.rnd_ge float) (simp add: bucket_ok_def)
  then show ?thesis by (simp add: refill_def Let_def)
qed

section \<open>The invariant\<close>

definition limiter_ok :: "Limiter \<Rightarrow> bool" where
  "limiter_ok l \<longleftrightarrow> hm_ok (buckets l) \<and> hm_ok (pending l) \<and> length (buckets l) \<le> MAX_TRACKED \<and>
     (\<forall>k b. hget (buckets l) k = Some b \<longrightarrow> bucket_ok (capacity_of l) b) \<and>
     (\<forall>k n. hget (pending l) k = Some n \<longrightarrow> n \<noteq> 0 \<and> n \<le> per_minute l)"

lemma limiter_okD:
  assumes "limiter_ok l"
  shows "hm_ok (buckets l)" "hm_ok (pending l)" "length (buckets l) \<le> MAX_TRACKED"
    and "hget (buckets l) k = Some b \<Longrightarrow> bucket_ok (capacity_of l) b"
    and "hget (pending l) k = Some n \<Longrightarrow> n \<noteq> 0 \<and> n \<le> per_minute l"
  using assms by (simp_all add: limiter_ok_def)

lemma new_limiter_ok: "limiter_ok (new_limiter n)"
  by (simp add: limiter_ok_def new_limiter_def)

lemma capacity_float: "is_f64 (capacity_of l)" "0 \<le> capacity_of l"
  by (simp_all add: capacity_of_def from_u32_float)

lemmas bucket_refill = refill_ok(1) [OF _ capacity_float]

lemma length_hput_old: "hm_ok m \<Longrightarrow> hget m k = Some v' \<Longrightarrow> length (hput k v m) = length m"
  by (simp add: length_hput hget_SomeD)

lemma length_hput_new: "hm_ok m \<Longrightarrow> length (hput k v m) \<le> Suc (length m)"
  by (simp add: length_hput)

lemma permits_keeps:
  "per_minute (fst (permits ip now l)) = per_minute l" "pending (fst (permits ip now l)) = pending l"
  by (auto simp: permits_def Let_def split: option.splits)

lemma permits_ok:
  assumes ok: "limiter_ok l"
  shows "limiter_ok (fst (permits ip now l))"
proof (cases "per_minute l = 0 \<or> hget (buckets l) (limiter_key ip) = None")
  case True
  with ok show ?thesis by (auto simp: permits_def Let_def)
next
  case False
  then obtain b where b: "hget (buckets l) (limiter_key ip) = Some b" "per_minute l \<noteq> 0" by auto
  have "fst (permits ip now l) =
      l\<lparr>buckets := hput (limiter_key ip) (refill (capacity_of l) now b) (buckets l)\<rparr>"
    using b by (simp add: permits_def Let_def)
  with b ok show ?thesis
    by (auto simp: limiter_ok_def hmap_simps length_hput_old capacity_of_def bucket_refill
        intro!: refill_ok(1) from_u32_float)
qed

text \<open>Only an address whose attempts under way are fewer than its tokens is let through.\<close>

lemma permits_room:
  assumes "limiter_ok l" "snd (permits ip now l)" "per_minute l \<noteq> 0"
  shows "(case hget (pending l) (limiter_key ip) of Some n \<Rightarrow> n | None \<Rightarrow> 0) < per_minute l"
proof -
  let ?p = "case hget (pending l) (limiter_key ip) of Some n \<Rightarrow> n | None \<Rightarrow> 0"
  obtain t where t: "1 \<le> f64 (t - from_u32 ?p)" "t \<le> capacity_of l"
  proof (cases "hget (buckets l) (limiter_key ip)")
    case None
    with assms that [of "capacity_of l"] show ?thesis by (auto simp: permits_def Let_def)
  next
    case (Some b)
    have "bucket_ok (capacity_of l) (refill (capacity_of l) now b)"
      by (rule bucket_refill) (rule limiter_okD(4) [OF assms(1) Some])
    with Some assms that [of "tokens (refill (capacity_of l) now b)"] show ?thesis
      by (auto simp: permits_def Let_def bucket_ok_def)
  qed
  have "\<not> t - from_u32 ?p \<le> 0"
    using f64.rnd_mono [of "t - from_u32 ?p" 0] t(1) by auto
  with t(2) have "from_u32 ?p < from_u32 (per_minute l)" by (simp add: capacity_of_def)
  then show ?thesis by (simp only: from_u32_def of_nat_less_iff word_less_nat_alt)
qed

lemma u32_step: "p < (q :: u32) \<Longrightarrow> p + 1 \<noteq> 0 \<and> p + 1 \<le> q"
  using unat_inc [of p q] by (auto simp: word_less_nat_alt word_le_nat_alt)

lemma begin_ok:
  assumes ok: "limiter_ok l"
  shows "limiter_ok (fst (limiter_begin ip now l))"
proof -
  obtain l' p where p: "permits ip now l = (l', p)" by force
  have l': "limiter_ok l'" "per_minute l' = per_minute l" "pending l' = pending l"
    using permits_ok [OF ok, of ip now] permits_keeps [of ip now l] by (simp_all add: p)
  have "p \<Longrightarrow> per_minute l \<noteq> 0 \<Longrightarrow>
      (case hget (pending l') (limiter_key ip) of Some n \<Rightarrow> n | None \<Rightarrow> 0) < per_minute l'"
    using permits_room [OF ok, of ip now] by (simp add: p l')
  with l' u32_step [of "case hget (pending l') (limiter_key ip) of Some n \<Rightarrow> n | None \<Rightarrow> 0" "per_minute l'"]
  show ?thesis by (auto simp: limiter_begin_def p limiter_ok_def hmap_simps capacity_of_def)
qed

lemma end_ok:
  assumes ok: "limiter_ok l"
  shows "limiter_ok (limiter_end ip l)"
proof (cases "hget (pending l) (limiter_key ip)")
  case (Some n)
  with limiter_okD(5) [OF ok, of "limiter_key ip" n] have "n - 1 \<le> per_minute l"
    by (auto simp: word_le_nat_alt unat_minus_one)
  with Some ok show ?thesis by (auto simp: limiter_end_def limiter_ok_def hmap_simps capacity_of_def)
qed (simp add: limiter_end_def ok)

lemma sweep_keeps:
  "per_minute (limiter_sweep c now l) = per_minute l" "pending (limiter_sweep c now l) = pending l"
  by (simp_all add: limiter_sweep_def Let_def)

lemma limiter_sweep_ok:
  assumes ok: "limiter_ok l"
  shows "limiter_ok (limiter_sweep (capacity_of l) now l)"
    "hget (buckets l) k = None \<Longrightarrow> hget (buckets (limiter_sweep (capacity_of l) now l)) k = None"
proof -
  have "length (hretain f keep m) \<le> length m" for f keep and m :: "(IpAddr, Bucket) hmap"
    unfolding hretain_def by (metis length_filter_le length_map)
  then have "length (buckets (limiter_sweep (capacity_of l) now l)) \<le> MAX_TRACKED"
    using limiter_okD(3) [OF ok] by (auto simp: limiter_sweep_def Let_def intro: le_trans)
  then show "limiter_ok (limiter_sweep (capacity_of l) now l)"
    using ok by (auto simp: limiter_ok_def limiter_sweep_def Let_def hmap_simps capacity_of_def
        split: option.splits if_splits intro!: refill_ok(1) from_u32_float)
  show "hget (buckets (limiter_sweep (capacity_of l) now l)) k = None" if "hget (buckets l) k = None"
    using that limiter_okD(1) [OF ok] by (simp add: limiter_sweep_def Let_def hmap_simps)
qed

text \<open>The bucket a failure leaves, and the table it is put back into.\<close>

definition spent :: "rat \<Rightarrow> instant \<Rightarrow> Bucket \<Rightarrow> Bucket" where
  "spent cap now b = (let b = refill cap now b in b\<lparr>tokens := max (f64 (tokens b - 1)) 0\<rparr>)"

definition fresh_bucket :: "rat \<Rightarrow> instant \<Rightarrow> Bucket" where
  "fresh_bucket cap now = \<lparr>tokens = cap, b_at = now, warned = False\<rparr>"

lemma spent_ok: "bucket_ok cap b \<Longrightarrow> is_f64 cap \<Longrightarrow> 0 \<le> cap \<Longrightarrow> bucket_ok cap (spent cap now b)"
proof -
  assume a: "bucket_ok cap b" "is_f64 cap" "0 \<le> cap"
  note r = refill_ok(1) [OF a, of now]
  have "f64 (tokens (refill cap now b) - 1) \<le> cap"
    using r by (intro f64.rnd_le a) (simp add: bucket_ok_def)
  moreover have "is_f64 0" using f64.float_int [of 0] by simp
  ultimately show ?thesis using a(3) by (auto simp: spent_def Let_def bucket_ok_def max_def f64.rnd_float)
qed

lemma failed_cases:
  assumes ok: "limiter_ok l" and on: "per_minute l \<noteq> 0"
  obtains l1 where "limiter_failed ip now l = (l1\<lparr>full_warned := True\<rparr>, Untracked)" "limiter_ok l1"
      "per_minute l1 = per_minute l" "pending l1 = pending l" "MAX_TRACKED \<le> length (buckets l)"
      "hget (buckets l) (limiter_key ip) = None"
  | l1 b w r where "limiter_failed ip now l = (l1\<lparr>buckets := hput (limiter_key ip) (b\<lparr>warned := w\<rparr>) (buckets l1)\<rparr>, r)"
      "r \<in> {Counted, NowLimited}" "limiter_ok l1" "per_minute l1 = per_minute l" "pending l1 = pending l"
      "b = spent (capacity_of l) now (case hget (buckets l) (limiter_key ip) of
         Some b \<Rightarrow> b | None \<Rightarrow> fresh_bucket (capacity_of l) now)"
      "hget (buckets l1) (limiter_key ip) = hget (buckets l) (limiter_key ip)"
      "hget (buckets l) (limiter_key ip) = None \<Longrightarrow> length (buckets l1) < MAX_TRACKED"
      "length (buckets l) < MAX_TRACKED \<Longrightarrow> l1 = l"
proof -
  define key where "key = limiter_key ip"
  define full where "full \<longleftrightarrow> hget (buckets l) key = None \<and> MAX_TRACKED \<le> length (buckets l)"
  define due where "due \<longleftrightarrow> (case last_sweep l of None \<Rightarrow> True | Some swept \<Rightarrow> SWEEP_EVERY \<le> now - swept)"
  define l1 where "l1 = (if full \<and> due then limiter_sweep (capacity_of l) now l else l)"
  define b where "b = spent (capacity_of l) now (case hget (buckets l1) key of
         Some b \<Rightarrow> b | None \<Rightarrow> fresh_bucket (capacity_of l) now)"
  have l1: "limiter_ok l1" "per_minute l1 = per_minute l" "pending l1 = pending l"
      "hget (buckets l1) key = hget (buckets l) key"
    using limiter_sweep_ok [OF ok] ok by (auto simp: l1_def sweep_keeps full_def)
  have eq: "limiter_failed ip now l =
      (if full \<and> MAX_TRACKED \<le> length (buckets l1) then (l1\<lparr>full_warned := True\<rparr>, Untracked)
       else if 1 \<le> tokens b \<or> warned b then (l1\<lparr>buckets := hput key (b\<lparr>warned := warned b\<rparr>) (buckets l1)\<rparr>, Counted)
       else (l1\<lparr>buckets := hput key (b\<lparr>warned := True\<rparr>) (buckets l1)\<rparr>, NowLimited))"
    using on unfolding limiter_failed_def Let_def key_def [symmetric] due_def [symmetric]
    unfolding full_def [symmetric] l1_def [symmetric] fresh_bucket_def [symmetric]
    by (simp add: b_def spent_def Let_def le_max_iff_disj)
  show ?thesis
  proof (cases "full \<and> MAX_TRACKED \<le> length (buckets l1)")
    case True
    with eq l1 show ?thesis by (intro that(1) [of l1]) (auto simp: full_def key_def)
  next
    case False
    define w where "w = (if 1 \<le> tokens b \<or> warned b then warned b else True)"
    define r where "r = (if 1 \<le> tokens b \<or> warned b then Counted else NowLimited)"
    from False eq have "limiter_failed ip now l =
        (l1\<lparr>buckets := hput key (b\<lparr>warned := w\<rparr>) (buckets l1)\<rparr>, r)" 
      by (cases "1 \<le> tokens b \<or> warned b") (simp_all only: w_def r_def if_True if_False)
    moreover have "length (buckets l1) < MAX_TRACKED" if "hget (buckets l) key = None"
      using that False by (auto simp: full_def l1_def)
    moreover have "l1 = l" if "length (buckets l) < MAX_TRACKED" using that by (simp add: l1_def full_def)
    ultimately show ?thesis using l1
      by (intro that(2) [of w b l1 r]) (simp_all add: key_def r_def b_def)
  qed
qed

lemma failed_ok:
  assumes ok: "limiter_ok l"
  shows "limiter_ok (fst (limiter_failed ip now l))"
    "per_minute (fst (limiter_failed ip now l)) = per_minute l"
proof -
  have "limiter_ok (fst (limiter_failed ip now l)) \<and> per_minute (fst (limiter_failed ip now l)) = per_minute l"
  proof (cases "per_minute l = 0")
    case True
    with ok show ?thesis by (simp add: limiter_failed_def)
  next
    case False
    show ?thesis
    proof (cases rule: failed_cases [OF ok False, of ip now])
      case (1 l1)
      then show ?thesis by (auto simp: limiter_ok_def capacity_of_def)
    next
      case (2 l1 b w r)
      have "bucket_ok (capacity_of l) (case hget (buckets l) (limiter_key ip) of
          Some b \<Rightarrow> b | None \<Rightarrow> fresh_bucket (capacity_of l) now)"
        using limiter_okD(4) [OF ok]
        by (simp add: fresh_bucket_def bucket_ok_def capacity_float split: option.split)
      then have "bucket_ok (capacity_of l) b" unfolding 2(6) by (rule spent_ok) (rule capacity_float)+
      then have "bucket_ok (from_u32 (per_minute l)) (b\<lparr>warned := w\<rparr>)" by (simp add: bucket_ok_def capacity_of_def)
      moreover have "length (hput (limiter_key ip) (b\<lparr>warned := w\<rparr>) (buckets l1)) \<le> MAX_TRACKED"
        using 2(7,8) limiter_okD(1,3) [OF 2(3)] by (cases "hget (buckets l) (limiter_key ip)")
          (auto simp: length_hput_old intro: le_trans [OF length_hput_new])
      ultimately show ?thesis
        using 2(1,3,4) by (auto simp: limiter_ok_def hmap_simps capacity_of_def)
    qed
  qed
  then show "limiter_ok (fst (limiter_failed ip now l))"
    "per_minute (fst (limiter_failed ip now l)) = per_minute l" by simp_all
qed

section \<open>Sequences of operations\<close>

datatype limiter_op = LPermits IpAddr instant | LBegin IpAddr instant | LEnd IpAddr | LFailed IpAddr instant

fun limiter_step :: "limiter_op \<Rightarrow> Limiter \<Rightarrow> Limiter" where
  "limiter_step (LPermits ip now) l = fst (permits ip now l)"
| "limiter_step (LBegin ip now) l = fst (limiter_begin ip now l)"
| "limiter_step (LEnd ip) l = limiter_end ip l"
| "limiter_step (LFailed ip now) l = fst (limiter_failed ip now l)"

interpretation limiter: machine limiter_step limiter_ok
proof unfold_locales
  fix l op assume "limiter_ok l"
  then show "limiter_ok (limiter_step op l)"
    by (cases op) (simp_all add: permits_ok begin_ok end_ok failed_ok)
qed

text \<open>
  One address at one instant: \<open>Try\<close> asks \<open>begin\<close>; \<open>Fail\<close> and \<open>Succeed\<close> end one attempt that is
  under way, reporting its failure first or not. The counts are of attempts under way and of
  failures reported.
\<close>

datatype attempt = Try | Fail | Succeed

fun attempt_step :: "IpAddr \<Rightarrow> instant \<Rightarrow> attempt \<Rightarrow> Limiter \<times> nat \<times> nat \<Rightarrow> Limiter \<times> nat \<times> nat" where
  "attempt_step ip now Try (l, open_n, fails) =
     (case limiter_begin ip now l of (l, granted) \<Rightarrow> (l, (if granted then Suc open_n else open_n), fails))"
| "attempt_step ip now Fail (l, open_n, fails) =
     (if open_n = 0 then (l, open_n, fails)
      else (limiter_end ip (fst (limiter_failed ip now l)), open_n - 1, Suc fails))"
| "attempt_step ip now Succeed (l, open_n, fails) =
     (if open_n = 0 then (l, open_n, fails) else (limiter_end ip l, open_n - 1, fails))"

text \<open>What the counts mean for the state, while every attempt is at the same instant.\<close>

definition budget_ok :: "u32 \<Rightarrow> IpAddr \<Rightarrow> instant \<Rightarrow> Limiter \<times> nat \<times> nat \<Rightarrow> bool" where
  "budget_ok n ip now st \<longleftrightarrow> (case st of (l, open_n, fails) \<Rightarrow>
     limiter_ok l \<and> per_minute l = n \<and> open_n + fails \<le> unat n \<and>
     hget (pending l) (limiter_key ip) = (if open_n = 0 then None else Some (word_of_nat open_n)) \<and>
     (case hget (buckets l) (limiter_key ip) of
        None \<Rightarrow> fails = 0 \<and> length (buckets l) < MAX_TRACKED
      | Some b \<Rightarrow> b_at b = now \<and> tokens b = of_nat (unat n - fails)))"

lemma word_of_small: "k \<le> unat (n :: u32) \<Longrightarrow> unat (word_of_nat k :: u32) = k"
  using unat_bounds(3) [of n] by (simp add: unat_of_nat)

lemma from_u32_small: "k \<le> unat (n :: u32) \<Longrightarrow> from_u32 (word_of_nat k) = of_nat k"
  by (simp only: from_u32_def word_of_small)

lemma from_u32_0: "from_u32 0 = 0"
  by (simp add: from_u32_def)

lemma nat_float: "k \<le> unat (n :: u32) \<Longrightarrow> is_f64 (of_nat k)"
  by (rule f64.float_int) (use unat_bounds(3) [of n] in simp)

lemma budget_permits:
  assumes b: "budget_ok n ip now (l, open_n, fails)" and on: "n \<noteq> 0"
  shows "snd (permits ip now l) \<longleftrightarrow> open_n + fails < unat n"
    "budget_ok n ip now (fst (permits ip now l), open_n, fails)"
proof -
  let ?k = "limiter_key ip"
  have l: "limiter_ok l" "per_minute l = n" "open_n + fails \<le> unat n"
      "hget (pending l) ?k = (if open_n = 0 then None else Some (word_of_nat open_n))"
    using b by (simp_all add: budget_ok_def)
  have p: "from_u32 (case hget (pending l) ?k of Some n \<Rightarrow> n | None \<Rightarrow> 0) = of_nat open_n"
    using l(3,4) from_u32_small [of open_n n] by (simp add: from_u32_0)
  have room: "1 \<le> f64 (of_nat (unat n - fails) - of_nat open_n) \<longleftrightarrow> open_n + fails < unat n"
  proof -
    have "of_nat (unat n - fails) - of_nat open_n = (of_nat (unat n - fails - open_n) :: rat)"
      using l(3) by (simp add: of_nat_diff)
    moreover have "f64 (of_nat (unat n - fails - open_n)) = of_nat (unat n - fails - open_n)"
      by (rule f64.rnd_exact, rule nat_float [of _ n]) simp
    ultimately show ?thesis by (simp only:) (metis Suc_leI less_diff_conv of_nat_1 of_nat_le_iff
          One_nat_def Suc_le_eq add.commute zero_less_diff)
  qed
  show "snd (permits ip now l) \<longleftrightarrow> open_n + fails < unat n"
    "budget_ok n ip now (fst (permits ip now l), open_n, fails)"
  proof -
    have "(snd (permits ip now l) \<longleftrightarrow> open_n + fails < unat n) \<and> budget_ok n ip now (fst (permits ip now l), open_n, fails)"
    proof (cases "hget (buckets l) ?k")
      case None
      with b have "fails = 0" by (simp add: budget_ok_def)
      moreover have "capacity_of l = of_nat (unat n)" by (simp only: capacity_of_def from_u32_def l(2))
      ultimately show ?thesis using None room on l(2) b p by (simp add: permits_def Let_def del: of_nat_unat)
    next
      case (Some bk)
      have bk: "b_at bk = now" "tokens bk = of_nat (unat n - fails)"
        using b Some by (simp_all add: budget_ok_def)
      have t: "tokens (refill (capacity_of l) now bk) = of_nat (unat n - fails)"
        using refill_now(2) [OF limiter_okD(4) [OF l(1) Some] capacity_float(1) bk(1)] bk(2) by simp
      have "b_at (refill (capacity_of l) now bk) = now" by (simp add: refill_def Let_def)
      with Some t room on l b p permits_ok [OF l(1), of ip now] show ?thesis
        by (auto simp: permits_def Let_def budget_ok_def hmap_simps)
    qed
    then show "snd (permits ip now l) \<longleftrightarrow> open_n + fails < unat n"
      "budget_ok n ip now (fst (permits ip now l), open_n, fails)" by simp_all
  qed
qed

lemma end_effect:
  assumes "hget (pending l) (limiter_key ip) = Some (word_of_nat (Suc open_n))" "Suc open_n \<le> unat (n :: u32)"
  shows "limiter_end ip l = l\<lparr>pending := (if open_n = 0 then hdel (limiter_key ip) (pending l)
      else hput (limiter_key ip) (word_of_nat open_n) (pending l))\<rparr>"
proof -
  have "unat (word_of_nat open_n :: u32) = open_n" by (rule word_of_small [of _ n]) (use assms(2) in simp)
  then have "(word_of_nat open_n :: u32) = 0 \<longleftrightarrow> open_n = 0" by (metis unat_eq_zero)
  with assms(1) show ?thesis by (simp add: limiter_end_def)
qed

lemma budget_end:
  assumes "budget_ok n ip now (l, Suc open_n, fails)"
  shows "budget_ok n ip now (limiter_end ip l, open_n, fails)"
proof -
  have l: "limiter_ok l" "Suc open_n \<le> unat n"
      "hget (pending l) (limiter_key ip) = Some (word_of_nat (Suc open_n))"
    using assms by (simp_all add: budget_ok_def)
  from assms end_ok [OF l(1), of ip] show ?thesis unfolding end_effect [OF l(3,2)]
    by (auto simp: budget_ok_def hmap_simps split: option.splits)
qed

lemma spent_now:
  assumes "bucket_ok cap b" "is_f64 cap" "b_at b = now" "tokens b = of_nat (Suc k)" "Suc k \<le> unat (n :: u32)"
  shows "tokens (spent cap now b) = of_nat k" "b_at (spent cap now b) = now"
proof -
  have "f64 (of_nat (Suc k) - 1) = of_nat k"
    using f64.rnd_exact [OF nat_float [of k n]] assms(5) by simp
  then show "tokens (spent cap now b) = of_nat k"
    using refill_now(2) [OF assms(1-3)] assms(4) by (simp add: spent_def Let_def)
  show "b_at (spent cap now b) = now" by (simp add: spent_def refill_def Let_def)
qed

lemma budget_failed:
  assumes b: "budget_ok n ip now (l, Suc open_n, fails)"
  shows "budget_ok n ip now (limiter_end ip (fst (limiter_failed ip now l)), open_n, Suc fails)"
proof -
  let ?k = "limiter_key ip"
  let ?bk = "case hget (buckets l) ?k of Some b \<Rightarrow> b | None \<Rightarrow> fresh_bucket (capacity_of l) now"
  have l: "limiter_ok l" "per_minute l = n" "Suc open_n + fails \<le> unat n" using b by (simp_all add: budget_ok_def)
  then have on: "per_minute l \<noteq> 0" by auto
  have cap: "capacity_of l = of_nat (unat n)" by (simp only: capacity_of_def from_u32_def l(2))
  have "bucket_ok (capacity_of l) ?bk"
    using limiter_okD(4) [OF l(1)] by (simp add: fresh_bucket_def bucket_ok_def capacity_float split: option.split)
  moreover have "b_at ?bk = now" "tokens ?bk = of_nat (Suc (unat n - Suc fails))"
    using b l(3) cap by (auto simp: budget_ok_def fresh_bucket_def Suc_diff_Suc simp del: of_nat_unat of_nat_Suc split: option.splits)
  moreover have "Suc (unat n - Suc fails) \<le> unat n" using l(3) by simp
  ultimately have sp: "tokens (spent (capacity_of l) now ?bk) = of_nat (unat n - Suc fails)"
      "b_at (spent (capacity_of l) now ?bk) = now"
    by (rule spent_now [OF _ capacity_float(1)])+
  show ?thesis
  proof (cases rule: failed_cases [OF l(1) on, of ip now])
    case (1 l1)
    with b show ?thesis by (simp add: budget_ok_def)
  next
    case (2 l1 bk w r)
    let ?l = "fst (limiter_failed ip now l)"
    have pend: "hget (pending ?l) ?k = Some (word_of_nat (Suc open_n))" "Suc open_n \<le> unat n"
      using b 2(1,5) by (simp_all add: budget_ok_def)
    have ok: "limiter_ok (limiter_end ip ?l)" by (rule end_ok, rule failed_ok [OF l(1)])
    have "hget (buckets ?l) ?k = Some (bk\<lparr>warned := w\<rparr>)" "per_minute ?l = n"
      using 2(1,4) l(2) by (simp_all add: hmap_simps)
    with ok l(3) sp show ?thesis unfolding end_effect [OF pend]
      by (auto simp: budget_ok_def hmap_simps 2(6))
  qed
qed

lemma budget_begin:
  assumes b: "budget_ok n ip now (l, open_n, fails)" and on: "n \<noteq> 0"
  shows "budget_ok n ip now (attempt_step ip now Try (l, open_n, fails))"
proof -
  obtain l' g where g: "permits ip now l = (l', g)" by force
  note p = budget_permits [OF b on, unfolded g, simplified]
  have l': "per_minute l' = n" "limiter_ok (fst (limiter_begin ip now l))"
    using p(2) b begin_ok by (simp_all add: budget_ok_def)
  have "(case hget (pending l') (limiter_key ip) of Some n \<Rightarrow> n | None \<Rightarrow> 0) + 1 = word_of_nat (Suc open_n)"
    using p(2) by (simp add: budget_ok_def)
  with p l' on show ?thesis
    by (cases g) (auto simp: limiter_begin_def g budget_ok_def hmap_simps split: option.splits)
qed

lemma budget_step:
  assumes "budget_ok n ip now st" "n \<noteq> 0"
  shows "budget_ok n ip now (attempt_step ip now a st)"
proof -
  obtain l u f where st: "st = (l, u, f)" by (cases st) auto
  show ?thesis
  proof (cases a)
    case Try
    with assms show ?thesis unfolding st Try by (intro budget_begin) simp_all
  next
    case Fail
    with assms show ?thesis by (cases u) (simp_all add: st budget_failed)
  next
    case Succeed
    with assms show ?thesis by (cases u) (simp_all add: st budget_end)
  qed
qed

text \<open>
  C40: the limiter's state stays well formed through any sequence of operations: every bucket
  holds between no tokens and its capacity, no more than the bound of addresses are tracked, and
  every count of attempts under way is between 1 and the capacity, so neither its increment nor
  its decrement wraps.
\<close>

theorem limiter_well_formed:
  "limiter_ok (fold limiter_step ops (new_limiter n))"
  by (rule limiter.run_inv) (rule new_limiter_ok)

text \<open>
  C13: the budget of one address at one instant. Whatever is tried, failed and ended in whatever
  order, the attempts under way and the failures reported never exceed the configured number
  together, and another attempt is let through exactly while they are fewer: no interleaving of
  slow and fast failures gets an address more tries.
\<close>

theorem instant_budget:
  assumes "limiter_ok l" "per_minute l \<noteq> 0" "hget (buckets l) (limiter_key ip) = None"
    and "hget (pending l) (limiter_key ip) = None" "length (buckets l) < MAX_TRACKED"
  shows "case fold (attempt_step ip now) as (l, 0, 0) of (l', open_n, fails) \<Rightarrow>
    open_n + fails \<le> unat (per_minute l) \<and>
    (snd (permits ip now l') \<longleftrightarrow> open_n + fails < unat (per_minute l))"
proof -
  let ?st = "fold (attempt_step ip now) as (l, 0, 0)"
  have "budget_ok (per_minute l) ip now (l, 0, 0)" using assms by (simp add: budget_ok_def)
  then have "budget_ok (per_minute l) ip now ?st"
    using assms(2) by (induction as rule: rev_induct) (simp_all add: budget_step)
  with budget_permits(1) [OF _ assms(2)] show ?thesis
    by (cases ?st) (auto simp: budget_ok_def)
qed

theorem instant_budget_witness:
  "case fold (attempt_step (V4 9) 5) [Try, Try, Fail, Try] (new_limiter 2, 0, 0) of (l', open_n, fails) \<Rightarrow>
     open_n + fails \<le> 2 \<and> (snd (permits (V4 9) 5 l') \<longleftrightarrow> open_n + fails < 2)"
  using instant_budget [OF new_limiter_ok, of 2 "V4 9" 5 "[Try, Try, Fail, Try]"]
  by (simp add: new_limiter_def MAX_TRACKED_def)

text \<open>
  C25: an address is never refused for good. A minute after its bucket was last touched, with no
  attempt under way, its bucket is full again and it is let through.
\<close>

theorem limited_address_recovers:
  assumes ok: "limiter_ok l" and pend: "hget (pending l) (limiter_key ip) = None"
    and since: "\<And>b. hget (buckets l) (limiter_key ip) = Some b \<Longrightarrow> b_at b + WINDOW \<le> now"
  shows "snd (permits ip now l)"
proof (cases "per_minute l = 0")
  case False
  let ?n = "unat (per_minute l)"
  have cap: "capacity_of l = of_nat ?n" by (simp only: capacity_of_def from_u32_def)
  have "1 \<le> ?n" using False by (metis One_nat_def Suc_leI unat_gt_0)
  then have "1 \<le> (of_nat ?n :: rat)" by (metis of_nat_1 of_nat_le_iff)
  then have one: "1 \<le> f64 (capacity_of l - from_u32 0)"
    using f64.rnd_exact [OF capacity_float(1), of l] unfolding cap [symmetric] by (simp add: from_u32_0)
  show ?thesis
  proof (cases "hget (buckets l) (limiter_key ip)")
    case None
    with one pend False show ?thesis by (simp add: permits_def Let_def)
  next
    case (Some b)
    have "tokens (refill (capacity_of l) now b) = capacity_of l"
      by (rule refill_window [OF limiter_okD(4) [OF ok Some] cap unat_bounds(3) since [OF Some]])
    with Some one pend False show ?thesis by (simp add: permits_def Let_def)
  qed
qed (simp add: permits_def)

theorem limited_address_recovers_witness:
  "snd (permits (V4 9) (secs 61) \<lparr>per_minute = 5,
     buckets = [(V4 9, \<lparr>tokens = 0, b_at = secs 1, warned = True\<rparr>)],
     pending = [], full_warned = False, last_sweep = None\<rparr>)"
proof -
  have "is_f64 0" using f64.float_int [of 0] by simp
  then show ?thesis
    by (intro limited_address_recovers)
       (auto simp: limiter_ok_def hm_ok_def MAX_TRACKED_def bucket_ok_def capacity_of_def limiter_key_def
          WINDOW_def split: if_splits)
qed

text \<open>
  A sweep is invisible. At its own instant every address is permitted after it exactly when
  it was before, and a bucket it drops would have been full at every later instant too, so that
  dropping it changes no answer then either.
\<close>

theorem sweep_invisible:
  fixes now :: instant
  assumes ok: "limiter_ok l"
  defines "l' \<equiv> limiter_sweep (capacity_of l) now l"
  shows "limiter_ok l' \<and> (snd (permits ip now l') \<longleftrightarrow> snd (permits ip now l)) \<and>
    (hget (buckets l') (limiter_key ip) = None \<longrightarrow> (snd (permits ip later l') \<longleftrightarrow>
       (case hget (buckets l) (limiter_key ip) of
          None \<Rightarrow> snd (permits ip later l)
        | Some b \<Rightarrow> snd (permits ip later (l\<lparr>buckets := hput (limiter_key ip) (refill (capacity_of l) now b) (buckets l)\<rparr>)))))"
proof -
  let ?k = "limiter_key ip" and ?c = "capacity_of l"
  have keep: "capacity_of l' = ?c" "pending l' = pending l" "per_minute l' = per_minute l"
    by (simp_all add: l'_def sweep_keeps capacity_of_def)
  have get: "hget (buckets l') ?k = (case hget (buckets l) ?k of None \<Rightarrow> None
      | Some b \<Rightarrow> if tokens (refill ?c now b) < ?c then Some (refill ?c now b) else None)"
    using limiter_okD(1) [OF ok] by (simp add: l'_def limiter_sweep_def Let_def hmap_simps)
  have ok': "limiter_ok l'" unfolding l'_def by (rule limiter_sweep_ok [OF ok])
  show ?thesis
  proof (cases "hget (buckets l) ?k")
    case None
    with get keep ok' show ?thesis by (simp add: permits_def Let_def)
  next
    case (Some b)
    have b: "bucket_ok ?c b" by (rule limiter_okD(4) [OF ok Some])
    note r = refill_ok(1) [OF b capacity_float, of now]
    have full: "tokens (refill ?c now b) = ?c" if "\<not> tokens (refill ?c now b) < ?c"
      using that r by (simp add: bucket_ok_def)
    then have "\<not> tokens (refill ?c now b) < ?c \<Longrightarrow> tokens (refill ?c later (refill ?c now b)) = ?c"
      using refill_full [OF r capacity_float] by simp
    with Some get keep ok' full refill_now(1) [OF b capacity_float(1)] show ?thesis
      by (auto simp: permits_def Let_def hmap_simps capacity_of_def)
  qed
qed

theorem sweep_invisible_witness:
  "snd (permits (V4 9) 5 (limiter_sweep 5 5 (new_limiter 5))) \<longleftrightarrow> snd (permits (V4 9) 5 (new_limiter 5))"
  using sweep_invisible [OF new_limiter_ok, of 5 5 "V4 9" 6]
  by (simp add: capacity_of_def from_u32_def new_limiter_def)

end
