(* ===== verification/Server_Run.thy ===== *)
theory Server_Run
  imports Server_Session Server_Limiter
begin

text \<open>
  \<open>hawse-core/src/server/mod.rs\<close> and the opening of \<open>session.rs\<close>: what a server is built from, how it
  admits a connection over QUIC or TCP, and what \<open>run\<close> does from the handshake to the session. What
  the peer and the host did is an argument: whether TLS completed, which key it proved, what the
  greeting came to, whether the welcome was sent. \<open>Shared\<close> is passed along explicitly.
\<close>

definition TCP_HANDSHAKES :: nat where "TCP_HANDSHAKES = 256"
definition ACCEPT_BACKOFF :: duration where "ACCEPT_BACKOFF = millis 100"
definition ENFILE :: int where "ENFILE = 23"
definition EMFILE :: int where "EMFILE = 24"

text \<open>An I/O error, by its errno if it has one.\<close>

definition out_of_descriptors :: "int option \<Rightarrow> bool" where
  "out_of_descriptors raw_os_error \<longleftrightarrow> raw_os_error = Some ENFILE \<or> raw_os_error = Some EMFILE"

record 'net Shared =
  sh_policy :: "'net Policy"
  sh_ports :: PortAllocator
  sh_buffer :: nat
  sh_udp_sessions :: nat
  sh_streams :: nat
  sh_keys :: KeyTable
  sh_limiter :: Limiter
  sh_events :: "Event list"

definition shared_permits :: "IpAddr \<Rightarrow> instant \<Rightarrow> 'net Shared \<Rightarrow> 'net Shared \<times> bool" where
  "shared_permits ip now sh =
     (case permits ip now (sh_limiter sh) of (l, ok) \<Rightarrow> (sh\<lparr>sh_limiter := l\<rparr>, ok))"

definition auth_failed :: "IpAddr \<Rightarrow> instant \<Rightarrow> 'net Shared \<Rightarrow> 'net Shared" where
  "auth_failed ip now sh = sh\<lparr>sh_limiter := fst (limiter_failed ip now (sh_limiter sh))\<rparr>"

text \<open>The hold a TCP connection has until the policy names its key is known by the address.\<close>

definition admit :: "IpAddr \<Rightarrow> instant \<Rightarrow> 'net Shared \<Rightarrow> 'net Shared \<times> IpAddr option" where
  "admit ip now sh =
     (case limiter_begin ip now (sh_limiter sh) of
        (l, begun) \<Rightarrow> (sh\<lparr>sh_limiter := l\<rparr>, if begun then Some ip else None))"

definition unproven_drop :: "IpAddr \<Rightarrow> 'net Shared \<Rightarrow> 'net Shared" where
  "unproven_drop ip sh = sh\<lparr>sh_limiter := limiter_end ip (sh_limiter sh)\<rparr>"

section \<open>Building a server\<close>

record Tuning =
  tn_idle_timeout :: duration
  tn_congestion :: Congestion
  tn_stream_window :: u32
  tn_connection_window :: u64
  tn_max_streams :: u32

datatype ServerError =
    IdentityErr
  | TlsErr
  | QuicErr
  | Listen SocketAddr
  | Window u64
  | Buffer u64

text \<open>
  What the host and the libraries decide while a server is built: whether the identity gives a
  certificate, whether TLS takes it, where QUIC listens, and whether the TCP port can be bound.
\<close>

record Host =
  h_certificate :: bool
  h_tls :: bool
  h_quic_listen :: "SocketAddr \<Rightarrow> Tuning \<Rightarrow> SocketAddr option"
  h_bind_tcp :: "IpAddr \<Rightarrow> u16 \<Rightarrow> bool"

definition bytes_of :: "ByteSize \<Rightarrow> u64" where
  "bytes_of sz = (case sz of ByteSize n \<Rightarrow> n)"

record 'net Server =
  sv_local_addr :: SocketAddr
  sv_tcp :: bool
  sv_tuning :: Tuning
  sv_quic_retry :: bool
  sv_shared :: "'net Shared"

text \<open>\<open>usize\<close> is 64 bits wide, so a \<open>u64\<close> always fits it and \<open>Buffer\<close> is not reached.\<close>

definition server_bind :: "Host \<Rightarrow> 'net ServerConfig \<Rightarrow> ServerError + 'net Server" where
  "server_bind host cfg =
     (let window = unat (bytes_of (stream_window (sc_transport cfg)))
      in if 2 ^ 32 \<le> window then Inl (Window (bytes_of (stream_window (sc_transport cfg))))
      else let tuning = \<lparr>tn_idle_timeout = idle_timeout (sc_transport cfg), tn_congestion = congestion (sc_transport cfg),
                 tn_stream_window = word_of_nat window, tn_connection_window = bytes_of (connection_window (sc_transport cfg)),
                 tn_max_streams = streams_in_effect (limits cfg)\<rparr>
           in if \<not> h_certificate host then Inl IdentityErr
           else if \<not> h_tls host then Inl TlsErr
           else case h_quic_listen host (sc_listen cfg) tuning of
                  None \<Rightarrow> Inl QuicErr
                | Some bound \<Rightarrow>
                    if tcp_fallback (sc_transport cfg) \<and> \<not> h_bind_tcp host (sa_ip bound) (sa_port bound)
                    then Inl (Listen bound)
                    else Inr \<lparr>sv_local_addr = bound, sv_tcp = tcp_fallback (sc_transport cfg), sv_tuning = tuning,
                           sv_quic_retry = quic_retry cfg,
                           sv_shared = \<lparr>sh_policy = from_config cfg,
                             sh_ports = reserve (sa_port bound) (new_allocator (dynamic_ports cfg)),
                             sh_buffer = unat (bytes_of (buffer (sc_transport cfg))),
                             sh_udp_sessions = unat (udp_sessions_per_service (limits cfg)),
                             sh_streams = unat (streams_in_effect (limits cfg)) - 1,
                             sh_keys = \<lparr>live_sessions = [], live_cancelled = {}, live_done = {}\<rparr>,
                             sh_limiter = new_limiter (auth_failures_per_minute (limits cfg)),
                             sh_events = []\<rparr>\<rparr>)"

section \<open>Accepting\<close>

text \<open>
  The two arms of \<open>serve\<close>'s loop. The first says what becomes of an arriving QUIC connection; the
  second of a TCP accept, which holds a handshake slot from before the accept. \<open>None\<close>: the arm waits,
  for the pause after a shortage of descriptors or for a slot.
\<close>

datatype quic_verdict = Refused | Retried | Spawned

definition quic_arm :: "bool \<Rightarrow> SocketAddr \<Rightarrow> bool \<Rightarrow> instant \<Rightarrow> 'net Shared \<Rightarrow> 'net Shared \<times> quic_verdict" where
  "quic_arm retry remote validated now sh =
     (case shared_permits (sa_ip remote) now sh of
        (sh, ok) \<Rightarrow> (sh, if \<not> ok then Refused else if retry \<and> \<not> validated then Retried else Spawned))"

definition quic_handshake_failed :: "SocketAddr \<Rightarrow> bool \<Rightarrow> instant \<Rightarrow> 'net Shared \<Rightarrow> 'net Shared" where
  "quic_handshake_failed remote validated now sh = (if validated then auth_failed (sa_ip remote) now sh else sh)"

record Accepting =
  free_slots :: nat
  resume_tcp :: "instant option"

datatype accepted = Accepted SocketAddr | AcceptErr "int option"

definition tcp_arm :: "accepted \<Rightarrow> instant \<Rightarrow> Accepting \<times> 'net Shared \<Rightarrow> ((Accepting \<times> 'net Shared) \<times> SocketAddr option) option" where
  "tcp_arm accepted now = (\<lambda>(a, sh).
     (if free_slots a = 0 \<or> (case resume_tcp a of Some t \<Rightarrow> now < t | None \<Rightarrow> False) then None
      else Some (case accepted of
          AcceptErr e \<Rightarrow>
            ((if out_of_descriptors e then a\<lparr>resume_tcp := Some (now + ACCEPT_BACKOFF)\<rparr> else a, sh), None)
        | Accepted remote \<Rightarrow>
            let a = a\<lparr>resume_tcp := None\<rparr>
            in case admit (sa_ip remote) now sh of
                 (sh, None) \<Rightarrow> ((a, sh), None)
               | (sh, Some _) \<Rightarrow> ((a\<lparr>free_slots := free_slots a - 1\<rparr>, sh), Some remote))))"

text \<open>What a TCP connection gives back when its hold drops: the slot and the token set aside.\<close>

definition hold_drop :: "IpAddr \<Rightarrow> Accepting \<times> 'net Shared \<Rightarrow> Accepting \<times> 'net Shared" where
  "hold_drop ip = (\<lambda>(a, sh). (a\<lparr>free_slots := Suc (free_slots a)\<rparr>, unproven_drop ip sh))"

section \<open>From the handshake to the session\<close>

text \<open>
  What \<open>run\<close> comes to before its session: the connection is closed for a reason, or a session starts
  under a grant. \<open>run_key\<close> is its start, \<open>run_greeted\<close> what follows the greeting, \<open>run_claim\<close> the stake
  on the key, \<open>run_welcome\<close> the wait for the session superseded and the welcome.
\<close>

datatype 'net greeting = GreetCancelled | GreetLost | Greeted "'net ClientMessage option"

definition run_key :: "PublicKey option \<Rightarrow> IpAddr \<Rightarrow> instant \<Rightarrow> 'net Shared \<Rightarrow> 'net Shared \<times> (CloseReason + PublicKey \<times> bool)" where
  "run_key peer_key ip now sh =
     (case peer_key of
        None \<Rightarrow> (auth_failed ip now sh, Inl NoKey)
      | Some key \<Rightarrow> (sh, Inr (key, lookup (sh_policy sh) key = None)))"

definition denied :: "PublicKey \<Rightarrow> SocketAddr \<Rightarrow> 'net Shared \<Rightarrow> 'net Shared" where
  "denied key remote sh = sh\<lparr>sh_events := sh_events sh @ [EvDenied key remote]\<rparr>"

definition connected :: "string \<Rightarrow> SocketAddr \<Rightarrow> TransportKind \<Rightarrow> string \<Rightarrow> 'net Shared \<Rightarrow> 'net Shared" where
  "connected client remote transport agent sh =
     sh\<lparr>sh_events := sh_events sh @ [Connected client remote transport agent]\<rparr>"

definition run_greeted :: "PublicKey \<Rightarrow> bool \<Rightarrow> SocketAddr \<Rightarrow> 'net greeting \<Rightarrow> instant \<Rightarrow> 'net Shared \<Rightarrow>
    'net Shared \<times> (CloseReason + 'net Grant \<times> string)" where
  "run_greeted key stranger remote greeting now sh =
     (case greeting of
        GreetCancelled \<Rightarrow> (sh, Inl CShutdown)
      | GreetLost \<Rightarrow> (if stranger then auth_failed (sa_ip remote) now sh else sh, Inl NoHello)
      | Greeted (Some (Hello _ agent)) \<Rightarrow>
          (case lookup (sh_policy sh) key of
             None \<Rightarrow> (denied key remote (auth_failed (sa_ip remote) now sh), Inl CDenied)
           | Some grant \<Rightarrow> (sh, Inr (grant, printable agent)))
      | Greeted _ \<Rightarrow> (if stranger then auth_failed (sa_ip remote) now sh else sh, Inl BadHello))"

definition run_claim :: "PublicKey \<Rightarrow> nat \<Rightarrow> 'net Shared \<Rightarrow> 'net Shared \<times> nat option" where
  "run_claim key who sh =
     (case stake key who (sh_keys sh) of
        (keys, None) \<Rightarrow> (sh\<lparr>sh_keys := keys\<rparr>, None)
      | (keys, Some previous) \<Rightarrow>
          (sh\<lparr>sh_keys := keys\<lparr>live_cancelled := insert previous (live_cancelled keys)\<rparr>\<rparr>, Some previous))"

definition run_drop :: "PublicKey \<Rightarrow> nat \<Rightarrow> 'net Shared \<Rightarrow> 'net Shared" where
  "run_drop key who sh = sh\<lparr>sh_keys := claim_drop key who (sh_keys sh)\<rparr>"

text \<open>\<open>waited\<close>: whether the wait for a superseded session was cut short by the server's shutdown.\<close>

definition run_welcome :: "string \<Rightarrow> PublicKey \<Rightarrow> nat \<Rightarrow> nat option \<Rightarrow> SocketAddr \<Rightarrow> TransportKind \<Rightarrow> 'net Grant \<Rightarrow> string \<Rightarrow>
    bool \<Rightarrow> bool \<Rightarrow> 'net Shared \<Rightarrow> 'net Shared \<times> (CloseReason + ServerMessage \<times> 'net Session)" where
  "run_welcome AGENT key who previous remote transport grant agent cancelled sent sh =
     (if previous \<noteq> None \<and> cancelled then (run_drop key who sh, Inl CShutdown)
      else if \<not> sent then (run_drop key who sh, Inl ControlClosed)
      else (connected (g_name grant) remote transport agent sh,
            Inr (Welcome AGENT (g_name grant), new_session key grant)))"

section \<open>Connections and attempts\<close>

text \<open>
  The TCP connections of one address: one arrives, one fails its TLS handshake, or one is run to the
  point where its hold drops. The last number counts the connections under way.
\<close>

datatype 'net conn_op = Arrive | TlsFailed | Spoke "PublicKey option" "'net greeting"

definition run_opening :: "PublicKey option \<Rightarrow> SocketAddr \<Rightarrow> 'net greeting \<Rightarrow> instant \<Rightarrow> 'net Shared \<Rightarrow>
    'net Shared \<times> (CloseReason + PublicKey \<times> 'net Grant \<times> string)" where
  "run_opening peer_key remote greeting now sh =
     (case run_key peer_key (sa_ip remote) now sh of
        (sh, Inl why) \<Rightarrow> (sh, Inl why)
      | (sh, Inr (key, stranger)) \<Rightarrow>
          (case run_greeted key stranger remote greeting now sh of
             (sh, Inl why) \<Rightarrow> (sh, Inl why)
           | (sh, Inr (grant, agent)) \<Rightarrow> (sh, Inr (key, grant, agent))))"

fun conn_step :: "SocketAddr \<Rightarrow> instant \<Rightarrow> 'net conn_op \<Rightarrow> (Accepting \<times> 'net Shared) \<times> nat \<Rightarrow> (Accepting \<times> 'net Shared) \<times> nat" where
  "conn_step remote now Arrive (st, n) =
     (case tcp_arm (Accepted remote) now st of
        None \<Rightarrow> (st, n) | Some (st, None) \<Rightarrow> (st, n) | Some (st, Some _) \<Rightarrow> (st, Suc n))"
| "conn_step remote now TlsFailed ((a, sh), n) =
     (if n = 0 then ((a, sh), n) else (hold_drop (sa_ip remote) (a, auth_failed (sa_ip remote) now sh), n - 1))"
| "conn_step remote now (Spoke peer_key greeting) ((a, sh), n) =
     (if n = 0 then ((a, sh), n)
      else (hold_drop (sa_ip remote) (a, fst (run_opening peer_key remote greeting now sh)), n - 1))"

text \<open>What each is to the limiter: only a stranger that was not cut off by a shutdown has failed.\<close>

fun attempt_of :: "'net Policy \<Rightarrow> 'net conn_op \<Rightarrow> attempt" where
  "attempt_of policy Arrive = Try"
| "attempt_of policy TlsFailed = Fail"
| "attempt_of policy (Spoke None greeting) = Fail"
| "attempt_of policy (Spoke (Some key) greeting) =
     (if greeting = GreetCancelled \<or> lookup policy key \<noteq> None then Succeed else Fail)"

lemma greeting_cases [case_names cancelled lost hello bad]:
  obtains "g = GreetCancelled" | "g = GreetLost" | w agent where "g = Greeted (Some (Hello w agent))"
  | m where "g = Greeted m" "\<And>w agent. m \<noteq> Some (Hello w agent)"
proof (cases g)
  case (Greeted m)
  then show ?thesis using that(3,4) by (cases "\<exists>w agent. m = Some (Hello w agent)") auto
qed (use that in auto)

lemma run_opening_exact:
  "\<exists>events. run_opening peer_key remote g now sh =
     (sh\<lparr>sh_limiter := (case peer_key of
          Some key \<Rightarrow> if g = GreetCancelled \<or> lookup (sh_policy sh) key \<noteq> None then sh_limiter sh
            else fst (limiter_failed (sa_ip remote) now (sh_limiter sh))
        | None \<Rightarrow> fst (limiter_failed (sa_ip remote) now (sh_limiter sh))), sh_events := sh_events sh @ events\<rparr>,
      case peer_key of
        None \<Rightarrow> Inl NoKey
      | Some key \<Rightarrow>
          (case g of
             GreetCancelled \<Rightarrow> Inl CShutdown
           | GreetLost \<Rightarrow> Inl NoHello
           | Greeted (Some (Hello _ agent)) \<Rightarrow>
               (case lookup (sh_policy sh) key of Some grant \<Rightarrow> Inr (key, grant, printable agent) | None \<Rightarrow> Inl CDenied)
           | Greeted _ \<Rightarrow> Inl BadHello))"
proof (cases peer_key)
  case None
  then show ?thesis by (auto simp: run_opening_def run_key_def auth_failed_def intro: exI [of _ "[]"])
next
  case (Some key)
  note unfold = run_opening_def run_key_def run_greeted_def auth_failed_def denied_def
  have same: "sh\<lparr>sh_limiter := sh_limiter sh, sh_events := sh_events sh\<rparr> = sh" by simp
  show ?thesis
  proof (cases g rule: greeting_cases)
    case (hello w agent)
    then show ?thesis using Some
      by (cases "lookup (sh_policy sh) key") (auto simp: unfold intro: exI [of _ "[EvDenied key remote]"] exI [of _ "[]"])
  next
    case (bad m)
    then show ?thesis using Some
      by (auto simp: unfold intro!: exI [of _ "[]"] split: option.splits ClientMessage.splits)
  qed (use Some in \<open>auto simp: unfold intro!: exI [of _ "[]"]\<close>)
qed

text \<open>A step keeps the policy, and uses up at most one slot.\<close>

lemma conn_step_refines:
  assumes "resume_tcp a = None" "0 < free_slots a" "conn_step remote now op ((a, sh), n) = ((a', sh'), n')"
  shows "attempt_step (sa_ip remote) now (attempt_of (sh_policy sh) op) (sh_limiter sh, n, f) =
      (sh_limiter sh', n', f + (if attempt_of (sh_policy sh) op = Fail \<and> n \<noteq> 0 then 1 else 0)) \<and>
    resume_tcp a' = None \<and> free_slots a \<le> Suc (free_slots a') \<and> sh_policy sh' = sh_policy sh"
proof (cases op)
  case Arrive
  with assms show ?thesis
    by (auto simp: tcp_arm_def admit_def Let_def split: prod.splits if_splits)
next
  case TlsFailed
  with assms show ?thesis by (auto simp: hold_drop_def unproven_drop_def auth_failed_def split: if_splits)
next
  case (Spoke peer_key g)
  obtain events where o: "fst (run_opening peer_key remote g now sh) =
     sh\<lparr>sh_limiter := (case peer_key of
          Some key \<Rightarrow> if g = GreetCancelled \<or> lookup (sh_policy sh) key \<noteq> None then sh_limiter sh
            else fst (limiter_failed (sa_ip remote) now (sh_limiter sh))
        | None \<Rightarrow> fst (limiter_failed (sa_ip remote) now (sh_limiter sh))), sh_events := sh_events sh @ events\<rparr>"
    using run_opening_exact [of peer_key remote g now sh] by auto
  with assms Spoke show ?thesis
    by (auto simp: hold_drop_def unproven_drop_def split: if_splits option.splits)
qed

lemma conn_steps_refine:
  assumes "resume_tcp a = None" "length ops \<le> free_slots a"
    "fold (conn_step remote now) ops ((a, sh), n) = ((a', sh'), n')"
  shows "\<exists>f'. fold (attempt_step (sa_ip remote) now) (map (attempt_of (sh_policy sh)) ops) (sh_limiter sh, n, f) =
      (sh_limiter sh', n', f')"
  using assms
proof (induction ops arbitrary: a sh n f)
  case (Cons op ops)
  obtain a1 sh1 n1 where one: "conn_step remote now op ((a, sh), n) = ((a1, sh1), n1)"
    by (metis surj_pair)
  have "0 < free_slots a" using Cons.prems(2) by simp
  note r = conn_step_refines [OF Cons.prems(1) this one, of f]
  have "length ops \<le> free_slots a1" using r Cons.prems(2) by simp
  from Cons.IH [OF _ this, of sh1 n1 "f + (if attempt_of (sh_policy sh) op = Fail \<and> n \<noteq> 0 then 1 else 0)"] r Cons.prems(3) one
  show ?case by simp
qed simp




section \<open>One live session per key\<close>

text \<open>
  Sessions come and go: one that starts stakes its key under a number nobody used, and one that ends,
  for whatever reason, drops its hold. The set remembers who staked which key.
\<close>

inductive key_step :: "'net Shared \<times> (nat \<times> PublicKey) set \<Rightarrow> 'net Shared \<times> (nat \<times> PublicKey) set \<Rightarrow> bool" where
  staked: "who \<notin> fst ` st \<Longrightarrow> run_claim key who sh = (sh', previous) \<Longrightarrow> key_step (sh, st) (sh', insert (who, key) st)"
| dropped: "(who, key) \<in> st \<Longrightarrow> key_step (sh, st) (run_drop key who sh, st)"

definition keys_ok :: "'net Shared \<times> (nat \<times> PublicKey) set \<Rightarrow> bool" where
  "keys_ok = (\<lambda>(sh, st).
     (\<forall>w k j. (w, k) \<in> st \<longrightarrow> (w, j) \<in> st \<longrightarrow> k = j) \<and> live_done (sh_keys sh) \<subseteq> fst ` st \<and>
     (\<forall>w k. (w, k) \<in> st \<longrightarrow> w \<in> live_done (sh_keys sh) \<or> w \<in> live_cancelled (sh_keys sh) \<or>
        hget (live_sessions (sh_keys sh)) k = Some w) \<and>
     (\<forall>w k. hget (live_sessions (sh_keys sh)) k = Some w \<longrightarrow> (w, k) \<in> st \<and> w \<notin> live_done (sh_keys sh)))"

lemma keys_okD:
  assumes "keys_ok (sh, st)"
  shows "\<And>w k j. (w, k) \<in> st \<Longrightarrow> (w, j) \<in> st \<Longrightarrow> k = j" "live_done (sh_keys sh) \<subseteq> fst ` st"
    "\<And>w k. (w, k) \<in> st \<Longrightarrow> w \<in> live_done (sh_keys sh) \<or> w \<in> live_cancelled (sh_keys sh) \<or>
        hget (live_sessions (sh_keys sh)) k = Some w"
    "\<And>w k. hget (live_sessions (sh_keys sh)) k = Some w \<Longrightarrow> (w, k) \<in> st \<and> w \<notin> live_done (sh_keys sh)"
  using assms by (auto simp: keys_ok_def)

lemma keys_okI:
  assumes "\<And>w k j. (w, k) \<in> st \<Longrightarrow> (w, j) \<in> st \<Longrightarrow> k = j" "live_done (sh_keys sh) \<subseteq> fst ` st"
    "\<And>w k. (w, k) \<in> st \<Longrightarrow> w \<in> live_done (sh_keys sh) \<or> w \<in> live_cancelled (sh_keys sh) \<or>
        hget (live_sessions (sh_keys sh)) k = Some w"
    "\<And>w k. hget (live_sessions (sh_keys sh)) k = Some w \<Longrightarrow> (w, k) \<in> st \<and> w \<notin> live_done (sh_keys sh)"
  shows "keys_ok (sh, st)"
  unfolding keys_ok_def split using assms by metis

lemma key_step_ok:
  assumes "key_step (sh, st) (sh', st')" "keys_ok (sh, st)"
  shows "keys_ok (sh', st')"
  using assms(1)
proof (cases rule: key_step.cases)
  case (staked who key previous)
  note d = keys_okD [OF assms(2)]
  have fresh: "(who, k) \<notin> st" for k using staked(2) by force
  have keys: "live_sessions (sh_keys sh') = hput key who (live_sessions (sh_keys sh))"
      "live_done (sh_keys sh') = live_done (sh_keys sh)" "live_cancelled (sh_keys sh) \<subseteq> live_cancelled (sh_keys sh')"
      "\<And>p. hget (live_sessions (sh_keys sh)) key = Some p \<Longrightarrow> p \<in> live_cancelled (sh_keys sh')"
    using staked(3) by (auto simp: run_claim_def stake_def split: option.splits)
  have 3: "w \<in> live_done (sh_keys sh') \<or> w \<in> live_cancelled (sh_keys sh') \<or> hget (live_sessions (sh_keys sh')) k = Some w"
    if "(w, k) \<in> st'" for w k
    using that staked(1) d(3) [of w k] keys(2,3) keys(4) [of w]
    by (cases "k = key") (auto simp: keys(1) hmap_simps)
  have 4: "(w, k) \<in> st' \<and> w \<notin> live_done (sh_keys sh')" if "hget (live_sessions (sh_keys sh')) k = Some w" for w k
    using that staked(1,2) d(2) d(4) [of k w] by (cases "k = key") (auto simp: keys(1,2) hmap_simps)
  have 1: "k = j" if "(w, k) \<in> st'" "(w, j) \<in> st'" for w k j
    using that fresh d(1) unfolding staked(1) by (metis insertE prod.inject)
  have 2: "live_done (sh_keys sh') \<subseteq> fst ` st'" using d(2) by (auto simp: keys(2) staked(1))
  show ?thesis by (rule keys_okI [OF 1 2 3 4])
next
  case (dropped who key)
  note d = keys_okD [OF assms(2)]
  have keys: "live_sessions (sh_keys sh') = (if hget (live_sessions (sh_keys sh)) key = Some who
        then hdel key (live_sessions (sh_keys sh)) else live_sessions (sh_keys sh))"
      "live_done (sh_keys sh') = insert who (live_done (sh_keys sh))" "live_cancelled (sh_keys sh') = live_cancelled (sh_keys sh)"
    using dropped(1) by (simp_all add: run_drop_def claim_drop_def Let_def)
  have 3: "w \<in> live_done (sh_keys sh') \<or> w \<in> live_cancelled (sh_keys sh') \<or> hget (live_sessions (sh_keys sh')) k = Some w"
    if "(w, k) \<in> st" for w k
    using d(3) [OF that] by (auto simp: keys hmap_simps)
  have 4: "(w, k) \<in> st \<and> w \<notin> live_done (sh_keys sh')" if "hget (live_sessions (sh_keys sh')) k = Some w" for w k
  proof -
    have w: "hget (live_sessions (sh_keys sh)) k = Some w" using that by (auto simp: keys(1) hmap_simps split: if_splits)
    have "w \<noteq> who"
    proof
      assume "w = who"
      with d(4) [OF w] d(1) [OF _ dropped(3)] have "k = key" by blast
      with that w \<open>w = who\<close> show False by (simp add: keys(1) hmap_simps)
    qed
    with d(4) [OF w] show ?thesis by (simp add: keys(2))
  qed
  have 2: "live_done (sh_keys sh') \<subseteq> fst ` st" using d(2) dropped(3) by (force simp: keys(2))
  show ?thesis unfolding dropped(2) by (rule keys_okI [OF d(1) 2 3 4])
qed

lemma key_steps_ok:
  assumes "key_step\<^sup>*\<^sup>* (sh0, {}) (sh, st)" "sh_keys sh0 = \<lparr>live_sessions = [], live_cancelled = {}, live_done = {}\<rparr>"
  shows "keys_ok (sh, st)"
  using assms(1)
proof (induction rule: rtranclp_induct2)
  case refl
  then show ?case by (simp add: keys_ok_def assms(2))
next
  case (step sh st sh' st')
  then show ?case using key_step_ok by blast
qed

text \<open>
  C9: at most one session lives per key. However sessions start and end, two that staked the same
  key and neither of which was told to end or is done are one and the same, and it is the one that
  holds the key: an older session that ends late never takes the key from a newer one.
\<close>

theorem one_live_session_per_key:
  assumes "key_step\<^sup>*\<^sup>* (sh0, {}) (sh, st)" "sh_keys sh0 = \<lparr>live_sessions = [], live_cancelled = {}, live_done = {}\<rparr>"
    and "(v, key) \<in> st" "v \<notin> live_done (sh_keys sh) \<union> live_cancelled (sh_keys sh)"
    and "(w, key) \<in> st" "w \<notin> live_done (sh_keys sh) \<union> live_cancelled (sh_keys sh)"
  shows "v = w \<and> hget (live_sessions (sh_keys sh)) key = Some v"
proof -
  note d = keys_okD(3) [OF key_steps_ok [OF assms(1,2)]]
  from d [OF assms(3)] d [OF assms(5)] assms(4,6) show ?thesis by simp
qed

theorem one_live_session_per_key_witness:
  "let sh = \<lparr>sh_policy = [] :: IpAddr Policy, sh_ports = new_allocator \<lparr>s_first = 40000, s_last = 40001\<rparr>, sh_buffer = 16384,
        sh_udp_sessions = 4096, sh_streams = 4095,
        sh_keys = \<lparr>live_sessions = [], live_cancelled = {}, live_done = {}\<rparr>, sh_limiter = new_limiter 0, sh_events = []\<rparr>
   in hget (live_sessions (sh_keys (fst (run_claim (PublicKey [1]) 7 sh)))) (PublicKey [1]) = Some 7"
proof -
  let ?sh = "\<lparr>sh_policy = [] :: IpAddr Policy, sh_ports = new_allocator \<lparr>s_first = 40000, s_last = 40001\<rparr>, sh_buffer = 16384,
        sh_udp_sessions = 4096, sh_streams = 4095,
        sh_keys = \<lparr>live_sessions = [], live_cancelled = {}, live_done = {}\<rparr>, sh_limiter = new_limiter 0, sh_events = []\<rparr>"
  have "key_step\<^sup>*\<^sup>* (?sh, {}) (fst (run_claim (PublicKey [1]) 7 ?sh), insert (7, PublicKey [1]) {})"
    by (intro r_into_rtranclp key_step.staked [of _ _ _ _ _ "snd (run_claim (PublicKey [1]) 7 ?sh)"]) simp_all
  from one_live_session_per_key [OF this, of 7 "PublicKey [1]" 7] show ?thesis
    by (simp add: run_claim_def stake_def)
qed

end
