(* ===== verification/Traffic.thy ===== *)
theory Traffic
  imports Hawse_Prelude
begin

text \<open>
  \<open>hawse-core/src/traffic.rs\<close>: the running figures of a client's services. A \<open>Traffic\<close> keeps one
  meter per service, made when it is first asked for, and the one flag all of them share that says
  something moved; \<open>woken\<close> counts the wakeups it gave. The counters are \<open>AtomicU64\<close>s and wrap.
\<close>

record Counts =
  n_open :: u64
  n_visitors :: u64
  n_down :: u64
  n_up :: u64
  n_datagrams_down :: u64
  n_datagrams_up :: u64
  n_dropped :: u64

definition zero_counts :: Counts where
  "zero_counts = \<lparr>n_open = 0, n_visitors = 0, n_down = 0, n_up = 0, n_datagrams_down = 0, n_datagrams_up = 0, n_dropped = 0\<rparr>"

definition add_assign :: "Counts \<Rightarrow> Counts \<Rightarrow> Counts" where
  "add_assign other c =
     \<lparr>n_open = n_open c + n_open other, n_visitors = n_visitors c + n_visitors other, n_down = n_down c + n_down other,
      n_up = n_up c + n_up other, n_datagrams_down = n_datagrams_down c + n_datagrams_down other,
      n_datagrams_up = n_datagrams_up c + n_datagrams_up other, n_dropped = n_dropped c + n_dropped other\<rparr>"

record Activity =
  moving :: bool
  woken :: nat

definition activity_touch :: "Activity \<Rightarrow> Activity" where
  "activity_touch a = (if \<not> moving a then a\<lparr>moving := True, woken := Suc (woken a)\<rparr> else a)"

record Traffic =
  meters :: "(string, Counts) hmap"
  activity :: Activity

definition new_traffic :: Traffic where
  "new_traffic = \<lparr>meters = [], activity = \<lparr>moving = False, woken = 0\<rparr>\<rparr>"

text \<open>Asking for a service's meter makes it; \<open>meter_counts\<close> reads it.\<close>

definition meter :: "string \<Rightarrow> Traffic \<Rightarrow> Traffic" where
  "meter service t =
     (case hget (meters t) service of Some _ \<Rightarrow> t | None \<Rightarrow> t\<lparr>meters := hput service zero_counts (meters t)\<rparr>)"

definition meter_counts :: "string \<Rightarrow> Traffic \<Rightarrow> Counts" where
  "meter_counts service t = (case hget (meters t) service of Some c \<Rightarrow> c | None \<Rightarrow> zero_counts)"

text \<open>A change of one service's counters, and whether it also touches the shared flag.\<close>

definition on_meter :: "string \<Rightarrow> bool \<Rightarrow> (Counts \<Rightarrow> Counts) \<Rightarrow> Traffic \<Rightarrow> Traffic" where
  "on_meter service touches f t =
     t\<lparr>meters := hput service (f (meter_counts service t)) (meters t),
       activity := (if touches then activity_touch (activity t) else activity t)\<rparr>"

definition toward_local :: "nat \<Rightarrow> string \<Rightarrow> Traffic \<Rightarrow> Traffic" where
  "toward_local n service = on_meter service True (\<lambda>c. c\<lparr>n_down := n_down c + word_of_nat n\<rparr>)"

definition from_local :: "nat \<Rightarrow> string \<Rightarrow> Traffic \<Rightarrow> Traffic" where
  "from_local n service = on_meter service True (\<lambda>c. c\<lparr>n_up := n_up c + word_of_nat n\<rparr>)"

definition datagram_toward_local :: "nat \<Rightarrow> string \<Rightarrow> Traffic \<Rightarrow> Traffic" where
  "datagram_toward_local n service t =
     toward_local n service (on_meter service False (\<lambda>c. c\<lparr>n_datagrams_down := n_datagrams_down c + 1\<rparr>) t)"

definition datagram_from_local :: "nat \<Rightarrow> string \<Rightarrow> Traffic \<Rightarrow> Traffic" where
  "datagram_from_local n service t =
     from_local n service (on_meter service False (\<lambda>c. c\<lparr>n_datagrams_up := n_datagrams_up c + 1\<rparr>) t)"

definition meter_dropped :: "u64 \<Rightarrow> string \<Rightarrow> Traffic \<Rightarrow> Traffic" where
  "meter_dropped n service = on_meter service False (\<lambda>c. c\<lparr>n_dropped := n_dropped c + n\<rparr>)"

definition meter_open :: "string \<Rightarrow> Traffic \<Rightarrow> Traffic" where
  "meter_open service = on_meter service True (\<lambda>c. c\<lparr>n_open := n_open c + 1, n_visitors := n_visitors c + 1\<rparr>)"

definition open_drop :: "string \<Rightarrow> Traffic \<Rightarrow> Traffic" where
  "open_drop service = on_meter service True (\<lambda>c. c\<lparr>n_open := n_open c - 1\<rparr>)"

definition traffic_snapshot :: "Traffic \<Rightarrow> (string, Counts) hmap" where
  "traffic_snapshot t = meters t"

definition take_moved :: "Traffic \<Rightarrow> Traffic \<times> bool" where
  "take_moved t = (t\<lparr>activity := (activity t)\<lparr>moving := False\<rparr>\<rparr>, moving (activity t))"

text \<open>Whether \<open>moved\<close> returns at once.\<close>

definition moved :: "Traffic \<Rightarrow> bool" where
  "moved t = moving (activity t)"

section \<open>The figures add up\<close>

datatype traffic_op =
    TrDown nat string
  | TrUp nat string
  | TrDatagramDown nat string
  | TrDatagramUp nat string
  | TrDropped u64 string
  | TrOpen string
  | TrClose string

fun traffic_step :: "traffic_op \<Rightarrow> Traffic \<Rightarrow> Traffic" where
  "traffic_step (TrDown n s) t = toward_local n s t"
| "traffic_step (TrUp n s) t = from_local n s t"
| "traffic_step (TrDatagramDown n s) t = datagram_toward_local n s t"
| "traffic_step (TrDatagramUp n s) t = datagram_from_local n s t"
| "traffic_step (TrDropped n s) t = meter_dropped n s t"
| "traffic_step (TrOpen s) t = meter_open s t"
| "traffic_step (TrClose s) t = open_drop s t"

text \<open>What one operation adds to the figures of \<open>service\<close>.\<close>

fun traffic_gain :: "string \<Rightarrow> traffic_op \<Rightarrow> Counts" where
  "traffic_gain service (TrDown n s) = (if s = service then zero_counts\<lparr>n_down := word_of_nat n\<rparr> else zero_counts)"
| "traffic_gain service (TrUp n s) = (if s = service then zero_counts\<lparr>n_up := word_of_nat n\<rparr> else zero_counts)"
| "traffic_gain service (TrDatagramDown n s) =
     (if s = service then zero_counts\<lparr>n_down := word_of_nat n, n_datagrams_down := 1\<rparr> else zero_counts)"
| "traffic_gain service (TrDatagramUp n s) =
     (if s = service then zero_counts\<lparr>n_up := word_of_nat n, n_datagrams_up := 1\<rparr> else zero_counts)"
| "traffic_gain service (TrDropped n s) = (if s = service then zero_counts\<lparr>n_dropped := n\<rparr> else zero_counts)"
| "traffic_gain service (TrOpen s) = (if s = service then zero_counts\<lparr>n_open := 1, n_visitors := 1\<rparr> else zero_counts)"
| "traffic_gain service (TrClose s) = (if s = service then zero_counts\<lparr>n_open := - 1\<rparr> else zero_counts)"

lemmas traffic_defs = toward_local_def from_local_def datagram_toward_local_def datagram_from_local_def
  meter_dropped_def meter_open_def open_drop_def

lemma counts_on_meter:
  "meter_counts service (on_meter s b f t) = (if s = service then f (meter_counts service t) else meter_counts service t)"
  by (simp add: meter_counts_def on_meter_def hmap_simps)

lemma traffic_step_gain:
  "meter_counts service (traffic_step op t) = add_assign (traffic_gain service op) (meter_counts service t)"
  by (cases op) (simp_all add: traffic_defs counts_on_meter add_assign_def zero_counts_def)

lemma add_assign_comm: "add_assign a (add_assign b c) = add_assign b (add_assign a c)"
  by (simp add: add_assign_def algebra_simps)

lemma fold_traffic_gain:
  "meter_counts service (fold traffic_step ops t) =
     fold (\<lambda>op. add_assign (traffic_gain service op)) ops (meter_counts service t)"
  by (induction ops arbitrary: t) (simp_all add: traffic_step_gain)

end
