(* ===== verification/Pump.thy ===== *)
theory Pump
  imports Proto_Msg Traffic
begin

text \<open>
  \<open>hawse-core/src/pump.rs\<close>: the copy loop between a visitor's socket and its stream. The two
  directions run beside each other, so the state takes one event of either at a time: a chunk that
  was read and whether writing it worked, the end of what is read, an error, or the pump being
  dropped. What the peer of the stream and the peer of the socket got, and how each saw it end, is
  part of the state.
\<close>

record Stats =
  to_stream :: u64
  to_socket :: u64

datatype PumpError = SocketFailed | StreamFailed "u32 option"

fun pump_reset_code :: "PumpError \<Rightarrow> u32 option" where
  "pump_reset_code (StreamFailed code) = code"
| "pump_reset_code SocketFailed = None"

datatype send_end = SendOpen | SendFinished | SendReset u32

record Pump =
  p_stats :: Stats
  p_read_up :: bytes
  p_written_up :: bytes
  p_read_down :: bytes
  p_written_down :: bytes
  p_up_done :: bool
  p_down_done :: bool
  p_send :: send_end
  p_aborted :: bool
  p_result :: "(PumpError option + Stats) option"

definition new_pump :: Pump where
  "new_pump = \<lparr>p_stats = \<lparr>to_stream = 0, to_socket = 0\<rparr>, p_read_up = [], p_written_up = [], p_read_down = [], p_written_down = [],
     p_up_done = False, p_down_done = False, p_send = SendOpen, p_aborted = False, p_result = None\<rparr>"

text \<open>
  What an ending that is not both directions' does: \<open>ResetOnDrop\<close> resets a stream that was not
  finished, \<open>AbortOnDrop\<close> makes the socket's close a reset. \<open>None\<close> as the error is a pump dropped
  before it ended.
\<close>

definition reset_on_drop :: "Pump \<Rightarrow> Pump" where
  "reset_on_drop p = (if p_up_done p then p else p\<lparr>p_send := SendReset ABORTED\<rparr>)"

definition abort_on_drop :: "bool \<Rightarrow> Pump \<Rightarrow> Pump" where
  "abort_on_drop finished p = (if finished then p else p\<lparr>p_aborted := True\<rparr>)"

definition pump_fail :: "PumpError option \<Rightarrow> Pump \<Rightarrow> Pump" where
  "pump_fail e p = abort_on_drop False (reset_on_drop (p\<lparr>p_result := Some (Inl e)\<rparr>))"

text \<open>\<open>try_join!\<close>: the pump returns once both directions have.\<close>

definition pump_join :: "Pump \<Rightarrow> Pump" where
  "pump_join p =
     (if p_up_done p \<and> p_down_done p then abort_on_drop True (p\<lparr>p_result := Some (Inr (p_stats p))\<rparr>) else p)"

datatype pump_event =
    UpChunk bytes "PumpError option"
  | UpEof
  | UpError
  | DownChunk bytes bool
  | DownEof
  | DownError "u32 option"
  | PumpDropped

text \<open>
  \<open>UpChunk\<close> carries the error its write to the stream failed with, \<open>DownChunk\<close> whether its write to
  the socket worked. An empty chunk is the end, so only chunks with bytes are events, and a
  direction that has ended has none.
\<close>

fun pump_step :: "string \<Rightarrow> pump_event \<Rightarrow> Pump \<times> Traffic \<Rightarrow> Pump \<times> Traffic" where
  "pump_step meter_name ev (p, tr) =
     (if p_result p \<noteq> None then (p, tr)
      else case ev of
        PumpDropped \<Rightarrow> (pump_fail None p, tr)
      | UpChunk bs failed \<Rightarrow>
          if p_up_done p \<or> bs = [] then (p, tr)
          else let p = p\<lparr>p_read_up := p_read_up p @ bs,
                     p_stats := (p_stats p)\<lparr>to_stream := to_stream (p_stats p) + word_of_nat (length bs)\<rparr>\<rparr>;
                   tr = from_local (length bs) meter_name tr
               in (case failed of Some e \<Rightarrow> pump_fail (Some e) p | None \<Rightarrow> p\<lparr>p_written_up := p_written_up p @ bs\<rparr>, tr)
      | UpEof \<Rightarrow> if p_up_done p then (p, tr) else (pump_join (p\<lparr>p_up_done := True, p_send := SendFinished\<rparr>), tr)
      | UpError \<Rightarrow> if p_up_done p then (p, tr) else (pump_fail (Some SocketFailed) p, tr)
      | DownChunk bs wrote \<Rightarrow>
          if p_down_done p \<or> bs = [] then (p, tr)
          else let p = p\<lparr>p_read_down := p_read_down p @ bs,
                     p_stats := (p_stats p)\<lparr>to_socket := to_socket (p_stats p) + word_of_nat (length bs)\<rparr>\<rparr>;
                   tr = toward_local (length bs) meter_name tr
               in (if wrote then p\<lparr>p_written_down := p_written_down p @ bs\<rparr> else pump_fail (Some SocketFailed) p, tr)
      | DownEof \<Rightarrow> if p_down_done p then (p, tr) else (pump_join (p\<lparr>p_down_done := True\<rparr>), tr)
      | DownError code \<Rightarrow> if p_down_done p then (p, tr) else (pump_fail (Some (StreamFailed code)) p, tr))"

text \<open>
  What the two peers may believe: the stream's peer sees a clean end only when everything the
  socket gave up to its end was written to it, the socket's peer only when both directions finished,
  and a pump that has ended any other way has reset whichever was not finished.
\<close>

definition pump_ok :: "Pump \<times> Traffic \<Rightarrow> bool" where
  "pump_ok = (\<lambda>(p, _).
     (p_send p = SendFinished \<longleftrightarrow> p_up_done p) \<and> (p_up_done p \<longrightarrow> p_written_up p = p_read_up p) \<and>
     (p_down_done p \<longrightarrow> p_written_down p = p_read_down p) \<and>
     to_stream (p_stats p) = word_of_nat (length (p_read_up p)) \<and> to_socket (p_stats p) = word_of_nat (length (p_read_down p)) \<and>
     (case p_result p of
        None \<Rightarrow> \<not> (p_up_done p \<and> p_down_done p) \<and> \<not> p_aborted p \<and> (\<forall>c. p_send p \<noteq> SendReset c) \<and>
          p_written_up p = p_read_up p \<and> p_written_down p = p_read_down p
      | Some (Inr stats) \<Rightarrow> p_up_done p \<and> p_down_done p \<and> \<not> p_aborted p \<and> stats = p_stats p
      | Some (Inl _) \<Rightarrow> p_aborted p \<and> \<not> (p_up_done p \<and> p_down_done p) \<and> (\<not> p_up_done p \<longrightarrow> p_send p = SendReset ABORTED)))"

lemmas pump_defs = pump_fail_def pump_join_def reset_on_drop_def abort_on_drop_def

lemma pump_step_ok: "pump_ok st \<Longrightarrow> pump_ok (pump_step meter_name ev st)"
proof -
  assume ok: "pump_ok st"
  obtain p tr where st: "st = (p, tr)" by force
  show ?thesis
  proof (cases "p_result p")
    case None
    with ok show ?thesis
      by (cases ev) (auto simp: st pump_ok_def pump_defs Let_def split: option.split)
  qed (use ok in \<open>simp add: st\<close>)
qed

interpretation pumping: machine "pump_step meter_name" pump_ok
  by unfold_locales (rule pump_step_ok)


end
