(* ===== verification/Server_Listener.thy ===== *)
theory Server_Listener
  imports Server_Run Pump
begin

text \<open>
  \<open>hawse-core/src/server/listener.rs\<close>: the accept loop of one public TCP port. Its state is the count
  of visitors turned away, when that was last reported, and the streams of the session's budget
  that are free; a turn is what the accept came to.
\<close>

definition REPORT_EVERY :: duration where "REPORT_EVERY = secs 60"

record 'net Public =
  pb_service_id :: u16
  pb_port :: Port
  pb_allow :: "'net AllowList"

record Listener =
  ln_refused :: u64
  ln_reported :: "instant option"
  ln_free :: nat

text \<open>\<open>Came\<close>: a visitor, and the socket's own address when the host gives it.\<close>

datatype listener_arm = LnCancelled | LnErr "int option" | Came SocketAddr "SocketAddr option"

datatype listener_verdict = LnStop | LnPause duration | LnContinue | LnAbort | LnServe StreamHeader

definition listener_turn :: "'net ipnet \<Rightarrow> 'net Public \<Rightarrow> listener_arm \<Rightarrow> instant \<Rightarrow> Listener \<Rightarrow> Listener \<times> listener_verdict" where
  "listener_turn net pub arm now st =
     (case arm of
        LnCancelled \<Rightarrow> (st, LnStop)
      | LnErr e \<Rightarrow> (st, if out_of_descriptors e then LnPause ACCEPT_BACKOFF else LnContinue)
      | Came visitor addr \<Rightarrow>
          if \<not> allow_permits net (pb_allow pub) (sa_ip visitor) then (st, LnContinue)
          else if ln_free st = 0
          then (st\<lparr>ln_refused := ln_refused st + 1,
                   ln_reported := (if (case ln_reported st of None \<Rightarrow> True | Some t \<Rightarrow> REPORT_EVERY \<le> now - t)
                                   then Some now else ln_reported st)\<rparr>, LnAbort)
          else case addr of
                 None \<Rightarrow> (st, LnContinue)
               | Some listener \<Rightarrow>
                   (st\<lparr>ln_free := ln_free st - 1\<rparr>,
                    LnServe \<lparr>sh_service_id = pb_service_id pub, sh_visitor = visitor, sh_listener = listener\<rparr>))"

text \<open>
  A visitor's task: it opens a stream, writes the header and pumps; a stream that does not open or
  does not take the header aborts the socket. However it ends, its permit is free again.
\<close>

datatype visit_end = VisitAborted | VisitPumped "PumpError option + Stats"

definition visitor_task :: "bool \<Rightarrow> bool \<Rightarrow> (PumpError option + Stats) \<Rightarrow> visit_end" where
  "visitor_task opened wrote pumped = (if opened \<and> wrote then VisitPumped pumped else VisitAborted)"

definition visitor_gone :: "Listener \<Rightarrow> Listener" where
  "visitor_gone st = st\<lparr>ln_free := Suc (ln_free st)\<rparr>"

text \<open>After the loop the socket is closed, and only then the port given back.\<close>

definition listener_end :: "'net Public \<Rightarrow> PortAllocator \<Rightarrow> PortAllocator" where
  "listener_end pub ports = fst (release (pb_port pub) ports)"

section \<open>Who is served\<close>

datatype listener_op = Turn listener_arm instant | Gone

text \<open>The visitors being served are counted beside the state, with every header a stream was opened for.\<close>

fun listener_step :: "'net ipnet \<Rightarrow> 'net Public \<Rightarrow> listener_op \<Rightarrow> Listener \<times> nat \<times> StreamHeader list \<Rightarrow> Listener \<times> nat \<times> StreamHeader list" where
  "listener_step net pub (Turn arm now) (st, serving, served) =
     (case listener_turn net pub arm now st of
        (st, LnServe h) \<Rightarrow> (st, Suc serving, served @ [h])
      | (st, _) \<Rightarrow> (st, serving, served))"
| "listener_step net pub Gone (st, serving, served) =
     (if serving = 0 then (st, serving, served) else (visitor_gone st, serving - 1, served))"

definition listener_ok :: "'net ipnet \<Rightarrow> 'net Public \<Rightarrow> nat \<Rightarrow> Listener \<times> nat \<times> StreamHeader list \<Rightarrow> bool" where
  "listener_ok net pub budget = (\<lambda>(st, serving, served).
     serving + ln_free st = budget \<and>
     (\<forall>h \<in> set served. sh_service_id h = pb_service_id pub \<and> allow_permits net (pb_allow pub) (sa_ip (sh_visitor h))))"

lemma listener_step_ok: "listener_ok net pub budget x \<Longrightarrow> listener_ok net pub budget (listener_step net pub op x)"
proof (cases op)
  case (Turn arm now)
  assume "listener_ok net pub budget x"
  then show ?thesis
    by (cases x; cases arm) (auto simp: Turn listener_turn_def listener_ok_def split: if_splits option.splits)
next
  case Gone
  assume "listener_ok net pub budget x"
  then show ?thesis by (cases x) (auto simp: Gone listener_ok_def visitor_gone_def)
qed

interpretation listening: machine "listener_step net pub" "listener_ok net pub budget"
  by unfold_locales (rule listener_step_ok)

text \<open>
  A public port never serves more visitors at once than the session's stream budget, opens a
  stream only for visitors the service's allow list admits, and labels each with this service's id
  and the visitor's own address.
\<close>

theorem listener_bounded:
  assumes "fold (listener_step net pub) ops (\<lparr>ln_refused = 0, ln_reported = None, ln_free = budget\<rparr>, 0, []) = (st, serving, served)"
  shows "serving \<le> budget \<and>
    (\<forall>h \<in> set served. sh_service_id h = pb_service_id pub \<and> allow_permits net (pb_allow pub) (sa_ip (sh_visitor h)))"
proof -
  have "listener_ok net pub budget (\<lparr>ln_refused = 0, ln_reported = None, ln_free = budget\<rparr>, 0, [])"
    by (simp add: listener_ok_def)
  from listening.run_inv [OF this, of ops] assms show ?thesis by (auto simp: listener_ok_def)
qed

theorem listener_bounded_witness:
  "fst (snd (fold (listener_step host_nets \<lparr>pb_service_id = 1, pb_port = \<lparr>number = 22, kind = Tcp\<rparr>, pb_allow = AllowList []\<rparr>)
     [Turn (Came (SocketV4 7 7) (Some (SocketV4 9 22))) 0, Turn (Came (SocketV4 7 8) (Some (SocketV4 9 22))) 0]
     (\<lparr>ln_refused = 0, ln_reported = None, ln_free = 1\<rparr>, 0, []))) \<le> 1"
proof -
  let ?pub = "\<lparr>pb_service_id = 1, pb_port = \<lparr>number = 22, kind = Tcp\<rparr>, pb_allow = AllowList []\<rparr> :: IpAddr Public"
  let ?r = "fold (listener_step host_nets ?pub)
     [Turn (Came (SocketV4 7 7) (Some (SocketV4 9 22))) 0, Turn (Came (SocketV4 7 8) (Some (SocketV4 9 22))) 0]
     (\<lparr>ln_refused = 0, ln_reported = None, ln_free = 1\<rparr>, 0, [])"
  obtain st serving served where r: "?r = (st, serving, served)" by (cases ?r) auto
  from listener_bounded [OF r] r show ?thesis by simp
qed

end
