(* ===== verification/Udp_Sender.thy ===== *)
theory Udp_Sender
  imports Proto_Packet
begin

text \<open>
  \<open>hawse-core/src/udp.rs\<close>: what both ends of a UDP service share. A \<open>Sender\<close> has two ways out,
  the connection's datagrams and the queue of the bulk stream; what the connection answers is the
  argument \<open>link\<close>, and what left as a datagram is part of the result. The counters are \<open>AtomicU64\<close>s
  and wrap; drops are shared with the service, so they are passed along beside the sender.
\<close>

definition IDLE :: duration where "IDLE = secs 60"
definition BULK_QUEUE :: nat where "BULK_QUEUE = 256"
definition MAX_PAYLOAD :: nat where "MAX_PAYLOAD = 65535"
definition FINISH_WAIT :: duration where "FINISH_WAIT = secs 1"

record Drops =
  d_bulk_full :: u64
  d_at_cap :: u64
  d_unknown :: u64
  d_socket :: u64
  d_queue_full :: u64
  d_not_allowed :: u64

definition new_drops :: Drops where
  "new_drops = \<lparr>d_bulk_full = 0, d_at_cap = 0, d_unknown = 0, d_socket = 0, d_queue_full = 0, d_not_allowed = 0\<rparr>"

definition bulk_full :: "Drops \<Rightarrow> Drops" where "bulk_full d = d\<lparr>d_bulk_full := d_bulk_full d + 1\<rparr>"
definition at_cap :: "Drops \<Rightarrow> Drops" where "at_cap d = d\<lparr>d_at_cap := d_at_cap d + 1\<rparr>"
definition unknown :: "Drops \<Rightarrow> Drops" where "unknown d = d\<lparr>d_unknown := d_unknown d + 1\<rparr>"
definition socket_drop :: "Drops \<Rightarrow> Drops" where "socket_drop d = d\<lparr>d_socket := d_socket d + 1\<rparr>"
definition queue_full :: "Drops \<Rightarrow> Drops" where "queue_full d = d\<lparr>d_queue_full := d_queue_full d + 1\<rparr>"
definition not_allowed :: "Drops \<Rightarrow> Drops" where "not_allowed d = d\<lparr>d_not_allowed := d_not_allowed d + 1\<rparr>"

record DropCounts =
  c_bulk_full :: u64
  c_at_cap :: u64
  c_unknown :: u64
  c_socket :: u64
  c_queue_full :: u64
  c_not_allowed :: u64

definition drops_snapshot :: "Drops \<Rightarrow> DropCounts" where
  "drops_snapshot d =
     \<lparr>c_bulk_full = d_bulk_full d, c_at_cap = d_at_cap d, c_unknown = d_unknown d, c_socket = d_socket d,
      c_queue_full = d_queue_full d, c_not_allowed = d_not_allowed d\<rparr>"

definition drops_total :: "DropCounts \<Rightarrow> u64" where
  "drops_total c = c_bulk_full c + c_unknown c + c_socket c + c_queue_full c + c_not_allowed c"

text \<open>One tick of \<open>report_drops\<close>: what was reported last becomes the counts of now.\<close>

definition report_drops_tick :: "Drops \<Rightarrow> DropCounts \<Rightarrow> DropCounts \<times> bool" where
  "report_drops_tick d reported =
     (let counts = drops_snapshot d in if counts \<noteq> reported then (counts, True) else (reported, False))"

section \<open>Sending\<close>

datatype TransportError = Connection | NoDatagrams | DatagramTooLarge | TransportIo

record link =
  max_datagram_size :: "nat option"
  send_buffer_space :: nat
  send_datagram :: "bytes \<Rightarrow> TransportError + unit"

record SentCounts =
  sent_datagram :: u64
  sent_bulk :: u64

text \<open>\<open>sd_gone\<close>: the receiving end of the queue was dropped, after which nothing is taken.\<close>

record Sender =
  sd_queue :: "bytes list"
  sd_gone :: bool
  sd_sent :: SentCounts

definition new_sender :: Sender where
  "new_sender = \<lparr>sd_queue = [], sd_gone = False, sd_sent = \<lparr>sent_datagram = 0, sent_bulk = 0\<rparr>\<rparr>"

definition to_bulk :: "bytes \<Rightarrow> Sender \<times> Drops \<Rightarrow> Sender \<times> Drops" where
  "to_bulk packet = (\<lambda>(s, d).
     (if sd_gone s \<or> BULK_QUEUE \<le> length (sd_queue s) then (s, bulk_full d)
      else (s\<lparr>sd_queue := sd_queue s @ [packet], sd_sent := (sd_sent s)\<lparr>sent_bulk := sent_bulk (sd_sent s) + 1\<rparr>\<rparr>, d)))"

definition dispatch :: "link \<Rightarrow> FrameError + bytes \<Rightarrow> Sender \<times> Drops \<Rightarrow> (Sender \<times> Drops) \<times> bytes option" where
  "dispatch link packet = (\<lambda>(s, d).
     case packet of
       Inl _ \<Rightarrow> ((s, socket_drop d), None)
     | Inr packet \<Rightarrow>
         (if case max_datagram_size link of Some m \<Rightarrow> length packet \<le> m | None \<Rightarrow> False
          then let d = (if send_buffer_space link < length packet then queue_full d else d)
               in case send_datagram link packet of
                    Inr () \<Rightarrow> ((s\<lparr>sd_sent := (sd_sent s)\<lparr>sent_datagram := sent_datagram (sd_sent s) + 1\<rparr>\<rparr>, d), Some packet)
                  | Inl DatagramTooLarge \<Rightarrow> (to_bulk packet (s, d), None)
                  | Inl NoDatagrams \<Rightarrow> (to_bulk packet (s, d), None)
                  | Inl _ \<Rightarrow> ((s, d), None)
          else (to_bulk packet (s, d), None)))"

definition udp_send :: "(DatagramHeader \<Rightarrow> bytes) \<Rightarrow> link \<Rightarrow> DatagramHeader \<Rightarrow> bytes \<Rightarrow> Sender \<times> Drops \<Rightarrow>
    (Sender \<times> Drops) \<times> bytes option" where
  "udp_send put link header payload = dispatch link (packet_encode put header payload)"

definition udp_send_from :: "(DatagramHeader \<Rightarrow> bytes) \<Rightarrow> link \<Rightarrow> DatagramHeader \<Rightarrow> SocketAddr \<Rightarrow> bytes \<Rightarrow> Sender \<times> Drops \<Rightarrow>
    (Sender \<times> Drops) \<times> bytes option" where
  "udp_send_from put link header visitor payload = dispatch link (encode_from put header visitor payload)"

text \<open>
  \<open>drain\<close> writes what is queued to the bulk stream, in order; \<open>None\<close> is the panic of a body over a
  \<open>u32\<close>'s length, which the frame limit keeps from happening.
\<close>

fun drain :: "bytes list \<Rightarrow> bytes \<Rightarrow> bytes option" where
  "drain [] sent = Some sent"
| "drain (packet # queue) sent = (case write_body sent packet of None \<Rightarrow> None | Some sent \<Rightarrow> drain queue sent)"

section \<open>The queue is bounded, and everything sent is accounted for\<close>

lemma dispatch_cases:
  assumes "dispatch link packet (s, d) = ((s', d'), out)"
  obtains e where "packet = Inl e" "s' = s" "d' = socket_drop d" "out = None"
  | p where "packet = Inr p" "send_datagram link p = Inr ()" "d' \<in> {d, queue_full d}" "out = Some p"
      "sd_queue s' = sd_queue s" "sd_gone s' = sd_gone s" "sent_datagram (sd_sent s') = sent_datagram (sd_sent s) + 1"
      "sent_bulk (sd_sent s') = sent_bulk (sd_sent s)"
  | p d1 where "packet = Inr p" "d1 \<in> {d, queue_full d}" "out = None" "to_bulk p (s, d1) = (s', d')"
  | p where "packet = Inr p" "s' = s" "d' \<in> {d, queue_full d}" "out = None"
      "send_datagram link p = Inl Connection \<or> send_datagram link p = Inl TransportIo"
  using assms
  by (auto simp: dispatch_def Let_def split: sum.splits option.splits if_splits TransportError.splits unit.splits)

text \<open>A packet that leaves is the one dispatched, as a datagram or at the end of the queue.\<close>

lemma dispatch_packet:
  assumes "dispatch link (Inr p) (s, d) = ((s', d'), out)"
  shows "out \<in> {None, Some p} \<and> sd_queue s' \<in> {sd_queue s, sd_queue s @ [p]}"
  by (cases rule: dispatch_cases [OF assms]) (auto simp: to_bulk_def split: if_splits)

text \<open>Every UDP payload fits a packet, and packets read back, given what \<open>postcard\<close> promises of a header.\<close>

lemma packet_reads:
  assumes "\<And>h rest. take_header (put h @ rest) = Some (h, rest)" "\<And>h. length (put h) \<le> HEADER_MAX"
    and "length payload \<le> 65507"
  shows "\<exists>p. packet_encode put h payload = Inr p \<and> packet_decode take_header p = Inr (h, payload)"
    "\<exists>p. encode_from put h visitor payload = Inr p \<and>
      decode_from take_header p = Inr (h, socket_addr (to_canonical (sa_ip visitor)) (sa_port visitor), payload)"
proof -
  have head: "header_bytes put h = Inr (put h)" "length (put h) \<le> 8"
    using assms(2) [of h] by (simp_all add: header_bytes_def HEADER_MAX_def)
  have dec: "packet_decode take_header (put h @ rest) = Inr (h, rest)" for rest by (simp add: packet_decode_def assms(1))
  have port: "\<exists>hi lo. be16 w = [hi, lo] \<and> of_be16 [hi, lo] = w" for w
    using of_be16_be16 [of w] two_bytes [of "be16 w"] by force
  have addr: "take_address (address_bytes ip @ rest) = Some (ip, rest)" for ip rest
    by (cases ip) (simp_all add: take_address_def address_bytes_def IPV4_def IPV6_def byte_simps)
  have "decode_from take_header (put h @ address_bytes ip @ be16 w @ payload) = Inr (h, socket_addr ip w, payload)" for ip w
    using port [of w] by (auto simp: decode_from_def dec addr)
  with head assms(3) dec show "\<exists>p. packet_encode put h payload = Inr p \<and> packet_decode take_header p = Inr (h, payload)"
    "\<exists>p. encode_from put h visitor payload = Inr p \<and>
      decode_from take_header p = Inr (h, socket_addr (to_canonical (sa_ip visitor)) (sa_port visitor), payload)"
    by (simp_all add: packet_encode_def encode_from_def Let_def MAX_FRAME_def)
qed

text \<open>A packet the bulk stream carries reads back at the other end.\<close>

fun read_packets :: "nat \<Rightarrow> bytes \<Rightarrow> bytes list" where
  "read_packets 0 recv = []"
| "read_packets (Suc n) recv =
     (case read_body recv of Inl _ \<Rightarrow> [] | Inr (packet, recv) \<Rightarrow> packet # read_packets n recv)"

lemma drain_reads:
  assumes "\<forall>p \<in> set queue. length p \<le> MAX_FRAME"
  shows "\<exists>out. drain queue sent = Some (sent @ out) \<and> (\<forall>rest. read_packets (length queue) (out @ rest) = queue)"
  using assms
proof (induction queue arbitrary: sent)
  case (Cons p queue)
  let ?head = "le32 (word_of_nat (length p))"
  have small: "length p < 4294967296" "length p \<le> MAX_FRAME" using Cons.prems by (simp_all add: MAX_FRAME_def)
  have w: "write_body sent p = Some (sent @ ?head @ p)" using small by (simp add: write_body_def)
  have r: "read_body (?head @ p @ tail) = Inr (p, tail)" for tail
    using small(2) of_le32_len [OF small(2)] by (simp add: read_body_def read_exact_def)
  obtain out where o: "drain queue (sent @ ?head @ p) = Some ((sent @ ?head @ p) @ out)"
      "\<forall>rest. read_packets (length queue) (out @ rest) = queue"
    using Cons.IH [of "sent @ ?head @ p"] Cons.prems by auto
  show ?case using w r o by (intro exI [of _ "?head @ p @ out"]) simp
qed simp

text \<open>
  A life of a sender: payloads go in with or without their visitor's address, over whatever the
  link is by then, and the bulk stream takes from the front of the queue. \<open>sent_ok\<close> is what it keeps.
\<close>

datatype send_op =
    SendOp link DatagramHeader bytes
  | SendFromOp link DatagramHeader SocketAddr bytes
  | TakeOp
  | GoneOp

fun send_step :: "(DatagramHeader \<Rightarrow> bytes) \<Rightarrow> send_op \<Rightarrow> Sender \<times> Drops \<Rightarrow> Sender \<times> Drops" where
  "send_step put (SendOp link header payload) st = fst (udp_send put link header payload st)"
| "send_step put (SendFromOp link header visitor payload) st = fst (udp_send_from put link header visitor payload st)"
| "send_step put TakeOp (s, d) = (s\<lparr>sd_queue := tl (sd_queue s)\<rparr>, d)"
| "send_step put GoneOp (s, d) = (s\<lparr>sd_gone := True\<rparr>, d)"

definition sent_ok :: "Sender \<times> Drops \<Rightarrow> bool" where
  "sent_ok = (\<lambda>(s, d). length (sd_queue s) \<le> BULK_QUEUE \<and> (\<forall>p \<in> set (sd_queue s). length p \<le> MAX_FRAME))"

lemma encodings_fit:
  "packet_encode put h payload = Inr p \<Longrightarrow> length p \<le> MAX_FRAME"
  "encode_from put h visitor payload = Inr p \<Longrightarrow> length p \<le> MAX_FRAME"
proof -
  have "length (address_bytes ip) = (if is_ipv4 ip then 5 else 17)" for ip
    by (cases ip) (simp_all add: address_bytes_def)
  then show "packet_encode put h payload = Inr p \<Longrightarrow> length p \<le> MAX_FRAME"
    "encode_from put h visitor payload = Inr p \<Longrightarrow> length p \<le> MAX_FRAME"
    by (auto simp: packet_encode_def encode_from_def header_bytes_def Let_def split: sum.splits if_splits)
qed

lemma to_bulk_ok:
  assumes "to_bulk p (s, d1) = (s', d')" "length p \<le> MAX_FRAME" "sent_ok (s, d)"
  shows "sent_ok (s', d')"
  using assms by (auto simp: to_bulk_def sent_ok_def split: if_splits)

lemma dispatch_ok:
  assumes "dispatch link packet (s, d) = ((s', d'), out)" "\<And>p. packet = Inr p \<Longrightarrow> length p \<le> MAX_FRAME" "sent_ok (s, d)"
  shows "sent_ok (s', d')"
proof (cases rule: dispatch_cases [OF assms(1)])
  case (3 p d1)
  then show ?thesis using to_bulk_ok [OF 3(4)] assms(2,3) by blast
qed (use assms(3) in \<open>simp_all add: sent_ok_def\<close>)

lemma set_tl: "x \<in> set (tl xs) \<Longrightarrow> x \<in> set xs"
  by (cases xs) simp_all

interpretation sender: machine "send_step put" sent_ok
proof
  fix st op assume ok: "sent_ok st"
  obtain s d where st: "st = (s, d)" by force
  show "sent_ok (send_step put op st)"
  proof (cases op)
    case (SendOp link header payload)
    obtain s' d' out where r: "dispatch link (packet_encode put header payload) (s, d) = ((s', d'), out)" by (metis surj_pair)
    from dispatch_ok [OF r encodings_fit(1)] ok r show ?thesis by (simp add: SendOp st udp_send_def)
  next
    case (SendFromOp link header visitor payload)
    obtain s' d' out where r: "dispatch link (encode_from put header visitor payload) (s, d) = ((s', d'), out)" by (metis surj_pair)
    from dispatch_ok [OF r encodings_fit(2)] ok r show ?thesis by (simp add: SendFromOp st udp_send_from_def)
  qed (use ok in \<open>auto simp: st sent_ok_def dest: set_tl\<close>)
qed

text \<open>
  The bulk queue is bounded and its bytes are safe to write: through any sequence of sends over
  any link, of takes by the bulk stream and of its end, at most 256 packets wait, none over the frame
  limit, so writing them never panics and the other end reads exactly these packets in this order.
\<close>

theorem bulk_queue_bounded:
  "case fold (send_step put) ops (new_sender, new_drops) of (s, d) \<Rightarrow>
     length (sd_queue s) \<le> 256 \<and>
     (\<exists>out. drain (sd_queue s) sent = Some (sent @ out) \<and>
        read_packets (length (sd_queue s)) (out @ rest) = sd_queue s)"
proof -
  have "sent_ok (new_sender, new_drops)" by (simp add: sent_ok_def new_sender_def)
  from sender.run_inv [OF this, of put ops] show ?thesis
    using drain_reads by (fastforce simp: sent_ok_def BULK_QUEUE_def)
qed

end
