(* ===== verification/Udp_Table.thy ===== *)
theory Udp_Table
  imports Net_Addr
begin

text \<open>
  \<open>hawse-core/src/server/udp/table.rs\<close>: which visitor each session id of a UDP service belongs
  to. The table keeps three indexes: by visitor, by session, and by age. The ordered set of
  ages is its sorted list. \<open>claim_id\<close> and \<open>sweep\<close> are loops that could run forever on a table
  whose indexes disagree or that holds every id, so they are partial functions; that they return
  is part of what is proved.
\<close>

record Entry =
  e_visitor :: SocketAddr
  e_used :: instant

record Inbound =
  in_session :: u32
  in_fresh :: bool
  in_evicted :: bool

record SessionTable =
  t_cap :: nat
  t_idle :: duration
  t_next :: u32
  by_visitor :: "(SocketAddr, u32) hmap"
  by_session :: "(u32, Entry) hmap"
  by_age :: "(instant \<times> u32) list"

definition new_table :: "nat \<Rightarrow> duration \<Rightarrow> SessionTable" where
  "new_table cap idle =
     \<lparr>t_cap = cap, t_idle = idle, t_next = 0, by_visitor = [], by_session = [], by_age = []\<rparr>"

definition touch :: "u32 \<Rightarrow> instant \<Rightarrow> SessionTable \<Rightarrow> SessionTable" where
  "touch session now t =
     (case hget (by_session t) session of
        None \<Rightarrow> t
      | Some e \<Rightarrow>
          t\<lparr>by_age := insort_insert (now, session) (remove1 (e_used e, session) (by_age t)),
            by_session := hput session (e\<lparr>e_used := now\<rparr>) (by_session t)\<rparr>)"

definition table_remove :: "u32 \<Rightarrow> SessionTable \<Rightarrow> SessionTable" where
  "table_remove session t =
     (case hget (by_session t) session of
        None \<Rightarrow> t
      | Some e \<Rightarrow>
          t\<lparr>by_session := hdel session (by_session t),
            by_visitor := hdel (e_visitor e) (by_visitor t),
            by_age := remove1 (e_used e, session) (by_age t)\<rparr>)"

definition evict_oldest :: "SessionTable \<Rightarrow> SessionTable \<times> bool" where
  "evict_oldest t =
     (case by_age t of [] \<Rightarrow> (t, False) | (_, session) # _ \<Rightarrow> (table_remove session t, True))"

partial_function (option) claim_id :: "SessionTable \<Rightarrow> (SessionTable \<times> u32) option" where
  "claim_id t =
     (let id = t_next t; t = t\<lparr>t_next := t_next t + 1\<rparr>
      in if hget (by_session t) id = None then Some (t, id) else claim_id t)"

definition table_inbound :: "SocketAddr \<Rightarrow> instant \<Rightarrow> SessionTable \<Rightarrow> (SessionTable \<times> Inbound) option" where
  "table_inbound visitor now t =
     (case hget (by_visitor t) visitor of
        Some session \<Rightarrow>
          Some (touch session now t, \<lparr>in_session = session, in_fresh = False, in_evicted = False\<rparr>)
      | None \<Rightarrow>
          (let (t, evicted) = (if t_cap t \<le> length (by_session t) then evict_oldest t else (t, False))
           in case claim_id t of
                None \<Rightarrow> None
              | Some (t, session) \<Rightarrow>
                  Some (t\<lparr>by_visitor := hput visitor session (by_visitor t),
                          by_session := hput session \<lparr>e_visitor = visitor, e_used = now\<rparr> (by_session t),
                          by_age := insort_insert (now, session) (by_age t)\<rparr>,
                        \<lparr>in_session = session, in_fresh = True, in_evicted = evicted\<rparr>)))"

definition table_outbound :: "u32 \<Rightarrow> instant \<Rightarrow> SessionTable \<Rightarrow> SessionTable \<times> SocketAddr option" where
  "table_outbound session now t =
     (case hget (by_session t) session of
        None \<Rightarrow> (t, None)
      | Some e \<Rightarrow> (touch session now t, Some (e_visitor e)))"

partial_function (option) sweep_loop :: "instant \<Rightarrow> SessionTable \<Rightarrow> nat \<Rightarrow> (SessionTable \<times> nat) option" where
  "sweep_loop now t removed =
     (case by_age t of
        [] \<Rightarrow> Some (t, removed)
      | (used, session) # _ \<Rightarrow>
          if now - used < t_idle t then Some (t, removed)
          else sweep_loop now (table_remove session t) (removed + 1))"

definition table_sweep :: "instant \<Rightarrow> SessionTable \<Rightarrow> (SessionTable \<times> nat) option" where
  "table_sweep now t = sweep_loop now t 0"

definition check :: "SessionTable \<Rightarrow> bool" where
  "check t \<longleftrightarrow>
     length (by_session t) \<le> max (t_cap t) 1 \<and>
     length (by_session t) = length (by_visitor t) \<and>
     length (by_session t) = length (by_age t) \<and>
     list_all (\<lambda>(session, e). hget (by_visitor t) (e_visitor e) = Some session \<and>
                              (e_used e, session) \<in> set (by_age t)) (by_session t)"

section \<open>The invariant\<close>

text \<open>
  The table's meaning is the map from session ids to their entries. The two other indexes are
  determined by it: \<open>by_visitor\<close> inverts it and \<open>by_age\<close> lists it oldest first.
\<close>

definition table_ok :: "SessionTable \<Rightarrow> bool" where
  "table_ok t \<longleftrightarrow> hm_ok (by_session t) \<and> hm_ok (by_visitor t) \<and> sorted (by_age t) \<and> distinct (by_age t) \<and>
     (\<forall>v s. hget (by_visitor t) v = Some s \<longleftrightarrow> (\<exists>e. hget (by_session t) s = Some e \<and> e_visitor e = v)) \<and>
     (\<forall>u s. (u, s) \<in> set (by_age t) \<longleftrightarrow> (\<exists>e. hget (by_session t) s = Some e \<and> e_used e = u))"

lemma table_okI:
  assumes "hm_ok (by_session t)" "hm_ok (by_visitor t)" "sorted (by_age t)" "distinct (by_age t)"
    and "\<And>v s. hget (by_visitor t) v = Some s \<longleftrightarrow> (\<exists>e. hget (by_session t) s = Some e \<and> e_visitor e = v)"
    and "\<And>u s. (u, s) \<in> set (by_age t) \<longleftrightarrow> (\<exists>e. hget (by_session t) s = Some e \<and> e_used e = u)"
  shows "table_ok t"
  using assms by (simp add: table_ok_def)

lemma table_okD:
  assumes "table_ok t"
  shows "hm_ok (by_session t)" "hm_ok (by_visitor t)" "sorted (by_age t)" "distinct (by_age t)"
    and "hget (by_visitor t) v = Some s \<longleftrightarrow> (\<exists>e. hget (by_session t) s = Some e \<and> e_visitor e = v)"
    and "(u, s) \<in> set (by_age t) \<longleftrightarrow> (\<exists>e. hget (by_session t) s = Some e \<and> e_used e = u)"
  using assms by (simp_all add: table_ok_def)

lemma visitor_once:
  assumes "table_ok t" "hget (by_session t) s = Some e" "hget (by_session t) s' = Some e'"
    "e_visitor e = e_visitor e'"
  shows "s = s'"
  using assms table_okD(5) [OF assms(1), of "e_visitor e"] by (metis option.inject)

lemma set_insort_insert_eq: "set (insort_insert x xs) = insert x (set xs)"
  by (rule set_insort_insert)

lemmas age_simps = set_insort_insert_eq set_remove1_eq sorted_insort_insert
  distinct_insort_insert sorted_remove1 distinct_remove1

lemma touch_ok: "table_ok t \<Longrightarrow> table_ok (touch s now t)"
proof (cases "hget (by_session t) s")
  case (Some e)
  assume ok: "table_ok t"
  note d = table_okD [OF ok]
  show ?thesis
  proof (rule table_okI)
    fix v s'
    show "hget (by_visitor (touch s now t)) v = Some s' \<longleftrightarrow>
        (\<exists>e. hget (by_session (touch s now t)) s' = Some e \<and> e_visitor e = v)"
      using Some d(5) [of v s'] by (auto simp: touch_def hmap_simps)
  next
    fix u s'
    show "(u, s') \<in> set (by_age (touch s now t)) \<longleftrightarrow>
        (\<exists>e. hget (by_session (touch s now t)) s' = Some e \<and> e_used e = u)"
      using Some d(4) d(6) [of u s'] by (auto simp: touch_def hmap_simps age_simps)
  qed (use Some d in \<open>simp_all add: touch_def age_simps\<close>)
qed (simp add: touch_def)

lemma remove_ok: "table_ok t \<Longrightarrow> table_ok (table_remove s t)"
proof (cases "hget (by_session t) s")
  case (Some e)
  assume ok: "table_ok t"
  note d = table_okD [OF ok]
  show ?thesis
  proof (rule table_okI)
    fix v s'
    show "hget (by_visitor (table_remove s t)) v = Some s' \<longleftrightarrow>
        (\<exists>e. hget (by_session (table_remove s t)) s' = Some e \<and> e_visitor e = v)"
    proof (cases "s' = s \<or> v = e_visitor e")
      case True
      then have "\<not> (\<exists>e. hget (by_session (table_remove s t)) s' = Some e \<and> e_visitor e = v)"
        using Some by (auto simp: table_remove_def hmap_simps dest: visitor_once [OF ok Some])
      moreover have "hget (by_visitor (table_remove s t)) v \<noteq> Some s'"
        using True Some d(5) [of v s'] by (auto simp: table_remove_def hmap_simps)
      ultimately show ?thesis by blast
    next
      case False
      then show ?thesis
        using Some d(5) [of v s'] by (simp add: table_remove_def hmap_simps)
    qed
  next
    fix u s'
    show "(u, s') \<in> set (by_age (table_remove s t)) \<longleftrightarrow>
        (\<exists>e. hget (by_session (table_remove s t)) s' = Some e \<and> e_used e = u)"
      using Some d(4) d(6) [of u s'] by (auto simp: table_remove_def hmap_simps age_simps)
  qed (use Some d in \<open>simp_all add: table_remove_def age_simps\<close>)
qed (simp add: table_remove_def)

lemma remove_session: "hget (by_session (table_remove s t)) = (hget (by_session t))(s := None)"
  by (auto simp: table_remove_def hmap_simps fun_eq_iff split: option.splits)

lemma touch_session:
  "hget (by_session (touch s now t)) =
     (hget (by_session t))(s := map_option (\<lambda>e. e\<lparr>e_used := now\<rparr>) (hget (by_session t) s))"
  by (auto simp: touch_def hmap_simps fun_eq_iff split: option.splits)

lemma ops_keep_config [simp]:
  "t_cap (touch s now t) = t_cap t" "t_cap (table_remove s t) = t_cap t"
  "t_idle (touch s now t) = t_idle t" "t_idle (table_remove s t) = t_idle t"
  by (simp_all add: touch_def table_remove_def split: option.splits)

lemma insert_ok:
  assumes ok: "table_ok t" and free: "hget (by_visitor t) v = None" "hget (by_session t) s = None"
  shows "table_ok (t\<lparr>by_visitor := hput v s (by_visitor t),
    by_session := hput s \<lparr>e_visitor = v, e_used = now\<rparr> (by_session t),
    by_age := insort_insert (now, s) (by_age t)\<rparr>)" (is "table_ok ?t")
proof (rule table_okI)
  note d = table_okD [OF ok]
  fix v' s' u
  show "hget (by_visitor ?t) v' = Some s' \<longleftrightarrow> (\<exists>e. hget (by_session ?t) s' = Some e \<and> e_visitor e = v')"
    using free d(5) [of v' s'] d(5) [of v s'] by (cases "v' = v"; cases "s' = s") (auto simp: hmap_simps)
  show "(u, s') \<in> set (by_age ?t) \<longleftrightarrow> (\<exists>e. hget (by_session ?t) s' = Some e \<and> e_used e = u)"
    using free d(6) [of u s'] by (cases "s' = s") (auto simp: hmap_simps age_simps)
qed (use table_okD [OF ok] in \<open>simp_all add: age_simps\<close>)

lemma age_pairs:
  assumes "table_ok t"
  shows "set (by_age t) = (\<lambda>(s, e). (e_used e, s)) ` set (by_session t)"
    "set (by_visitor t) = (\<lambda>(s, e). (e_visitor e, s)) ` set (by_session t)"
proof -
  note d = table_okD [OF assms]
  have "p \<in> set (by_age t) \<longleftrightarrow> p \<in> (\<lambda>(s, e). (e_used e, s)) ` set (by_session t)" for p
    using d(6) [of "fst p" "snd p"] by (force simp: hm_ok_get [OF d(1)] image_iff)
  then show "set (by_age t) = (\<lambda>(s, e). (e_used e, s)) ` set (by_session t)" by blast
  have "p \<in> set (by_visitor t) \<longleftrightarrow> p \<in> (\<lambda>(s, e). (e_visitor e, s)) ` set (by_session t)" for p
    using d(5) [of "fst p" "snd p"] by (force simp: hm_ok_get [OF d(1)] hm_ok_get [OF d(2)] image_iff)
  then show "set (by_visitor t) = (\<lambda>(s, e). (e_visitor e, s)) ` set (by_session t)" by blast
qed

lemma index_lengths:
  assumes "table_ok t"
  shows "length (by_age t) = length (by_session t)" "length (by_visitor t) = length (by_session t)"
proof -
  note d = table_okD [OF assms]
  have keys: "inj_on fst (set (by_session t))" "distinct (by_session t)"
    using d(1) by (auto simp: hm_ok_def distinct_map)
  have inj: "inj_on (\<lambda>(s, e). (e_used e, s)) (set (by_session t))"
    "inj_on (\<lambda>(s, e). (e_visitor e, s)) (set (by_session t))"
    using keys(1) by (force simp: inj_on_def)+
  have "distinct (by_visitor t)" using d(2) by (auto simp: hm_ok_def distinct_map)
  then show "length (by_visitor t) = length (by_session t)"
    using distinct_card keys(2) age_pairs(2) [OF assms] card_image [OF inj(2)] by metis
  show "length (by_age t) = length (by_session t)"
    using distinct_card d(4) keys(2) age_pairs(1) [OF assms] card_image [OF inj(1)] by metis
qed

section \<open>The loops end\<close>

lemma claim_id_at:
  assumes "hget (by_session t) (t_next t + word_of_nat i) = None"
  shows "\<exists>id. claim_id t = Some (t\<lparr>t_next := id + 1\<rparr>, id) \<and> hget (by_session t) id = None"
  using assms
proof (induction i arbitrary: t)
  case (Suc i)
  show ?case
  proof (cases "hget (by_session t) (t_next t)")
    case (Some e)
    have "hget (by_session (t\<lparr>t_next := t_next t + 1\<rparr>)) (t_next (t\<lparr>t_next := t_next t + 1\<rparr>) + word_of_nat i) = None"
      using Suc.prems by (simp add: algebra_simps)
    from Suc.IH [OF this] Some show ?thesis by (subst claim_id.simps) (auto simp: Let_def)
  qed (auto simp: claim_id.simps Let_def)
qed (auto simp: claim_id.simps Let_def)

lemma claim_id_returns:
  assumes "hm_ok (by_session t)" "length (by_session t) < 4294967296"
  shows "\<exists>id. claim_id t = Some (t\<lparr>t_next := id + 1\<rparr>, id) \<and> hget (by_session t) id = None"
proof -
  have "card (hkeys (by_session t)) < card (UNIV :: u32 set)"
    using assms by (simp add: length_card_hkeys card_word)
  then obtain id where "id \<notin> hkeys (by_session t)"
    by (metis UNIV_eq_I less_irrefl)
  then have "hget (by_session t) (t_next t + word_of_nat (unat (id - t_next t))) = None"
    by (simp add: hget_None_iff)
  then show ?thesis by (rule claim_id_at)
qed

lemma sweep_loop_returns:
  assumes "table_ok t"
  shows "\<exists>t'. sweep_loop now t r = Some (t', r + (length (by_session t) - length (by_session t'))) \<and>
    table_ok t' \<and> length (by_session t') \<le> length (by_session t) \<and> t_cap t' = t_cap t \<and>
    hget (by_session t') = (\<lambda>s. case hget (by_session t) s of None \<Rightarrow> None
       | Some e \<Rightarrow> if now - e_used e < t_idle t then Some e else None)"
  using assms
proof (induction "length (by_session t)" arbitrary: t r rule: less_induct)
  case (less t)
  note d = table_okD [OF less.prems]
  have young: ?case if "sweep_loop now t r = Some (t, r)" "\<forall>(u, s) \<in> set (by_age t). now - u < t_idle t"
    using that less.prems d(6) by (intro exI [of _ t]) (fastforce simp: fun_eq_iff split: option.splits)
  show ?case
  proof (cases "by_age t")
    case Nil
    then show ?thesis by (intro young) (simp_all add: sweep_loop.simps)
  next
    case (Cons p rest)
    obtain u s where p: "p = (u, s)" by force
    have min: "u \<le> u'" if "(u', s') \<in> set (by_age t)" for u' s'
      using d(3) that by (auto simp: Cons p less_eq_prod_def)
    show ?thesis
    proof (cases "now - u < t_idle t")
      case True
      then show ?thesis using min
        by (intro young) (fastforce simp: sweep_loop.simps Cons p)+
    next
      case False
      let ?t = "table_remove s t"
      obtain e where e: "hget (by_session t) s = Some e" "e_used e = u"
        using d(6) [of u s] by (auto simp: Cons p)
      have len: "length (by_session t) = Suc (length (by_session ?t))"
        using e hget_SomeD [OF e(1)] d(1) length_hdel [of "by_session t" s]
        by (cases "by_session t") (auto simp: table_remove_def)
      then obtain t' where t': "sweep_loop now ?t (r + 1) =
            Some (t', r + 1 + (length (by_session ?t) - length (by_session t')))"
          "table_ok t'" "length (by_session t') \<le> length (by_session ?t)" "t_cap t' = t_cap ?t"
          "hget (by_session t') = (\<lambda>s. case hget (by_session ?t) s of None \<Rightarrow> None
             | Some e \<Rightarrow> if now - e_used e < t_idle ?t then Some e else None)"
        using less.hyps [of ?t "r + 1"] remove_ok [OF less.prems] by auto
      have "sweep_loop now t r = sweep_loop now ?t (r + 1)"
        using False by (subst sweep_loop.simps) (simp add: Cons p)
      with t' len e False show ?thesis
        by (intro exI [of _ t']) (auto simp: remove_session fun_eq_iff split: option.splits)
    qed
  qed
qed

section \<open>What an arriving datagram does\<close>

text \<open>A table within its bound: what every operation needs and keeps.\<close>

definition table_fits :: "SessionTable \<Rightarrow> bool" where
  "table_fits t \<longleftrightarrow> table_ok t \<and> length (by_session t) \<le> max (t_cap t) 1 \<and> t_cap t \<le> 4294967296"

lemma touch_fits: "table_fits t \<Longrightarrow> table_fits (touch s now t)"
proof -
  assume fits: "table_fits t"
  then have "hm_ok (by_session t)" by (simp add: table_fits_def table_okD)
  then have "length (by_session (touch s now t)) = length (by_session t)"
    by (auto simp: touch_def length_hput hget_None_iff dest: hget_SomeD split: option.splits)
  with fits show ?thesis by (simp add: table_fits_def touch_ok)
qed

lemma evict_oldest_cases:
  assumes "table_ok t"
  obtains "by_session t = []" "evict_oldest t = (t, False)"
  | s e where "hget (by_session t) s = Some e" "evict_oldest t = (table_remove s t, True)"
      "\<And>s' e'. hget (by_session t) s' = Some e' \<Longrightarrow> (e_used e, s) \<le> (e_used e', s')"
      "length (by_session t) = Suc (length (by_session (table_remove s t)))"
proof (cases "by_age t")
  case Nil
  then show ?thesis using that(1) index_lengths(1) [OF assms] by (simp add: evict_oldest_def)
next
  case (Cons p rest)
  obtain u s where p: "p = (u, s)" by force
  note d = table_okD [OF assms]
  obtain e where e: "hget (by_session t) s = Some e" "e_used e = u"
    using d(6) [of u s] by (auto simp: Cons p)
  have "(e_used e, s) \<le> (e_used e', s')" if "hget (by_session t) s' = Some e'" for s' e'
    using d(6) [of "e_used e'" s'] d(3) that e(2) by (auto simp: Cons p)
  moreover have "length (by_session t) = Suc (length (by_session (table_remove s t)))"
    using e hget_SomeD [OF e(1)] d(1) length_hdel [of "by_session t" s]
    by (cases "by_session t") (auto simp: table_remove_def)
  ultimately show ?thesis using that(2) [OF e(1)] by (simp add: evict_oldest_def Cons p)
qed

lemma room_made:
  assumes "table_fits t"
  obtains t1 ev where "(if t_cap t \<le> length (by_session t) then evict_oldest t else (t, False)) = (t1, ev)"
    "table_ok t1" "t_cap t1 = t_cap t" "length (by_session t1) < max (t_cap t) 1"
    "hget (by_visitor t) v = None \<Longrightarrow> hget (by_visitor t1) v = None"
    "\<not> ev \<and> t1 = t \<and> (t_cap t \<le> length (by_session t) \<longrightarrow> by_session t = []) \<or>
     ev \<and> t_cap t \<le> length (by_session t) \<and> (\<exists>s e. hget (by_session t) s = Some e \<and> hget (by_session t1) = (hget (by_session t))(s := None) \<and>
       (\<forall>s' e'. hget (by_session t) s' = Some e' \<longrightarrow> (e_used e, s) \<le> (e_used e', s')))"
proof (cases "t_cap t \<le> length (by_session t)")
  case False
  with assms show ?thesis by (intro that [of t False]) (auto simp: table_fits_def)
next
  case True
  have ok: "table_ok t" using assms by (simp add: table_fits_def)
  show ?thesis
  proof (cases rule: evict_oldest_cases [OF ok])
    case 1
    with True ok show ?thesis by (intro that [of t False]) auto
  next
    case (2 s e)
    have "hget (by_visitor (table_remove s t)) v = None" if "hget (by_visitor t) v = None"
      using that by (auto simp: table_remove_def hmap_simps split: option.splits)
    moreover have "\<exists>s0 e. hget (by_session t) s0 = Some e \<and>
        hget (by_session (table_remove s t)) = (hget (by_session t))(s0 := None) \<and>
        (\<forall>s' e'. hget (by_session t) s' = Some e' \<longrightarrow> (e_used e, s0) \<le> (e_used e', s'))"
      using 2(1,3) remove_session by blast
    ultimately show ?thesis using 2(2,4) True assms
      by (intro that [of "table_remove s t" True]) (simp_all add: remove_ok ok table_fits_def)
  qed
qed

text \<open>The whole effect of \<open>inbound\<close> on the table's meaning, for the two kinds of visitor.\<close>

lemma inbound_known:
  assumes "table_ok t" "hget (by_session t) s = Some e" "e_visitor e = v"
  shows "table_inbound v now t =
    Some (touch s now t, \<lparr>in_session = s, in_fresh = False, in_evicted = False\<rparr>)"
  using table_okD(5) [OF assms(1), of v s] assms(2,3) by (auto simp: table_inbound_def)

lemma inbound_fresh:
  assumes fits: "table_fits t" and new: "hget (by_visitor t) v = None"
  obtains t' s ev kept where "table_inbound v now t = Some (t', \<lparr>in_session = s, in_fresh = True, in_evicted = ev\<rparr>)"
    "table_fits t'" "kept s = None" "hget (by_session t') = kept(s \<mapsto> \<lparr>e_visitor = v, e_used = now\<rparr>)"
    "\<not> ev \<and> kept = hget (by_session t) \<and> (t_cap t \<le> length (by_session t) \<longrightarrow> by_session t = []) \<or>
     ev \<and> t_cap t \<le> length (by_session t) \<and> (\<exists>s0 e. hget (by_session t) s0 = Some e \<and> kept = (hget (by_session t))(s0 := None) \<and>
       (\<forall>s' e'. hget (by_session t) s' = Some e' \<longrightarrow> (e_used e, s0) \<le> (e_used e', s')))"
proof -
  obtain t1 ev where t1: "(if t_cap t \<le> length (by_session t) then evict_oldest t else (t, False)) = (t1, ev)"
    and ok: "table_ok t1" "t_cap t1 = t_cap t" "length (by_session t1) < max (t_cap t) 1"
    and gone: "hget (by_visitor t1) v = None"
    and what: "\<not> ev \<and> t1 = t \<and> (t_cap t \<le> length (by_session t) \<longrightarrow> by_session t = []) \<or>
     ev \<and> t_cap t \<le> length (by_session t) \<and> (\<exists>s e. hget (by_session t) s = Some e \<and> hget (by_session t1) = (hget (by_session t))(s := None) \<and>
       (\<forall>s' e'. hget (by_session t) s' = Some e' \<longrightarrow> (e_used e, s) \<le> (e_used e', s')))"
    using room_made [OF fits, of v] new by metis
  have small: "length (by_session t1) < 4294967296"
    using ok(3) fits by (auto simp: table_fits_def)
  obtain id where id: "claim_id t1 = Some (t1\<lparr>t_next := id + 1\<rparr>, id)" "hget (by_session t1) id = None"
    using claim_id_returns [OF table_okD(1) [OF ok(1)] small] by auto
  let ?t1 = "t1\<lparr>t_next := id + 1\<rparr>"
  let ?t = "?t1\<lparr>by_visitor := hput v id (by_visitor ?t1),
    by_session := hput id \<lparr>e_visitor = v, e_used = now\<rparr> (by_session ?t1),
    by_age := insort_insert (now, id) (by_age ?t1)\<rparr>"
  have "table_ok ?t1" using ok(1) by (simp add: table_ok_def)
  from insert_ok [OF this, of v id now] gone id(2) have "table_ok ?t" by simp
  moreover have "length (by_session ?t) = Suc (length (by_session t1))"
    using id(2) table_okD(1) [OF ok(1)] by (simp add: length_hput hget_None_iff)
  ultimately have "table_fits ?t" using ok(2,3) fits by (auto simp: table_fits_def)
  moreover have "table_inbound v now t = Some (?t, \<lparr>in_session = id, in_fresh = True, in_evicted = ev\<rparr>)"
    using new t1 id(1) by (simp add: table_inbound_def)
  ultimately show ?thesis
    using what id(2) by (intro that [of ?t id ev "hget (by_session t1)"]) (auto simp: hmap_simps)
qed

section \<open>Sequences of operations\<close>

datatype table_op = OpInbound SocketAddr instant | OpOutbound u32 instant | OpSweep instant

fun table_step :: "table_op \<Rightarrow> SessionTable \<Rightarrow> SessionTable option" where
  "table_step (OpInbound v now) t = map_option fst (table_inbound v now t)"
| "table_step (OpOutbound s now) t = Some (fst (table_outbound s now t))"
| "table_step (OpSweep now) t = map_option fst (table_sweep now t)"

definition table_steps :: "table_op \<Rightarrow> SessionTable option \<Rightarrow> SessionTable option" where
  "table_steps op o' = Option.bind o' (table_step op)"

definition step_fits :: "SessionTable option \<Rightarrow> bool" where
  "step_fits o' \<longleftrightarrow> (\<exists>t. o' = Some t \<and> table_fits t)"

lemma inbound_fits:
  assumes "table_fits t"
  shows "\<exists>t' i. table_inbound v now t = Some (t', i) \<and> table_fits t'"
proof (cases "hget (by_visitor t) v")
  case None
  then show ?thesis by (rule inbound_fresh [OF assms, of v now]) blast
next
  case (Some s)
  then show ?thesis by (simp add: table_inbound_def touch_fits assms)
qed

lemma sweep_fits:
  assumes "table_fits t"
  shows "\<exists>t' n. table_sweep now t = Some (t', n) \<and> table_fits t'"
  using sweep_loop_returns [of t now 0] assms by (fastforce simp: table_fits_def table_sweep_def)

interpretation table: machine table_steps step_fits
proof unfold_locales
  fix o' op assume "step_fits o'"
  then obtain t where t: "o' = Some t" "table_fits t" by (auto simp: step_fits_def)
  show "step_fits (table_steps op o')"
  proof (cases op)
    case (OpInbound v now)
    with t show ?thesis using inbound_fits [OF t(2), of v now] by (auto simp: table_steps_def step_fits_def)
  next
    case (OpOutbound s now)
    with t show ?thesis
      by (auto simp: table_steps_def step_fits_def table_outbound_def touch_fits split: option.splits)
  next
    case (OpSweep now)
    with t show ?thesis using sweep_fits [OF t(2), of now] by (auto simp: table_steps_def step_fits_def)
  qed
qed

lemma fits_check: "table_fits t \<Longrightarrow> check t"
  using hm_ok_get [OF table_okD(1), of t]
  by (auto simp: table_fits_def check_def index_lengths list_all_iff table_okD(5,6))

lemma new_table_fits: "cap \<le> 4294967296 \<Longrightarrow> table_fits (new_table cap idle)"
  by (simp add: table_fits_def new_table_def table_ok_def)

text \<open>
  C12: the three indexes never disagree. Through any sequence of arriving datagrams, replies and
  sweeps at any instants, every operation returns, and the table passes the source's own
  \<open>check\<close>: no more sessions than the cap (one when the cap is 0), and the three indexes listing
  the same sessions.
\<close>

theorem indexes_never_disagree:
  assumes "cap \<le> 4294967296"
  shows "\<exists>t. fold table_steps ops (Some (new_table cap idle)) = Some t \<and> check t"
proof -
  have "step_fits (Some (new_table cap idle))" by (simp add: step_fits_def new_table_fits assms)
  from table.run_inv [OF this, of ops] show ?thesis by (auto simp: step_fits_def intro: fits_check)
qed

theorem indexes_never_disagree_witness:
  "\<exists>t. fold table_steps [OpInbound (SocketV4 1 9) 5, OpInbound (SocketV4 2 9) 6, OpSweep 7]
     (Some (new_table 1 60)) = Some t \<and> check t"
  by (rule indexes_never_disagree) simp

text \<open>
  C23: an arriving datagram is routed for its own visitor and nobody else's. A reply to the
  session it was given finds that visitor. A visitor the table knows keeps its id. A new one
  gets an id no remaining session holds, and every other session keeps its visitor except one
  evicted to make room: that happens exactly when the table is at its cap and not empty, and the
  session that goes is the least recently used.
\<close>

theorem inbound_routes:
  assumes fits: "table_fits t"
  shows "\<exists>t' i. table_inbound v now t = Some (t', i) \<and>
    snd (table_outbound (in_session i) later t') = Some v \<and>
    (in_fresh i \<longleftrightarrow> hget (by_visitor t) v = None) \<and>
    (\<not> in_fresh i \<longrightarrow> hget (by_visitor t) v = Some (in_session i)) \<and>
    (in_evicted i \<longleftrightarrow> in_fresh i \<and> t_cap t \<le> length (by_session t) \<and> by_session t \<noteq> []) \<and>
    (\<exists>gone. (\<forall>s. s \<noteq> in_session i \<longrightarrow> snd (table_outbound s later t') =
          (if in_evicted i \<and> s = gone then None else snd (table_outbound s later t))) \<and>
       (in_fresh i \<and> \<not> (in_evicted i \<and> in_session i = gone) \<longrightarrow> snd (table_outbound (in_session i) later t) = None) \<and>
       (in_evicted i \<longrightarrow> (\<exists>e. hget (by_session t) gone = Some e \<and>
          (\<forall>s' e'. hget (by_session t) s' = Some e' \<longrightarrow> e_used e \<le> e_used e'))))"
proof (cases "hget (by_visitor t) v")
  case (Some s)
  have ok: "table_ok t" using fits by (simp add: table_fits_def)
  then obtain e where e: "hget (by_session t) s = Some e" "e_visitor e = v"
    using Some by (auto simp: table_okD(5))
  from Some e inbound_known [OF ok e] show ?thesis
    by (auto simp: table_outbound_def touch_session split: option.splits)
next
  case None
  obtain t' s ev kept where t': "table_inbound v now t = Some (t', \<lparr>in_session = s, in_fresh = True, in_evicted = ev\<rparr>)"
    and kept: "kept s = None" "hget (by_session t') = kept(s \<mapsto> \<lparr>e_visitor = v, e_used = now\<rparr>)"
    and what: "\<not> ev \<and> kept = hget (by_session t) \<and> (t_cap t \<le> length (by_session t) \<longrightarrow> by_session t = []) \<or>
     ev \<and> t_cap t \<le> length (by_session t) \<and> (\<exists>s0 e. hget (by_session t) s0 = Some e \<and> kept = (hget (by_session t))(s0 := None) \<and>
       (\<forall>s' e'. hget (by_session t) s' = Some e' \<longrightarrow> (e_used e, s0) \<le> (e_used e', s')))"
    using inbound_fresh [OF fits None, of now] by metis
  have out: "snd (table_outbound s' later x) = map_option e_visitor (hget (by_session x) s')" for s' x
    by (simp add: table_outbound_def split: option.splits)
  show ?thesis
  proof (cases ev)
    case False
    with what None t' kept show ?thesis by (auto simp: out)
  next
    case True
    with what obtain s0 e where s0: "hget (by_session t) s0 = Some e" "kept = (hget (by_session t))(s0 := None)"
        "\<forall>s' e'. hget (by_session t) s' = Some e' \<longrightarrow> e_used e \<le> e_used e'"
      by (fastforce simp: less_eq_prod_def)
    moreover from this have "by_session t \<noteq> []" by auto
    ultimately show ?thesis using True what None t' kept
      by (intro exI [of _ t'] exI [of _ "\<lparr>in_session = s, in_fresh = True, in_evicted = ev\<rparr>"] conjI exI [of _ s0])
         (auto simp: out split: if_splits)
  qed
qed

theorem inbound_routes_witness:
  "\<exists>t' i. table_inbound (SocketV4 7 53) 3 (new_table 8 60) = Some (t', i) \<and>
     snd (table_outbound (in_session i) 4 t') = Some (SocketV4 7 53)"
  using inbound_routes [OF new_table_fits, of 8 "SocketV4 7 53" 3 60 4] by auto

text \<open>
  A sweep returns, removes exactly the sessions idle for the full time, counts them, and
  touches no other.
\<close>

theorem sweep_exact:
  assumes "table_ok t"
  shows "\<exists>t' n. table_sweep now t = Some (t', n) \<and> table_ok t' \<and>
    n + length (by_session t') = length (by_session t) \<and>
    (\<forall>s. hget (by_session t') s = (case hget (by_session t) s of None \<Rightarrow> None
       | Some e \<Rightarrow> if t_idle t \<le> now - e_used e then None else Some e))"
proof -
  obtain t' where t': "table_sweep now t = Some (t', length (by_session t) - length (by_session t'))"
    "table_ok t'" "length (by_session t') \<le> length (by_session t)"
    "hget (by_session t') = (\<lambda>s. case hget (by_session t) s of None \<Rightarrow> None
       | Some e \<Rightarrow> if now - e_used e < t_idle t then Some e else None)"
    using sweep_loop_returns [OF assms, of now 0] by (auto simp: table_sweep_def)
  then show ?thesis by (intro exI [of _ t'] exI conjI) (auto split: option.splits)
qed

theorem sweep_exact_witness:
  "\<exists>t'. table_sweep 70 \<lparr>t_cap = 8, t_idle = 60, t_next = 2,
       by_visitor = [(SocketV4 7 53, 0), (SocketV4 8 53, 1)],
       by_session = [(0, \<lparr>e_visitor = SocketV4 7 53, e_used = 5\<rparr>), (1, \<lparr>e_visitor = SocketV4 8 53, e_used = 50\<rparr>)],
       by_age = [(5, 0), (50, 1)]\<rparr> = Some (t', 1) \<and> hget (by_session t') 0 = None \<and> hget (by_session t') 1 \<noteq> None"
proof -
  let ?t = "\<lparr>t_cap = 8, t_idle = 60, t_next = 2, by_visitor = [(SocketV4 7 53, 0), (SocketV4 8 53, 1)],
    by_session = [(0, \<lparr>e_visitor = SocketV4 7 53, e_used = 5\<rparr>), (1, \<lparr>e_visitor = SocketV4 8 53, e_used = 50\<rparr>)],
    by_age = [(5, 0), (50, 1)]\<rparr> :: SessionTable"
  have "table_ok ?t" by (auto simp: table_ok_def hm_ok_def less_eq_prod_def)
  from sweep_exact [OF this, of 70] obtain t' n where t': "table_sweep 70 ?t = Some (t', n)"
    "\<forall>s. hget (by_session t') s = (case hget (by_session ?t) s of None \<Rightarrow> None
       | Some e \<Rightarrow> if t_idle ?t \<le> 70 - e_used e then None else Some e)" by blast
  moreover have "map_option snd (table_sweep 70 ?t) = Some 1"
    by (simp add: table_sweep_def sweep_loop.simps table_remove_def hdel_def)
  ultimately show ?thesis by simp
qed

end
