(* ===== verification/Server_Udp.thy ===== *)
theory Server_Udp
  imports Udp_Sender Udp_Table Allow_List Server_Ports
begin

text \<open>
  \<open>hawse-core/src/server/udp/mod.rs\<close>: a UDP service on the server. Its table, its counters and its
  sender are its state; what its public socket received or could send, and when, are arguments. What
  goes out on the public socket, or as a datagram to the client, is part of the result.
\<close>

definition UDP_SWEEP_EVERY :: duration where "UDP_SWEEP_EVERY = secs 10"

record 'net UdpService =
  us_id :: u16
  us_name :: string
  us_table :: SessionTable
  us_drops :: Drops
  us_allow :: "'net AllowList"
  us_proxy_protocol :: bool
  us_claim :: Port

definition new_udp_service :: "u16 \<Rightarrow> string \<Rightarrow> Port \<Rightarrow> nat \<Rightarrow> 'net AllowList \<Rightarrow> bool \<Rightarrow> 'net UdpService" where
  "new_udp_service sid name port udp_sessions allow proxy =
     \<lparr>us_id = sid, us_name = name, us_table = new_table udp_sessions IDLE, us_drops = new_drops,
      us_allow = allow, us_proxy_protocol = proxy, us_claim = port\<rparr>"

definition port_claim_drop :: "'net UdpService \<Rightarrow> PortAllocator \<Rightarrow> PortAllocator" where
  "port_claim_drop s ports = fst (release (us_claim s) ports)"

definition udp_admits :: "'net ipnet \<Rightarrow> SocketAddr \<Rightarrow> 'net UdpService \<Rightarrow> 'net UdpService \<times> bool" where
  "udp_admits net visitor s =
     (let admitted = allow_permits net (us_allow s) (sa_ip visitor)
      in (if admitted then s else s\<lparr>us_drops := not_allowed (us_drops s)\<rparr>, admitted))"

definition udp_deliver :: "(bytes \<Rightarrow> (DatagramHeader \<times> bytes) option) \<Rightarrow> (SocketAddr \<Rightarrow> bytes \<Rightarrow> bool) \<Rightarrow> instant \<Rightarrow> bytes \<Rightarrow>
    'net UdpService \<Rightarrow> 'net UdpService \<times> (SocketAddr \<times> bytes) option" where
  "udp_deliver take_header sends now packet s =
     (case packet_decode take_header packet of
        Inl _ \<Rightarrow> (s\<lparr>us_drops := unknown (us_drops s)\<rparr>, None)
      | Inr (header, payload) \<Rightarrow>
          if dh_service_id header \<noteq> us_id s then (s\<lparr>us_drops := unknown (us_drops s)\<rparr>, None)
          else case table_outbound (dh_session header) now (us_table s) of
                 (t, None) \<Rightarrow> (s\<lparr>us_table := t, us_drops := unknown (us_drops s)\<rparr>, None)
               | (t, Some visitor) \<Rightarrow>
                   let s = s\<lparr>us_table := t\<rparr>
                   in if sends visitor payload then (s, Some (visitor, payload))
                      else (s\<lparr>us_drops := socket_drop (us_drops s)\<rparr>, None))"

text \<open>
  The arms of \<open>inbound\<close>'s loop that change anything: a sweep, and a datagram from a visitor. \<open>None\<close>
  would be a search for a free session id that never ends; the table shows it does.
\<close>

definition udp_sweep :: "instant \<Rightarrow> 'net UdpService \<Rightarrow> 'net UdpService option" where
  "udp_sweep now s = map_option (\<lambda>(t, _). s\<lparr>us_table := t\<rparr>) (table_sweep now (us_table s))"

definition udp_inbound :: "(DatagramHeader \<Rightarrow> bytes) \<Rightarrow> 'net ipnet \<Rightarrow> link \<Rightarrow> SocketAddr \<Rightarrow> bytes \<Rightarrow> instant \<Rightarrow>
    'net UdpService \<times> Sender \<Rightarrow> (('net UdpService \<times> Sender) \<times> bytes option) option" where
  "udp_inbound put net link visitor payload now = (\<lambda>(s, sender).
     case udp_admits net visitor s of
       (s, False) \<Rightarrow> Some ((s, sender), None)
     | (s, True) \<Rightarrow>
         (case table_inbound visitor now (us_table s) of
            None \<Rightarrow> None
          | Some (t, seen) \<Rightarrow>
              let s = s\<lparr>us_table := t\<rparr>;
                  s = (if in_evicted seen then s\<lparr>us_drops := at_cap (us_drops s)\<rparr> else s);
                  header = \<lparr>dh_service_id = us_id s, dh_session = in_session seen\<rparr>;
                  ((sender, drops), out) =
                    (if us_proxy_protocol s then udp_send_from put link header visitor payload (sender, us_drops s)
                     else udp_send put link header payload (sender, us_drops s))
              in Some ((s\<lparr>us_drops := drops\<rparr>, sender), out)))"

text \<open>Which service a datagram from the client is for.\<close>

definition server_demux :: "(bytes \<Rightarrow> (DatagramHeader \<times> bytes) option) \<Rightarrow> (u16, 'net UdpService) hmap \<Rightarrow> bytes \<Rightarrow> u16 option" where
  "server_demux take_header services packet =
     (case packet_decode take_header packet of
        Inl _ \<Rightarrow> None
      | Inr (header, _) \<Rightarrow> if hget services (dh_service_id header) = None then None else Some (dh_service_id header))"

section \<open>What reaches whom\<close>

text \<open>The packet the sender got to dispatch, wherever it went.\<close>

definition inbound_packet :: "(DatagramHeader \<Rightarrow> bytes) \<Rightarrow> u16 \<Rightarrow> u32 \<Rightarrow> bool \<Rightarrow> SocketAddr \<Rightarrow> bytes \<Rightarrow> FrameError + bytes" where
  "inbound_packet put sid session proxy visitor payload =
     (let header = \<lparr>dh_service_id = sid, dh_session = session\<rparr>
      in if proxy then encode_from put header visitor payload else packet_encode put header payload)"

lemma udp_inbound_refused:
  assumes "\<not> allow_permits net (us_allow s) (sa_ip visitor)"
  shows "udp_inbound put net link visitor payload now (s, sender) =
    Some ((s\<lparr>us_drops := not_allowed (us_drops s)\<rparr>, sender), None)"
  using assms by (simp add: udp_inbound_def udp_admits_def Let_def)

lemma udp_inbound_admitted:
  assumes "allow_permits net (us_allow s) (sa_ip visitor)" "table_inbound visitor now (us_table s) = Some (t, seen)"
  obtains sender' drops d0 out where "udp_inbound put net link visitor payload now (s, sender) =
      Some ((s\<lparr>us_table := t, us_drops := drops\<rparr>, sender'), out)"
    "dispatch link (inbound_packet put (us_id s) (in_session seen) (us_proxy_protocol s) visitor payload) (sender, d0) =
      ((sender', drops), out)"
proof -
  let ?d = "if in_evicted seen then at_cap (us_drops s) else us_drops s"
  obtain sender' drops out where d: "dispatch link (inbound_packet put (us_id s) (in_session seen) (us_proxy_protocol s) visitor payload)
      (sender, ?d) = ((sender', drops), out)" by (metis surj_pair)
  then have "udp_inbound put net link visitor payload now (s, sender) = Some ((s\<lparr>us_table := t, us_drops := drops\<rparr>, sender'), out)"
    using assms by (auto simp: udp_inbound_def udp_admits_def inbound_packet_def udp_send_def udp_send_from_def Let_def)
  with d that show ?thesis by blast
qed

end
