(* ===== verification/Client_Udp.thy ===== *)
theory Client_Udp
  imports Udp_Sender Traffic
begin

text \<open>
  \<open>hawse-core/src/client/udp.rs\<close>: a client's UDP services, each with one socket toward the local
  service per visitor session. A socket, and the session that owns it, is known by a number
  nobody else has, as an \<open>Arc\<close> is by its address; what the host does with a socket (whether it
  connects, whether a send or a receive works) is an argument. Opening a session waits for its
  socket between looking the session up and putting it in, so the two halves are operations of
  their own. The meter a service reports to is passed along as the client's \<open>Traffic\<close>.
\<close>

definition SESSION_CAP :: nat where "SESSION_CAP = 4096"
definition BOUND_WAIT :: duration where "BOUND_WAIT = secs 5"

record LocalSession =
  ls_who :: nat
  ls_used :: instant

record UdpLocal =
  ul_service :: string
  ul_id :: u16
  ul_local :: string
  ul_proxy :: "SocketAddr option"
  ul_idle :: duration
  ul_cap :: nat
  ul_sender :: Sender
  ul_queue_taken :: bool
  ul_sessions :: "(u32, LocalSession) hmap"
  ul_cancelled :: "nat set"
  ul_refused_warned :: bool
  ul_no_socket_warned :: bool
  ul_drops :: Drops
  ul_cancel :: bool

definition new_udp_local :: "string \<Rightarrow> u16 \<Rightarrow> string \<Rightarrow> duration \<Rightarrow> nat \<Rightarrow> SocketAddr option \<Rightarrow> UdpLocal" where
  "new_udp_local service sid local idle cap proxy =
     \<lparr>ul_service = service, ul_id = sid, ul_local = local, ul_proxy = proxy, ul_idle = idle, ul_cap = cap,
      ul_sender = new_sender, ul_queue_taken = False, ul_sessions = [], ul_cancelled = {},
      ul_refused_warned = False, ul_no_socket_warned = False, ul_drops = new_drops, ul_cancel = False\<rparr>"

section \<open>The registry\<close>

type_synonym Registry = "(u16, UdpLocal) hmap"

definition registry_insert :: "UdpLocal \<Rightarrow> Registry \<Rightarrow> Registry" where
  "registry_insert l r = hput (ul_id l) l r"

definition registry_get :: "u16 \<Rightarrow> Registry \<Rightarrow> UdpLocal option" where
  "registry_get sid r = hget r sid"

definition registry_clear :: "Registry \<Rightarrow> Registry" where
  "registry_clear r = []"

text \<open>Removing a service also cancels it; the cancelled service is returned.\<close>

definition registry_remove :: "u16 \<Rightarrow> Registry \<Rightarrow> Registry \<times> UdpLocal option" where
  "registry_remove sid r = (hdel sid r, map_option (\<lambda>l. l\<lparr>ul_cancel := True\<rparr>) (hget r sid))"

text \<open>
  \<open>wait_for\<close>: what the registry holds at the start and after each change until the deadline; the
  first of them that has the service.
\<close>

fun registry_wait_for :: "u16 \<Rightarrow> Registry list \<Rightarrow> UdpLocal option" where
  "registry_wait_for sid [] = None"
| "registry_wait_for sid (r # later) =
     (case registry_get sid r of Some l \<Rightarrow> Some l | None \<Rightarrow> registry_wait_for sid later)"

section \<open>Sessions toward the local service\<close>

text \<open>\<open>min_by_key\<close>: the first of the sessions used longest ago, in the map's order.\<close>

fun quietest :: "(u32, LocalSession) hmap \<Rightarrow> u32 option" where
  "quietest [] = None"
| "quietest ((sid, s) # m) =
     (case quietest m of
        None \<Rightarrow> Some sid
      | Some other \<Rightarrow> (case hget m other of
          Some o' \<Rightarrow> if ls_used o' < ls_used s then Some other else Some sid
        | None \<Rightarrow> Some sid))"

definition session_touch :: "u32 \<Rightarrow> instant \<Rightarrow> UdpLocal \<Rightarrow> UdpLocal" where
  "session_touch sid now l =
     (case hget (ul_sessions l) sid of
        Some s \<Rightarrow> l\<lparr>ul_sessions := hput sid (s\<lparr>ls_used := now\<rparr>) (ul_sessions l)\<rparr>
      | None \<Rightarrow> l)"

definition no_socket :: "UdpLocal \<Rightarrow> UdpLocal" where
  "no_socket l = l\<lparr>ul_no_socket_warned := True\<rparr>"

definition note_err :: "bool \<Rightarrow> UdpLocal \<Rightarrow> UdpLocal" where
  "note_err refused l = (if refused then l\<lparr>ul_refused_warned := True\<rparr> else l)"

definition heard_from_local :: "UdpLocal \<Rightarrow> UdpLocal" where
  "heard_from_local l = (if ul_refused_warned l then l\<lparr>ul_refused_warned := False\<rparr> else l)"

text \<open>
  The second half of \<open>session\<close>, once a socket of its own connected: evict at the cap, and put the
  session in unless another task has meanwhile. The flag says a reader was started for it.
\<close>

definition session_insert :: "u32 \<Rightarrow> nat \<Rightarrow> instant \<Rightarrow> UdpLocal \<times> Traffic \<Rightarrow> (UdpLocal \<times> Traffic) \<times> LocalSession \<times> bool" where
  "session_insert sid who now = (\<lambda>(l, tr).
     (let full = (ul_cap l \<le> length (ul_sessions l) \<and> hget (ul_sessions l) sid = None);
          l = (case (if full then quietest (ul_sessions l) else None) of
                 None \<Rightarrow> l
               | Some old \<Rightarrow>
                   (case hget (ul_sessions l) old of
                      None \<Rightarrow> l
                    | Some gone \<Rightarrow> l\<lparr>ul_sessions := hdel old (ul_sessions l),
                        ul_cancelled := insert (ls_who gone) (ul_cancelled l), ul_drops := at_cap (ul_drops l)\<rparr>))
      in case hget (ul_sessions l) sid of
           Some held \<Rightarrow> ((l, tr), held, False)
         | None \<Rightarrow>
             let s = \<lparr>ls_who = who, ls_used = now\<rparr>
             in ((l\<lparr>ul_sessions := hput sid s (ul_sessions l)\<rparr>, meter_open (ul_service l) tr), s, True)))"

text \<open>\<open>session\<close> as a whole: \<open>connected\<close> is the number of the socket that connected, if one did.\<close>

definition local_session :: "u32 \<Rightarrow> nat option \<Rightarrow> instant \<Rightarrow> UdpLocal \<times> Traffic \<Rightarrow> (UdpLocal \<times> Traffic) \<times> LocalSession option" where
  "local_session sid connected now = (\<lambda>(l, tr).
     case hget (ul_sessions l) sid of
       Some found \<Rightarrow> ((l, tr), Some found)
     | None \<Rightarrow>
         (case connected of
            None \<Rightarrow> (((no_socket l)\<lparr>ul_drops := socket_drop (ul_drops l)\<rparr>, tr), None)
          | Some who \<Rightarrow> (case session_insert sid who now (l, tr) of (st, s, _) \<Rightarrow> (st, Some s))))"

text \<open>
  \<open>deliver\<close>: a packet from the server on its way to the local service. \<open>sends\<close> says what the socket
  made of a datagram: sent, or an error and whether it was a refusal. The last part of the result is
  what went out, and on whose socket.
\<close>

datatype socket_result = SockSent | SockErr bool

definition local_deliver :: "(bytes \<Rightarrow> (DatagramHeader \<times> bytes) option) \<Rightarrow> nat option \<Rightarrow> (bytes \<Rightarrow> socket_result) \<Rightarrow> instant \<Rightarrow>
    bytes \<Rightarrow> UdpLocal \<times> Traffic \<Rightarrow> (UdpLocal \<times> Traffic) \<times> (nat \<times> bytes) option" where
  "local_deliver take_header connected sends now packet = (\<lambda>(l, tr).
     let decoded = (case ul_proxy l of
           Some listener \<Rightarrow>
             (case decode_from take_header packet of
                Inl e \<Rightarrow> Inl e
              | Inr (header, visitor, payload) \<Rightarrow> Inr (header, Some (visitor, listener), payload))
         | None \<Rightarrow>
             (case packet_decode take_header packet of
                Inl e \<Rightarrow> Inl e
              | Inr (header, payload) \<Rightarrow> Inr (header, None, payload)))
     in case decoded of
          Inl _ \<Rightarrow> ((l\<lparr>ul_drops := unknown (ul_drops l)\<rparr>, tr), None)
        | Inr (header, proxied, payload) \<Rightarrow>
            if dh_service_id header \<noteq> ul_id l then ((l\<lparr>ul_drops := unknown (ul_drops l)\<rparr>, tr), None)
            else case local_session (dh_session header) connected now (l, tr) of
                   (st, None) \<Rightarrow> (st, None)
                 | ((l, tr), Some s) \<Rightarrow>
                     let l = session_touch (dh_session header) now l;
                         datagram = (case proxied of Some (visitor, listener) \<Rightarrow> v2_udp visitor listener @ payload | None \<Rightarrow> payload)
                     in case sends datagram of
                          SockSent \<Rightarrow> ((l, datagram_toward_local (length payload) (ul_service l) tr), Some (ls_who s, datagram))
                        | SockErr refused \<Rightarrow> (((note_err refused l)\<lparr>ul_drops := socket_drop (ul_drops l)\<rparr>, tr), None))"

definition forget_session :: "u32 \<Rightarrow> nat \<Rightarrow> UdpLocal \<Rightarrow> UdpLocal" where
  "forget_session sid who l =
     (case hget (ul_sessions l) sid of
        Some held \<Rightarrow> if ls_who held = who then l\<lparr>ul_sessions := hdel sid (ul_sessions l)\<rparr> else l
      | None \<Rightarrow> l)"

datatype io_kind = ConnectionRefused | HostUnreachable | NetworkUnreachable | WouldBlock | OtherIo

definition survivable :: "io_kind \<Rightarrow> bool" where
  "survivable k \<longleftrightarrow> k = ConnectionRefused \<or> k = HostUnreachable \<or> k = NetworkUnreachable"

text \<open>
  One turn of \<open>read_replies\<close> for the session \<open>who\<close> under the id \<open>sid\<close>: the arm that won. The result
  says whether the reader goes on, and what its reply left as a datagram. \<open>used\<close> is the session's
  own clock, which a session that left the table keeps.
\<close>

datatype reader_arm = ReaderCancelled | ReaderExpired | ReaderGot bytes | ReaderErr io_kind

definition read_replies_turn :: "(DatagramHeader \<Rightarrow> bytes) \<Rightarrow> link \<Rightarrow> u32 \<Rightarrow> nat \<Rightarrow> instant \<Rightarrow> reader_arm \<Rightarrow> instant \<Rightarrow>
    UdpLocal \<times> Traffic \<Rightarrow> ((UdpLocal \<times> Traffic) \<times> bool) \<times> bytes option" where
  "read_replies_turn put link sid who used arm now = (\<lambda>(l, tr).
     case arm of
       ReaderCancelled \<Rightarrow> (((forget_session sid who l, tr), False), None)
     | ReaderExpired \<Rightarrow>
         if used + ul_idle l \<le> now then (((forget_session sid who l, tr), False), None) else (((l, tr), True), None)
     | ReaderErr k \<Rightarrow>
         if k = WouldBlock then (((l, tr), True), None)
         else let l = note_err (k = ConnectionRefused) l
              in if survivable k then (((l, tr), True), None) else (((forget_session sid who l, tr), False), None)
     | ReaderGot reply \<Rightarrow>
         let l = (case hget (ul_sessions l) sid of
                    Some held \<Rightarrow> if ls_who held = who then session_touch sid now l else l | None \<Rightarrow> l);
             l = heard_from_local l;
             ((sender, drops), out) = udp_send put link \<lparr>dh_service_id = ul_id l, dh_session = sid\<rparr> reply (ul_sender l, ul_drops l)
         in (((l\<lparr>ul_sender := sender, ul_drops := drops\<rparr>, datagram_from_local (length reply) (ul_service l) tr), True), out))"

text \<open>The last handle to a service drops: its drops go to the service's meter.\<close>

definition udp_local_drop :: "UdpLocal \<Rightarrow> Traffic \<Rightarrow> Traffic" where
  "udp_local_drop l tr = meter_dropped (drops_total (drops_snapshot (ul_drops l))) (ul_service l) tr"

text \<open>
  The start of \<open>serve_bulk\<close>: the service a bulk stream is for, or the code it is refused with. The
  one queue a service has is taken by the first stream.
\<close>

definition serve_bulk_start :: "u16 \<Rightarrow> Registry list \<Rightarrow> u32 + UdpLocal" where
  "serve_bulk_start sid seen =
     (case registry_wait_for sid seen of
        None \<Rightarrow> Inl UNKNOWN_SERVICE
      | Some l \<Rightarrow> if ul_queue_taken l then Inl UNKNOWN_SERVICE else Inr (l\<lparr>ul_queue_taken := True\<rparr>))"

text \<open>Which service a datagram is for, if the connection has it.\<close>

definition client_demux :: "(bytes \<Rightarrow> (DatagramHeader \<times> bytes) option) \<Rightarrow> Registry \<Rightarrow> bytes \<Rightarrow> UdpLocal option" where
  "client_demux take_header r packet =
     (case packet_decode take_header packet of
        Inl _ \<Rightarrow> None
      | Inr (header, _) \<Rightarrow> registry_get (dh_service_id header) r)"

section \<open>The table of sessions\<close>

lemma quietest_least:
  assumes "hm_ok m" "m \<noteq> []"
  obtains sid s where "quietest m = Some sid" "hget m sid = Some s" "\<forall>i t. hget m i = Some t \<longrightarrow> ls_used s \<le> ls_used t"
proof -
  have "\<exists>sid s. quietest m = Some sid \<and> hget m sid = Some s \<and> (\<forall>i t. hget m i = Some t \<longrightarrow> ls_used s \<le> ls_used t)"
    using assms
  proof (induction m)
    case (Cons p m)
    obtain sid s where p: "p = (sid, s)" by force
    have new: "hget m sid = None" "hm_ok m" using Cons.prems(1) by (auto simp: p hm_ok_def map_of_eq_None_iff)
    show ?case
    proof (cases "m = []")
      case False
      then obtain i t where t: "quietest m = Some i" "hget m i = Some t" "\<forall>j u. hget m j = Some u \<longrightarrow> ls_used t \<le> ls_used u"
        using Cons.IH new(2) by blast
      then have "i \<noteq> sid" using new(1) by auto
      show ?thesis
      proof (cases "ls_used t < ls_used s")
        case True
        with t \<open>i \<noteq> sid\<close> show ?thesis by (intro exI [of _ i] exI [of _ t]) (auto simp: p)
      next
        case False
        then have "ls_used s \<le> ls_used u" if "hget m j = Some u" for j u using t(3) that by (metis leI le_trans)
        with False t \<open>i \<noteq> sid\<close> show ?thesis by (intro exI [of _ sid] exI [of _ s]) (auto simp: p)
      qed
    qed (simp add: p)
  qed simp
  with that show ?thesis by blast
qed

text \<open>
  What a service keeps of its sessions: no more than the cap, each on a socket of its own, and none
  that was told to end. \<open>issued\<close> are the numbers of the sockets made so far.
\<close>

definition local_ok :: "nat set \<Rightarrow> UdpLocal \<Rightarrow> bool" where
  "local_ok issued l \<longleftrightarrow>
     hm_ok (ul_sessions l) \<and> length (ul_sessions l) \<le> ul_cap l \<and> ul_cancelled l \<subseteq> issued \<and>
     (\<forall>i s. hget (ul_sessions l) i = Some s \<longrightarrow> ls_who s \<in> issued \<and> ls_who s \<notin> ul_cancelled l) \<and>
     (\<forall>i j s t. hget (ul_sessions l) i = Some s \<longrightarrow> hget (ul_sessions l) j = Some t \<longrightarrow> ls_who s = ls_who t \<longrightarrow> i = j)"

lemma local_okD:
  assumes "local_ok issued l"
  shows "hm_ok (ul_sessions l)" "length (ul_sessions l) \<le> ul_cap l" "ul_cancelled l \<subseteq> issued"
    "\<And>i s. hget (ul_sessions l) i = Some s \<Longrightarrow> ls_who s \<in> issued \<and> ls_who s \<notin> ul_cancelled l"
    "\<And>i j s t. hget (ul_sessions l) i = Some s \<Longrightarrow> hget (ul_sessions l) j = Some t \<Longrightarrow> ls_who s = ls_who t \<Longrightarrow> i = j"
  using assms by (auto simp: local_ok_def)

lemma local_ok_more: "local_ok issued l \<Longrightarrow> issued \<subseteq> issued' \<Longrightarrow> local_ok issued' l"
  by (auto simp: local_ok_def)

text \<open>Everything but the sessions, the cap and the cancelled ones is beside the invariant.\<close>

lemma local_ok_same:
  "ul_sessions l' = ul_sessions l \<Longrightarrow> ul_cancelled l' = ul_cancelled l \<Longrightarrow> ul_cap l' = ul_cap l \<Longrightarrow>
   local_ok issued l' = local_ok issued l"
  by (simp add: local_ok_def)

lemma local_ok_sub:
  assumes "local_ok issued l" "hm_ok m" "length m \<le> ul_cap l" "ul_cap l' = ul_cap l" "ul_sessions l' = m"
    and "ul_cancelled l' \<subseteq> issued"
    and "\<And>i s. hget m i = Some s \<Longrightarrow> \<exists>s0. hget (ul_sessions l) i = Some s0 \<and> ls_who s0 = ls_who s \<and> ls_who s \<notin> ul_cancelled l'"
  shows "local_ok issued l'"
  unfolding local_ok_def
proof (intro conjI allI impI)
  fix i j s t assume "hget (ul_sessions l') i = Some s" "hget (ul_sessions l') j = Some t" "ls_who s = ls_who t"
  then obtain s0 t0 where "hget (ul_sessions l) i = Some s0" "hget (ul_sessions l) j = Some t0" "ls_who s0 = ls_who t0"
    using assms(5,7) by metis
  then show "i = j" by (rule local_okD(5) [OF assms(1)])
next
  fix i s assume "hget (ul_sessions l') i = Some s"
  then obtain s0 where "hget (ul_sessions l) i = Some s0" "ls_who s0 = ls_who s" "ls_who s \<notin> ul_cancelled l'"
    using assms(5,7) by blast
  then show "ls_who s \<in> issued" "ls_who s \<notin> ul_cancelled l'" using local_okD(4) [OF assms(1)] by metis+
qed (use assms in simp_all)

lemma touch_local_ok: "local_ok issued l \<Longrightarrow> local_ok issued (session_touch sid now l)"
proof (cases "hget (ul_sessions l) sid")
  case (Some s)
  assume ok: "local_ok issued l"
  note d = local_okD [OF ok]
  have len: "length (hput sid (s\<lparr>ls_used := now\<rparr>) (ul_sessions l)) = length (ul_sessions l)"
    using d(1) hget_SomeD [OF Some] by (simp add: length_hput)
  show ?thesis
    by (rule local_ok_sub [OF ok, of "hput sid (s\<lparr>ls_used := now\<rparr>) (ul_sessions l)"])
      (use d len Some in \<open>auto simp: session_touch_def hmap_simps split: if_splits\<close>)
qed (simp add: session_touch_def)

lemma forget_local_ok: "local_ok issued l \<Longrightarrow> local_ok issued (forget_session sid who l)"
proof -
  assume ok: "local_ok issued l"
  note d = local_okD [OF ok]
  have "local_ok issued (l\<lparr>ul_sessions := hdel sid (ul_sessions l)\<rparr>)"
    by (rule local_ok_sub [OF ok, of "hdel sid (ul_sessions l)"])
      (use d in \<open>auto simp: hmap_simps length_hdel split: if_splits\<close>)
  with ok show ?thesis by (simp add: forget_session_def split: option.split)
qed

text \<open>Room is made before a session goes in.\<close>

definition make_room :: "u32 \<Rightarrow> UdpLocal \<Rightarrow> UdpLocal" where
  "make_room sid l =
     (case (if ul_cap l \<le> length (ul_sessions l) \<and> hget (ul_sessions l) sid = None then quietest (ul_sessions l) else None) of
        None \<Rightarrow> l
      | Some old \<Rightarrow>
          (case hget (ul_sessions l) old of
             None \<Rightarrow> l
           | Some gone \<Rightarrow> l\<lparr>ul_sessions := hdel old (ul_sessions l),
               ul_cancelled := insert (ls_who gone) (ul_cancelled l), ul_drops := at_cap (ul_drops l)\<rparr>))"

lemma session_insert_alt:
  "session_insert sid who now (l, tr) =
     (case hget (ul_sessions (make_room sid l)) sid of
        Some held \<Rightarrow> ((make_room sid l, tr), held, False)
      | None \<Rightarrow> (((make_room sid l)\<lparr>ul_sessions := hput sid \<lparr>ls_who = who, ls_used = now\<rparr> (ul_sessions (make_room sid l))\<rparr>,
          meter_open (ul_service (make_room sid l)) tr), \<lparr>ls_who = who, ls_used = now\<rparr>, True))"
  unfolding session_insert_def split make_room_def [symmetric] Let_def ..

lemma make_room_ok:
  assumes ok: "local_ok issued l" and cap: "0 < ul_cap l"
  shows "local_ok issued (make_room sid l)" "ul_cap (make_room sid l) = ul_cap l"
    "hget (ul_sessions l) sid = None \<Longrightarrow> length (ul_sessions (make_room sid l)) < ul_cap l"
    "hget (ul_sessions (make_room sid l)) sid = hget (ul_sessions l) sid"
proof -
  note d = local_okD [OF ok]
  have "local_ok issued (make_room sid l) \<and> ul_cap (make_room sid l) = ul_cap l \<and>
    (hget (ul_sessions l) sid = None \<longrightarrow> length (ul_sessions (make_room sid l)) < ul_cap l) \<and>
    hget (ul_sessions (make_room sid l)) sid = hget (ul_sessions l) sid"
  proof (cases "ul_cap l \<le> length (ul_sessions l) \<and> hget (ul_sessions l) sid = None")
    case True
    then have "ul_sessions l \<noteq> []" using cap by auto
    then obtain old s where q: "quietest (ul_sessions l) = Some old" "hget (ul_sessions l) old = Some s"
      using quietest_least [OF d(1)] by metis
    let ?l = "l\<lparr>ul_sessions := hdel old (ul_sessions l), ul_cancelled := insert (ls_who s) (ul_cancelled l),
        ul_drops := at_cap (ul_drops l)\<rparr>"
    have room: "make_room sid l = ?l" using True q by (simp add: make_room_def)
    have len: "length (hdel old (ul_sessions l)) < ul_cap l"
      using d(1,2) hget_SomeD [OF q(2)] \<open>ul_sessions l \<noteq> []\<close> by (simp add: length_hdel) (metis Suc_pred length_greater_0_conv less_eq_Suc_le)
    have "ls_who t \<noteq> ls_who s" if "hget (ul_sessions l) i = Some t" "i \<noteq> old" for i t
      using d(5) [OF that(1) q(2)] that(2) by blast
    then have "local_ok issued ?l"
      by (intro local_ok_sub [OF ok, of "hdel old (ul_sessions l)"])
        (use d(1-4) len q(2) in \<open>auto simp: hmap_simps split: if_splits\<close>)
    moreover have "hget (hdel old (ul_sessions l)) sid = hget (ul_sessions l) sid" using True by (simp add: hmap_simps)
    ultimately show ?thesis using len by (simp add: room)
  next
    case False
    then show ?thesis using ok d(2) by (auto simp: make_room_def)
  qed
  then show "local_ok issued (make_room sid l)" "ul_cap (make_room sid l) = ul_cap l"
    "hget (ul_sessions l) sid = None \<Longrightarrow> length (ul_sessions (make_room sid l)) < ul_cap l"
    "hget (ul_sessions (make_room sid l)) sid = hget (ul_sessions l) sid" by blast+
qed

lemma session_insert_ok:
  assumes ok: "local_ok issued l" and cap: "0 < ul_cap l" and new: "who \<notin> issued"
    and i: "session_insert sid who now (l, tr) = ((l', tr'), s, fresh)"
  shows "local_ok (insert who issued) l' \<and> ul_cap l' = ul_cap l \<and> hget (ul_sessions l') sid = Some s"
proof (cases "hget (ul_sessions l) sid")
  case (Some held)
  note r = make_room_ok [OF ok cap, of sid]
  have "l' = make_room sid l \<and> s = held" using i r(4) Some by (simp add: session_insert_alt)
  with r Some local_ok_more [OF r(1)] show ?thesis by auto
next
  case None
  note r = make_room_ok [OF ok cap, of sid] and d = local_okD [OF make_room_ok(1) [OF ok cap, of sid]]
  let ?r = "make_room sid l" and ?s = "\<lparr>ls_who = who, ls_used = now\<rparr>"
  have l': "l' = ?r\<lparr>ul_sessions := hput sid ?s (ul_sessions ?r)\<rparr>" "s = ?s"
    using i r(4) None by (auto simp: session_insert_alt)
  have who: "ls_who t \<noteq> who" if "hget (ul_sessions ?r) j = Some t" for j t using d(4) [OF that] new by blast
  have len: "length (hput sid ?s (ul_sessions ?r)) \<le> ul_cap ?r"
    using r(2) r(3) [OF None] d(1) by (simp add: length_hput)
  have inj: "i = j" if a: "((hget (ul_sessions ?r))(sid \<mapsto> ?s)) i = Some t" "((hget (ul_sessions ?r))(sid \<mapsto> ?s)) j = Some u"
      "ls_who t = ls_who u" for i j t u
    using a who [of i t] who [of j u] d(5) [of i t j u] by (cases "i = sid"; cases "j = sid") auto
  have sub: "ul_cancelled ?r \<subseteq> issued" "who \<notin> ul_cancelled ?r" using d(3) new by auto
  have "local_ok (insert who issued) l'"
    unfolding local_ok_def l'(1)
  proof (intro conjI allI impI)
    fix i j t u assume "hget (ul_sessions (?r\<lparr>ul_sessions := hput sid ?s (ul_sessions ?r)\<rparr>)) i = Some t"
      "hget (ul_sessions (?r\<lparr>ul_sessions := hput sid ?s (ul_sessions ?r)\<rparr>)) j = Some u" "ls_who t = ls_who u"
    then show "i = j" using inj [of i t j u] by (simp add: hget_hput)
  next
    fix i t assume "hget (ul_sessions (?r\<lparr>ul_sessions := hput sid ?s (ul_sessions ?r)\<rparr>)) i = Some t"
    then show "ls_who t \<in> insert who issued" "ls_who t \<notin> ul_cancelled (?r\<lparr>ul_sessions := hput sid ?s (ul_sessions ?r)\<rparr>)"
      using sub d(4) [of i t] by (auto simp: hmap_simps split: if_splits)
  qed (use d(1) len sub in auto)
  then show ?thesis using r(2) by (simp add: l' hmap_simps)
qed

section \<open>A service's life\<close>

text \<open>
  Packets are delivered, by the datagram path and the bulk stream in turn; a session whose socket took
  its time goes in late; each session's reader takes its turns, also after the session left the
  table. A socket that connects gets a number nobody had.
\<close>

inductive local_step :: "(DatagramHeader \<Rightarrow> bytes) \<Rightarrow> (bytes \<Rightarrow> (DatagramHeader \<times> bytes) option) \<Rightarrow>
    (UdpLocal \<times> Traffic) \<times> nat set \<Rightarrow> (UdpLocal \<times> Traffic) \<times> nat set \<Rightarrow> bool" for put take_header where
  deliver: "set_option connected \<inter> issued = {} \<Longrightarrow> local_deliver take_header connected sends now packet st = (st', out) \<Longrightarrow>
    local_step put take_header (st, issued) (st', issued \<union> set_option connected)"
| late: "who \<notin> issued \<Longrightarrow> session_insert sid who now st = (st', s, fresh) \<Longrightarrow>
    local_step put take_header (st, issued) (st', insert who issued)"
| reader: "read_replies_turn put link sid who used arm now st = ((st', going), out) \<Longrightarrow>
    local_step put take_header (st, issued) (st', issued)"

lemma local_session_ok:
  assumes "local_ok issued l" "0 < ul_cap l" "set_option connected \<inter> issued = {}"
    "local_session sid connected now (l, tr) = ((l', tr'), s)"
  shows "local_ok (issued \<union> set_option connected) l' \<and> ul_cap l' = ul_cap l"
proof (cases "hget (ul_sessions l) sid")
  case (Some found)
  with assms show ?thesis by (auto simp: local_session_def intro: local_ok_more)
next
  case None
  show ?thesis
  proof (cases connected)
    case None': None
    with assms None show ?thesis
      by (auto simp: local_session_def no_socket_def local_ok_same [of "l\<lparr>ul_no_socket_warned := True, ul_drops := d\<rparr>" l for d])
  next
    case (Some who)
    obtain s0 f where "session_insert sid who now (l, tr) = ((l', tr'), s0, f)"
      using assms(4) None Some by (auto simp: local_session_def split: prod.splits)
    from session_insert_ok [OF assms(1,2) _ this] assms(3) Some show ?thesis by auto
  qed
qed

lemma touch_cap [simp]: "ul_cap (session_touch sid now l) = ul_cap l" "ul_cap (forget_session sid who l) = ul_cap l"
  by (simp_all add: session_touch_def forget_session_def split: option.split)

lemma local_deliver_ok:
  assumes "local_ok issued l" "0 < ul_cap l" "set_option connected \<inter> issued = {}"
    "local_deliver take_header connected sends now packet (l, tr) = ((l', tr'), out)"
  shows "local_ok (issued \<union> set_option connected) l' \<and> ul_cap l' = ul_cap l"
proof -
  let ?issued = "issued \<union> set_option connected"
  have same: "local_ok ?issued (m\<lparr>ul_drops := x\<rparr>) = local_ok ?issued m" "local_ok ?issued (note_err b m) = local_ok ?issued m"
      "ul_cap (note_err b m) = ul_cap m" for m x b
    by (simp_all add: note_err_def local_ok_def)
  have "local_ok ?issued l" using assms(1) by (rule local_ok_more) simp
  moreover have "local_ok ?issued m \<and> ul_cap m = ul_cap l" if "local_session sid connected now (l, tr) = ((m, tr2), s)" for sid m tr2 s
    by (rule local_session_ok [OF assms(1-3) that])
  ultimately show ?thesis
    using assms(4) by (auto simp: local_deliver_def Let_def same touch_local_ok
        split: sum.splits option.splits if_splits prod.splits socket_result.splits)
qed

lemma read_replies_ok:
  assumes "local_ok issued l" "read_replies_turn put link sid who used arm now (l, tr) = (((l', tr'), going), out)"
  shows "local_ok issued l' \<and> ul_cap l' = ul_cap l"
proof -
  have same: "local_ok issued (m\<lparr>ul_sender := y, ul_drops := x\<rparr>) = local_ok issued m" "local_ok issued (note_err b m) = local_ok issued m"
      "local_ok issued (heard_from_local m) = local_ok issued m" "ul_cap (note_err b m) = ul_cap m" "ul_cap (heard_from_local m) = ul_cap m" for m x y b
    by (simp_all add: note_err_def heard_from_local_def local_ok_def)
  show ?thesis using assms
    by (cases arm) (auto simp: read_replies_turn_def Let_def same touch_local_ok forget_local_ok
        split: if_splits prod.splits option.splits)
qed

lemma local_steps_ok:
  assumes "(local_step put take_header)\<^sup>*\<^sup>* ((l0, tr0), {}) ((l, tr), issued)" "local_ok {} l0" "0 < ul_cap l0"
  shows "local_ok issued l \<and> ul_cap l = ul_cap l0"
proof -
  have one: "local_ok issued' (fst st') \<and> ul_cap (fst st') = ul_cap (fst st)"
    if "local_step put take_header (st, issued) (st', issued')" "local_ok issued (fst st)" "0 < ul_cap (fst st)" for st st' issued issued'
    using that
  proof (cases rule: local_step.cases)
    case (deliver connected sends now packet out)
    with that(2,3) show ?thesis by (cases st; cases st') (auto dest: local_deliver_ok)
  next
    case (late who sid now s fresh)
    with that(2,3) show ?thesis by (cases st; cases st') (auto dest: session_insert_ok)
  next
    case (reader link sid who used arm now going out)
    with that(2) show ?thesis by (cases st; cases st') (auto dest: read_replies_ok)
  qed
  have "local_ok (snd x) (fst (fst x)) \<and> ul_cap (fst (fst x)) = ul_cap l0"
    if "(local_step put take_header)\<^sup>*\<^sup>* ((l0, tr0), {}) x" for x
    using that
  proof (induction rule: rtranclp_induct)
    case (step y z)
    with one [of "fst y" "snd y" "fst z" "snd z"] assms(3) show ?case by simp
  qed (simp add: assms(2))
  from this [OF assms(1)] show ?thesis by simp
qed

text \<open>
  A client's UDP service never holds more sockets than its cap, gives every visitor session a
  socket no other session has, so a reply read on one can only carry that session's id, and keeps no
  session it told to end, whichever way packets, late sockets and readers take their turns.
\<close>

theorem udp_sessions_bounded:
  assumes "(local_step put take_header)\<^sup>*\<^sup>* ((new_udp_local service sid addr idle cap proxy, tr0), {}) ((l, tr), issued)" "0 < cap"
  shows "length (ul_sessions l) \<le> cap \<and>
    inj_on (\<lambda>i. ls_who (the (hget (ul_sessions l) i))) (hkeys (ul_sessions l)) \<and>
    (\<lambda>i. ls_who (the (hget (ul_sessions l) i))) ` hkeys (ul_sessions l) \<inter> ul_cancelled l = {}"
proof -
  have "local_ok {} (new_udp_local service sid addr idle cap proxy)" "0 < ul_cap (new_udp_local service sid addr idle cap proxy)"
    using assms(2) by (simp_all add: local_ok_def new_udp_local_def)
  note ok = local_steps_ok [OF assms(1) this]
  note d = local_okD [OF conjunct1 [OF ok]]
  have "inj_on (\<lambda>i. ls_who (the (hget (ul_sessions l) i))) (hkeys (ul_sessions l))"
    unfolding inj_on_def hkeys_dom using d(5) by fastforce
  moreover have "(\<lambda>i. ls_who (the (hget (ul_sessions l) i))) ` hkeys (ul_sessions l) \<inter> ul_cancelled l = {}"
    unfolding hkeys_dom using d(4) by fastforce
  ultimately show ?thesis using d(2) ok by (simp add: new_udp_local_def)
qed

theorem udp_sessions_bounded_witness:
  "length (ul_sessions (fst (fst (session_insert 9 1 5 (new_udp_local ''dns'' 7 ''127.0.0.1:53'' IDLE 2 None, new_traffic))))) \<le> 2"
proof -
  let ?l = "new_udp_local ''dns'' 7 ''127.0.0.1:53'' IDLE 2 None"
  let ?i = "session_insert 9 1 5 (?l, new_traffic)"
  have "(local_step (\<lambda>_. []) (\<lambda>_. None))\<^sup>*\<^sup>* ((?l, new_traffic), {}) ((fst (fst ?i), snd (fst ?i)), insert 1 {})"
    by (intro r_into_rtranclp local_step.late [of _ _ 9 5 _ _ "fst (snd ?i)" "snd (snd ?i)"]) simp_all
  from udp_sessions_bounded [OF this] show ?thesis by simp
qed

end
