(* ===== verification/Udp_Journey.thy ===== *)
theory Udp_Journey
  imports Server_Udp Client_Udp
begin

text \<open>
  A datagram's whole way: from a visitor to the server's public port, through the tunnel to the
  client's local service, and its reply back. The server's service, the client's and what travels
  between them are put together here.
\<close>

text \<open>The server's table gives a visitor a session that names it.\<close>

lemma inbound_names_visitor:
  assumes "table_fits t"
  obtains t' seen e where "table_inbound visitor now t = Some (t', seen)" "table_fits t'"
    "hget (by_session t') (in_session seen) = Some e" "e_visitor e = visitor"
proof (cases "hget (by_visitor t) visitor")
  case None
  obtain t' s ev kept where "table_inbound visitor now t = Some (t', \<lparr>in_session = s, in_fresh = True, in_evicted = ev\<rparr>)"
    "table_fits t'" "hget (by_session t') = kept(s \<mapsto> \<lparr>e_visitor = visitor, e_used = now\<rparr>)"
    using inbound_fresh [OF assms None] by metis
  then show ?thesis by (intro that [of t' "\<lparr>in_session = s, in_fresh = True, in_evicted = ev\<rparr>" "\<lparr>e_visitor = visitor, e_used = now\<rparr>"]) simp_all
next
  case (Some s)
  have ok: "table_ok t" using assms by (simp add: table_fits_def)
  obtain e where e: "hget (by_session t) s = Some e" "e_visitor e = visitor"
    using table_okD(5) [OF ok, of visitor s] Some by auto
  from inbound_known [OF ok e, of now] touch_fits [OF assms, of s now] touch_session e show ?thesis
    by (intro that [of "touch s now t" "\<lparr>in_session = s, in_fresh = False, in_evicted = False\<rparr>" "e\<lparr>e_used := now\<rparr>"]) simp_all
qed

lemma make_room_keeps [simp]:
  "ul_id (make_room sid l) = ul_id l" "ul_service (make_room sid l) = ul_service l" "ul_proxy (make_room sid l) = ul_proxy l"
  by (simp_all add: make_room_def split: option.split)

lemma touch_keeps [simp]:
  "ul_id (session_touch sid now l) = ul_id l" "ul_service (session_touch sid now l) = ul_service l"
  "ul_id (heard_from_local l) = ul_id l" "ul_service (heard_from_local l) = ul_service l"
  by (simp_all add: session_touch_def heard_from_local_def split: option.split)

lemma local_session_opens:
  obtains l' tr' s where "local_session sid (Some who) now (l, tr) = ((l', tr'), Some s)" "ul_id l' = ul_id l"
proof (cases "hget (ul_sessions l) sid")
  case None
  then show ?thesis
    using that by (cases "hget (ul_sessions (make_room sid l)) sid") (simp_all add: local_session_def session_insert_alt)
next
  case (Some found)
  then show ?thesis using that by (simp add: local_session_def)
qed

text \<open>What the client's local service gets for a packet of the server's.\<close>

lemma local_deliver_packet:
  assumes codec: "\<And>h rest. take_header (put h @ rest) = Some (h, rest)" "\<And>h. length (put h) \<le> HEADER_MAX"
    and "length payload \<le> 65507" "ul_proxy l = (if proxy then Some listener else None)"
  obtains packet l' tr' w where "inbound_packet put (ul_id l) sid proxy visitor payload = Inr packet"
    "local_deliver take_header (Some who) (\<lambda>_. SockSent) now packet (l, tr) = ((l', tr'),
       Some (w, (if proxy then v2_udp (socket_addr (to_canonical (sa_ip visitor)) (sa_port visitor)) listener else []) @ payload))"
    "ul_id l' = ul_id l"
proof -
  let ?h = "\<lparr>dh_service_id = ul_id l, dh_session = sid\<rparr>"
  note reads = packet_reads [OF codec assms(3), of ?h]
  obtain l1 tr1 s where s: "local_session sid (Some who) now (l, tr) = ((l1, tr1), Some s)" "ul_id l1 = ul_id l"
    by (rule local_session_opens)
  show ?thesis
  proof (cases proxy)
    case True
    obtain p where "encode_from put ?h visitor payload = Inr p"
        "decode_from take_header p = Inr (?h, socket_addr (to_canonical (sa_ip visitor)) (sa_port visitor), payload)"
      using reads(2) by blast
    with s True assms(4) that [of p] show ?thesis
      by (simp add: inbound_packet_def local_deliver_def Let_def)
  next
    case False
    obtain p where "packet_encode put ?h payload = Inr p" "packet_decode take_header p = Inr (?h, payload)"
      using reads(1) by blast
    with s False assms(4) that [of p] show ?thesis
      by (simp add: inbound_packet_def local_deliver_def Let_def)
  qed
qed

text \<open>What a reader sends for a reply.\<close>

lemma reader_sends:
  assumes "packet_encode put \<lparr>dh_service_id = ul_id l, dh_session = sid\<rparr> reply = Inr packet"
  shows "snd (read_replies_turn put link sid who used (ReaderGot reply) now (l, tr)) \<in> {None, Some packet}"
proof -
  let ?l = "heard_from_local (case hget (ul_sessions l) sid of
      Some held \<Rightarrow> if ls_who held = who then session_touch sid now l else l | None \<Rightarrow> l)"
  have "ul_id ?l = ul_id l" by (simp split: option.split)
  moreover obtain s' d' out where r: "dispatch link (Inr packet) (ul_sender ?l, ul_drops ?l) = ((s', d'), out)" by (metis surj_pair)
  ultimately have "snd (read_replies_turn put link sid who used (ReaderGot reply) now (l, tr)) = out"
    using assms by (simp add: read_replies_turn_def udp_send_def Let_def)
  with dispatch_packet [OF r] show ?thesis by simp
qed

lemma udp_deliver_reply:
  assumes "packet_decode take_header packet = Inr (\<lparr>dh_service_id = us_id s, dh_session = sid\<rparr>, reply)"
    "hget (by_session (us_table s)) sid = Some e"
  shows "snd (udp_deliver take_header (\<lambda>_ _. True) now packet s) = Some (e_visitor e, reply)"
  using assms by (simp add: udp_deliver_def table_outbound_def Let_def)



end
