(* ===== verification/Net_Text.thy ===== *)
theory Net_Text
  imports Net_Addr
begin

text \<open>
  The text forms of \<open>std::net\<close>'s addresses, as their \<open>Display\<close> writes them: an IPv4 address in
  decimal, an IPv6 one in hexadecimal with its longest run of zero segments (the first of them, and
  only one longer than a segment) left out, and a socket address with its port.
\<close>

definition hex_digit :: "nat \<Rightarrow> char" where
  "hex_digit d = (if d < 10 then digit d else char_of (87 + d))"

fun show_hex :: "nat \<Rightarrow> string" where
  "show_hex n = (if n < 16 then [hex_digit n] else show_hex (n div 16) @ [hex_digit (n mod 16)])"

declare show_hex.simps [simp del]

fun join_with :: "string \<Rightarrow> string list \<Rightarrow> string" where
  "join_with sep [] = []"
| "join_with sep [s] = s"
| "join_with sep (s # t # ss) = s @ sep @ join_with sep (t # ss)"

definition ipv4_to_string :: "u32 \<Rightarrow> string" where
  "ipv4_to_string a = join_with ''.'' (map (show_nat \<circ> unat) (octets4 a))"

fun segments :: "bytes \<Rightarrow> nat list" where
  "segments (a # b # bs) = (256 * unat a + unat b) # segments bs"
| "segments _ = []"

text \<open>The longest run of zeroes: its start and its length, the first of the longest.\<close>

fun zero_run :: "nat \<Rightarrow> nat \<times> nat \<Rightarrow> nat \<times> nat \<Rightarrow> nat list \<Rightarrow> nat \<times> nat" where
  "zero_run i current longest [] = longest"
| "zero_run i current longest (s # ss) =
     (if s = 0
      then let current = (if snd current = 0 then i else fst current, Suc (snd current))
           in zero_run (Suc i) current (if snd longest < snd current then current else longest) ss
      else zero_run (Suc i) (0, 0) longest ss)"

definition ipv6_to_string :: "u128 \<Rightarrow> string" where
  "ipv6_to_string a =
     (case to_ipv4_mapped a of
        Some v4 \<Rightarrow> ''::ffff:'' @ ipv4_to_string v4
      | None \<Rightarrow>
          (let ss = segments (octets6 a); shown = (\<lambda>ss. join_with '':'' (map show_hex ss))
           in case zero_run 0 (0, 0) (0, 0) ss of
                (start, len) \<Rightarrow>
                  if 1 < len then shown (take start ss) @ ''::'' @ shown (drop (start + len) ss) else shown ss))"

fun ip_to_string :: "IpAddr \<Rightarrow> string" where
  "ip_to_string (V4 a) = ipv4_to_string a"
| "ip_to_string (V6 a) = ipv6_to_string a"

fun addr_to_string :: "SocketAddr \<Rightarrow> string" where
  "addr_to_string (SocketV4 a p) = ipv4_to_string a @ '':'' @ show_nat (unat p)"
| "addr_to_string (SocketV6 a p _ scope) =
     ''['' @ ipv6_to_string a @ (if scope = 0 then [] else ''%'' @ show_nat (unat scope)) @ '']:'' @ show_nat (unat p)"

lemma octets_eval:
  "octets4 a = map (\<lambda>i. word_of_nat (unat a div 256 ^ i mod 256)) [3, 2, 1, 0]"
  "octets6 b = map (\<lambda>i. word_of_nat (unat b div 256 ^ i mod 256)) [15, 14, 13, 12, 11, 10, 9, 8, 7, 6, 5, 4, 3, 2, 1, 0]"
proof -
  have "to_le k n = map (\<lambda>i. word_of_nat (n div 256 ^ i mod 256)) [0..<k]" for k n
  proof (induction k arbitrary: n)
    case (Suc k)
    then show ?case
      by (simp add: upt_conv_Cons map_Suc_upt [symmetric] div_mult2_eq del: upt_Suc)
  qed simp
  then show "octets4 a = map (\<lambda>i. word_of_nat (unat a div 256 ^ i mod 256)) [3, 2, 1, 0]"
    "octets6 b = map (\<lambda>i. word_of_nat (unat b div 256 ^ i mod 256)) [15, 14, 13, 12, 11, 10, 9, 8, 7, 6, 5, 4, 3, 2, 1, 0]"
    by (simp_all add: octets4_def octets6_def upt_rec)
qed

lemma text_examples: "ip_to_string (V4 0x7F000001) = ''127.0.0.1''" "ip_to_string (V6 1) = ''::1''"
  "ip_to_string (V6 0x20010db8000000000001000000000001) = ''2001:db8::1:0:0:1''"
  "ip_to_string (V6 0xffffC0000201) = ''::ffff:192.0.2.1''"
  by (simp_all add: ipv4_to_string_def ipv6_to_string_def to_ipv4_mapped_def octets_eval show_nat.simps show_hex.simps
      hex_digit_def digit_def Let_def char_of_def bit_0)

end
