(* ===== verification/Client_Dial.thy ===== *)
theory Client_Dial
  imports Config Rust_Float
begin

text \<open>
  How a client reaches its server and when it tries again: \<open>client/backoff.rs\<close>, \<open>client/race.rs\<close> and
  the dialing half of \<open>client/mod.rs\<close>. A dial is what it comes to and how long it takes, or that it
  never ends; the source's errors that carry another library's error carry its text here.
\<close>

section \<open>Backing off\<close>

definition FIRST :: duration where "FIRST = secs 1"
definition CAP :: duration where "CAP = secs 30"
definition HEALTHY :: duration where "HEALTHY = secs 60"

type_synonym Backoff = u32

text \<open>
  \<open>2u32.saturating_pow\<close> and \<open>Duration::saturating_mul\<close>: the power saturates at the largest \<open>u32\<close>,
  and no product of that with a second is near the largest duration.
\<close>

definition saturating_pow2 :: "u32 \<Rightarrow> nat" where
  "saturating_pow2 n = min (2 ^ unat n) (2 ^ 32 - 1)"

definition backoff_next :: "duration \<Rightarrow> rat \<Rightarrow> Backoff \<Rightarrow> Backoff \<times> duration" where
  "backoff_next lasted unit failures =
     (let failures = (if HEALTHY \<le> lasted then 0 else failures);
          step = min (FIRST * saturating_pow2 failures) CAP
      in (saturating_add failures 1, mul_f64 (f64 (1 / 2 + f64 (1 / 2 * unit))) step))"

section \<open>Racing QUIC and TCP\<close>

datatype ('t, 'e) Raced = RacedQuic 't | RacedTcp 't "'e option" | RacedFailed 'e 'e

text \<open>A dial: how long it takes and what it comes to; \<open>None\<close> when it never ends.\<close>

type_synonym ('t, 'e) dial = "(duration \<times> ('e + 't)) option"

text \<open>One dial has failed and the other is waited for.\<close>

definition tcp_alone :: "'e \<Rightarrow> ('t, 'e) dial \<Rightarrow> ('t, 'e) Raced option" where
  "tcp_alone quic_err tcp =
     map_option (\<lambda>(_, r). case r of Inr t \<Rightarrow> RacedTcp t (Some quic_err) | Inl e \<Rightarrow> RacedFailed quic_err e) tcp"

definition quic_alone :: "'e \<Rightarrow> ('t, 'e) dial \<Rightarrow> ('t, 'e) Raced option" where
  "quic_alone tcp_err quic =
     map_option (\<lambda>(_, r). case r of Inr t \<Rightarrow> RacedQuic t | Inl e \<Rightarrow> RacedFailed e tcp_err) quic"

definition race :: "('t, 'e) dial \<Rightarrow> ('t, 'e) dial \<Rightarrow> duration \<Rightarrow> ('t, 'e) Raced option" where
  "race quic tcp after =
     (case quic of
        Some (q, r) \<Rightarrow>
          if q \<le> after
          then (case r of Inr t \<Rightarrow> Some (RacedQuic t) | Inl e \<Rightarrow> tcp_alone e tcp)
          else if case tcp of Some (t, _) \<Rightarrow> q \<le> after + t | None \<Rightarrow> True
          then (case r of Inr t \<Rightarrow> Some (RacedQuic t) | Inl e \<Rightarrow> tcp_alone e tcp)
          else (case tcp of
                  Some (_, Inr t) \<Rightarrow> Some (RacedTcp t None)
                | Some (_, Inl e) \<Rightarrow> quic_alone e quic
                | None \<Rightarrow> None)
      | None \<Rightarrow>
          (case tcp of
             Some (_, Inr t) \<Rightarrow> Some (RacedTcp t None)
           | Some (_, Inl e) \<Rightarrow> quic_alone e quic
           | None \<Rightarrow> None))"

section \<open>Dialing\<close>

text \<open>The first address that connects, and the last error when none does.\<close>

fun dial_each :: "SocketAddr list \<Rightarrow> 'e \<Rightarrow> (SocketAddr \<Rightarrow> 'e + 't) \<Rightarrow> 'e + SocketAddr \<times> 't" where
  "dial_each [] failed dial = Inl failed"
| "dial_each (remote # addrs) failed dial =
     (case dial remote of Inr t \<Rightarrow> Inr (remote, t) | Inl e \<Rightarrow> dial_each addrs e dial)"

datatype ClientError =
    EServerAddr string
  | EResolve string string
  | ENoAddress string
  | EIdentity string
  | ETls string
  | EQuic string
  | ETransport string
  | EDenied PublicKey
  | EProtocol string
  | EControlClosed
  | EEncode string
  | EShutdown string
  | EUnresponsive
  | EVersion
  | ENoTransport ClientError ClientError
  | EWindow
  | EBuffer

datatype DisconnectCause =
    DcShutdown string
  | DcUnresponsive
  | DcDenied
  | DcTransport string
  | DcConfig string

fun is_config :: "DisconnectCause \<Rightarrow> bool" where
  "is_config (DcConfig _) = True"
| "is_config _ = False"

text \<open>\<open>chain\<close> renders an error and its sources; the rendering is an argument.\<close>

fun classify :: "(ClientError \<Rightarrow> string) \<Rightarrow> ClientError \<Rightarrow> DisconnectCause" where
  "classify chain (EShutdown s) = DcShutdown s"
| "classify chain EUnresponsive = DcUnresponsive"
| "classify chain (EDenied k) = DcDenied"
| "classify chain (EEncode e) = DcConfig (chain (EEncode e))"
| "classify chain (EServerAddr s) = DcConfig (chain (EServerAddr s))"
| "classify chain EWindow = DcConfig (chain EWindow)"
| "classify chain EBuffer = DcConfig (chain EBuffer)"
| "classify chain (ETls e) = DcConfig (chain (ETls e))"
| "classify chain (EIdentity e) = DcConfig (chain (EIdentity e))"
| "classify chain (ENoTransport quic tcp) =
     (if is_config (classify chain quic) \<and> is_config (classify chain tcp)
      then DcConfig (chain (ENoTransport quic tcp)) else DcTransport (chain (ENoTransport quic tcp)))"
| "classify chain (EResolve s e) = DcTransport (chain (EResolve s e))"
| "classify chain (ENoAddress s) = DcTransport (chain (ENoAddress s))"
| "classify chain (EQuic e) = DcTransport (chain (EQuic e))"
| "classify chain (ETransport e) = DcTransport (chain (ETransport e))"
| "classify chain (EProtocol e) = DcTransport (chain (EProtocol e))"
| "classify chain EControlClosed = DcTransport (chain EControlClosed)"
| "classify chain EVersion = DcTransport (chain EVersion)"

text \<open>
  \<open>wrong_version\<close> looks into the errors of \<open>quinn\<close>, \<open>rustls\<close> and \<open>tokio-rustls\<close> for TLS alert 120, and
  is an argument.
\<close>

fun versioned :: "(ClientError \<Rightarrow> bool) \<Rightarrow> ClientError \<Rightarrow> ClientError" where
  "versioned wrong_version (ENoTransport quic tcp) =
     (if wrong_version quic \<or> wrong_version tcp then EVersion else ENoTransport quic tcp)"
| "versioned wrong_version e = (if wrong_version e then EVersion else e)"

definition connect_auto :: "('t, ClientError) dial \<Rightarrow> ('t, ClientError) dial \<Rightarrow> duration \<Rightarrow> (ClientError + 't) option" where
  "connect_auto quic tcp fallback_after =
     map_option (\<lambda>raced. case raced of
         RacedQuic t \<Rightarrow> Inr t
       | RacedTcp t _ \<Rightarrow> Inr t
       | RacedFailed q e \<Rightarrow> Inl (ENoTransport q e)) (race quic tcp fallback_after)"

definition FALLBACK_AFTER :: duration where "FALLBACK_AFTER = secs 2"

definition connect :: "(ClientError \<Rightarrow> bool) \<Rightarrow> Prefer \<Rightarrow> ('t, ClientError) dial \<Rightarrow> ('t, ClientError) dial \<Rightarrow> duration \<Rightarrow>
    (ClientError + 't) option" where
  "connect wrong_version prefer quic tcp fallback_after =
     map_option (\<lambda>r. case r of Inl e \<Rightarrow> Inl (versioned wrong_version e) | Inr t \<Rightarrow> Inr t)
       (case prefer of
          Auto \<Rightarrow> connect_auto quic tcp fallback_after
        | Quic \<Rightarrow> map_option snd quic
        | PreferTcp \<Rightarrow> map_option snd tcp)"

text \<open>\<open>resolve\<close>'s text: what is looked up for a configured server.\<close>

definition resolve_target :: "string \<Rightarrow> ClientError + string" where
  "resolve_target server =
     (case split_host_port server of
        None \<Rightarrow> Inl (EServerAddr server)
      | Some (host, port) \<Rightarrow>
          Inr (host @ '':'' @ show_nat (unat (case port of Some p \<Rightarrow> p | None \<Rightarrow> DEFAULT_PORT))))"

section \<open>Reconnecting\<close>

text \<open>
  How one session of \<open>run\<close>'s loop went: what it returned, whether the stop had been asked for by
  then, how long the server had accepted it, the draw for the wait, and whether the stop came
  during the wait. \<open>client_run\<close> gives the \<open>Disconnected\<close> events, and whether the loop has ended.
\<close>

record session_turn =
  t_result :: "ClientError + unit"
  t_cancelled :: bool
  t_lasted :: duration
  t_unit :: rat
  t_stop_waiting :: bool

fun client_run :: "(ClientError \<Rightarrow> string) \<Rightarrow> session_turn list \<Rightarrow> Backoff \<Rightarrow> (DisconnectCause \<times> duration option) list \<times> bool" where
  "client_run chain [] b = ([], False)"
| "client_run chain (t # ts) b =
     (case t_result t of
        Inr () \<Rightarrow> ([], True)
      | Inl e \<Rightarrow>
          if t_cancelled t then ([], True)
          else let cause = classify chain e
               in if is_config cause then ([(cause, None)], True)
                  else let (b, wait) = backoff_next (t_lasted t) (t_unit t) b
                       in if t_stop_waiting t then ([(cause, Some wait)], True)
                          else let (events, ended) = client_run chain ts b in ((cause, Some wait) # events, ended))"

text \<open>What ends the loop: a stop, or an error that no retry can fix.\<close>

definition ends_run :: "(ClientError \<Rightarrow> string) \<Rightarrow> session_turn \<Rightarrow> bool" where
  "ends_run chain t \<longleftrightarrow>
     (case t_result t of Inr () \<Rightarrow> True | Inl e \<Rightarrow> t_cancelled t \<or> is_config (classify chain e) \<or> t_stop_waiting t)"

lemma backoff_bounds:
  assumes "0 \<le> unit" "unit \<le> 1"
  shows "FIRST div 2 \<le> snd (backoff_next lasted unit b)" "snd (backoff_next lasted unit b) \<le> CAP"
    "snd (backoff_next lasted unit b) \<le> FIRST * 2 ^ unat b"
proof -
  let ?f = "if HEALTHY \<le> lasted then 0 else b" and ?r = "f64 (1 / 2 + f64 (1 / 2 * unit))"
  let ?n = "min (saturating_pow2 ?f) 30"
  have half: "is_f64 (1 / 2)" unfolding is_f64_def by (intro exI [of _ 1] exI [of _ "- 1"]) (simp add: power_int_minus)
  have one: "is_f64 1" using f64.float_int [of 1] by simp
  have "0 \<le> f64 (1 / 2 * unit)" "f64 (1 / 2 * unit) \<le> 1 / 2"
    using assms f64.rnd_nonneg [of "1 / 2 * unit"] f64.rnd_le [OF half, of "1 / 2 * unit"] by simp_all
  then have r: "1 / 2 \<le> ?r" "?r \<le> 1"
    using f64.rnd_ge [OF half, of "1 / 2 + f64 (1 / 2 * unit)"] f64.rnd_le [OF one, of "1 / 2 + f64 (1 / 2 * unit)"] by simp_all
  have n: "?n \<le> 2 ^ 52" "1 \<le> ?n" "?n \<le> 30" by (simp_all add: saturating_pow2_def)
  have step: "min (FIRST * saturating_pow2 ?f) CAP = secs ?n" by (simp add: FIRST_def CAP_def min_def)
  have wait: "snd (backoff_next lasted unit b) = mul_f64 ?r (secs ?n)"
    unfolding backoff_next_def Let_def snd_conv step ..
  note m = mul_f64_bounds [OF r n(1)]
  have "secs 1 div 2 \<le> secs ?n div 2" using n(2) by (intro div_le_mono mult_le_mono1)
  with m(1) show "FIRST div 2 \<le> snd (backoff_next lasted unit b)" by (simp add: wait FIRST_def)
  have "secs ?n \<le> secs 30" using n(3) by (intro mult_le_mono1)
  with m(2) show "snd (backoff_next lasted unit b) \<le> CAP" by (simp add: wait CAP_def)
  have "saturating_pow2 ?f \<le> 2 ^ unat b" by (auto simp: saturating_pow2_def)
  then have "?n \<le> 2 ^ unat b" by linarith
  then have "secs ?n \<le> FIRST * 2 ^ unat b" by (simp add: FIRST_def)
  with m(2) show "snd (backoff_next lasted unit b) \<le> FIRST * 2 ^ unat b" by (simp add: wait)
qed

text \<open>
  A client never gives up on a server and never hammers it. Whatever its sessions come to, it
  stops exactly when it was asked to or when an error no retry can fix ended one; every other
  disconnection announces a wait of at least half a second and at most thirty, and only the error
  that ends it announces none.
\<close>

theorem retries_bounded:
  assumes "\<forall>t \<in> set ts. 0 \<le> t_unit t \<and> t_unit t \<le> 1" "client_run chain ts b = (events, ended)"
  shows "(ended \<longleftrightarrow> (\<exists>t \<in> set ts. ends_run chain t)) \<and>
    (\<forall>(cause, wait) \<in> set events. case wait of
        None \<Rightarrow> is_config cause
      | Some d \<Rightarrow> \<not> is_config cause \<and> millis 500 \<le> d \<and> d \<le> secs 30)"
  using assms
proof (induction ts arbitrary: b events ended)
  case (Cons t ts)
  have w: "millis 500 \<le> snd (backoff_next (t_lasted t) (t_unit t) b)" "snd (backoff_next (t_lasted t) (t_unit t) b) \<le> secs 30"
    using backoff_bounds [of "t_unit t" "t_lasted t" b] Cons.prems(1) by (simp_all add: FIRST_def CAP_def)
  obtain b' wait where bw: "backoff_next (t_lasted t) (t_unit t) b = (b', wait)" by force
  obtain events' ended' where r: "client_run chain ts b' = (events', ended')" by force
  have IH: "(ended' \<longleftrightarrow> (\<exists>t \<in> set ts. ends_run chain t)) \<and>
    (\<forall>(cause, wait) \<in> set events'. case wait of
        None \<Rightarrow> is_config cause | Some d \<Rightarrow> \<not> is_config cause \<and> millis 500 \<le> d \<and> d \<le> secs 30)"
    by (rule Cons.IH [OF _ r]) (use Cons.prems(1) in simp)
  show ?case
  proof (cases "t_result t")
    case (Inl e)
    with Cons.prems(2) IH w show ?thesis
      by (auto simp: bw r ends_run_def Let_def split: if_splits)
  qed (use Cons.prems(2) in \<open>auto simp: ends_run_def split: unit.splits\<close>)
qed simp

theorem retries_bounded_witness:
  "\<not> snd (client_run (\<lambda>_. ''lost'') [\<lparr>t_result = Inl EControlClosed, t_cancelled = False, t_lasted = 0, t_unit = 1 / 2, t_stop_waiting = False\<rparr>] 0)"
proof -
  let ?t = "\<lparr>t_result = Inl EControlClosed, t_cancelled = False, t_lasted = 0, t_unit = 1 / 2, t_stop_waiting = False\<rparr> :: session_turn"
  obtain events ended where r: "client_run (\<lambda>_. ''lost'') [?t] 0 = (events, ended)" by force
  have "\<forall>t \<in> set [?t]. 0 \<le> t_unit t \<and> t_unit t \<le> 1" by simp
  from retries_bounded [OF this r] r show ?thesis by (simp add: ends_run_def)
qed

text \<open>
  A race comes to a connection whenever either dial does, to QUIC's when that landed no later
  than TCP's, and fails only when both failed, each with its own error.
\<close>

theorem race_exact:
  "(race quic tcp after = Some (RacedFailed e f) \<longleftrightarrow> map_option snd quic = Some (Inl e) \<and> map_option snd tcp = Some (Inl f)) \<and>
   ((\<exists>x. race quic tcp after = Some (RacedQuic x)) \<longleftrightarrow>
      (\<exists>q x. quic = Some (q, Inr x) \<and> (case tcp of Some (t, Inr y) \<Rightarrow> q \<le> after + t | _ \<Rightarrow> True))) \<and>
   ((\<exists>x w. race quic tcp after = Some (RacedTcp x w)) \<longleftrightarrow>
      (\<exists>t x. tcp = Some (t, Inr x) \<and> (case quic of Some (q, Inr y) \<Rightarrow> after + t < q | _ \<Rightarrow> True)))"
proof -
  note defs = race_def tcp_alone_def quic_alone_def
  show ?thesis
  proof (cases quic)
    case None
    then show ?thesis by (cases tcp) (auto simp: defs split: sum.splits)
  next
    case (Some qr)
    obtain q r where q: "quic = Some (q, r)" using Some by (cases qr) simp
    show ?thesis
    proof (cases tcp)
      case None
      then show ?thesis by (cases r) (simp_all add: q defs)
    next
      case (Some tu)
      then obtain t u where "tcp = Some (t, u)" by (cases tu) simp
      then show ?thesis by (cases r; cases u) (auto simp: q defs)
    qed
  qed
qed

end
