(* ===== verification/Client_Session.thy ===== *)
theory Client_Session
  imports Client_Dial Client_Udp
begin

text \<open>
  The session half of \<open>hawse-core/src/client/mod.rs\<close>, and \<open>client/visitor.rs\<close>: what a client asks its
  server to bind, what it makes of the answers, and where it takes what arrives. The client's
  tables are explicit state; events it emits are collected in \<open>cl_events\<close>; what the control stream
  and the host did are arguments.
\<close>

definition CLIENT_PING_EVERY :: duration where "CLIENT_PING_EVERY = secs 15"
definition CLIENT_PONG_DEADLINE :: duration where "CLIENT_PONG_DEADLINE = secs 45"
definition CLIENT_DRAIN :: duration where "CLIENT_DRAIN = secs 2"

datatype ClientTransportKind = ViaQuic | ViaTcp

datatype ClientEvent =
    CeConnected SocketAddr ClientTransportKind string string duration
  | CeBound string Port
  | CeBindFailed string BindFailure
  | CeDenied PublicKey
  | CeDisconnected DisconnectCause "duration option"
  | CeRoundTrip duration

record Target =
  tg_service :: string
  tg_local :: string
  tg_proxy_protocol :: bool

record 'net Services =
  sv_exposed :: "(string, 'net Expose) hmap"
  sv_ids :: "(string, u16) hmap"
  sv_failed :: "string set"
  sv_unanswered :: "(string, u32) hmap"

definition new_services :: "(string, 'net Expose) hmap \<Rightarrow> 'net Services" where
  "new_services exposed =
     \<lparr>sv_exposed = exposed, sv_ids = [], sv_failed = {}, sv_unanswered = map (\<lambda>(service, _). (service, 1)) exposed\<rparr>"

definition answered_bind :: "string \<Rightarrow> 'net Services \<Rightarrow> 'net Services \<times> bool" where
  "answered_bind service s =
     (let held = (case hget (sv_unanswered s) service of Some n \<Rightarrow> n | None \<Rightarrow> 0);
          left = (if held = 0 then 0 else held - 1)
      in (s\<lparr>sv_unanswered := hput service left (sv_unanswered s)\<rparr>, left = 0))"

text \<open>A client with the services of its session, and what it holds for each that is bound.\<close>

record 'net Client =
  cl_services :: "'net Services"
  cl_targets :: "(u16, Target) hmap"
  cl_udp :: Registry
  cl_traffic :: Traffic
  cl_events :: "ClientEvent list"

definition emit :: "ClientEvent \<Rightarrow> 'net Client \<Rightarrow> 'net Client" where
  "emit e c = c\<lparr>cl_events := cl_events c @ [e]\<rparr>"

section \<open>Asking for services\<close>

definition bind_message :: "string \<Rightarrow> 'net Expose \<Rightarrow> 'net ClientMessage" where
  "bind_message service x =
     (case x_port x of
        Any k \<Rightarrow> Bind service k None (x_allow x) (x_proxy_protocol x)
      | Fixed port \<Rightarrow> Bind service (kind port) (Some (number port)) (x_allow x) (x_proxy_protocol x))"

definition differs :: "string set \<Rightarrow> (string, 'net Expose) hmap \<Rightarrow> string \<times> 'net Expose \<Rightarrow> bool" where
  "differs retry from = (\<lambda>(service, x). service \<in> retry \<or> hget from service \<noteq> Some x)"

definition rebind :: "(string, 'net Expose) hmap \<Rightarrow> (string, 'net Expose) hmap \<Rightarrow> string set \<Rightarrow> 'net ClientMessage list" where
  "rebind exposed nxt retry =
     map (\<lambda>(service, _). Unbind service) (filter (differs retry nxt) exposed) @
     map (\<lambda>(service, x). bind_message service x) (filter (differs retry exposed) nxt)"

definition forget :: "u16 option \<Rightarrow> 'net Client \<Rightarrow> 'net Client" where
  "forget sid c =
     (case sid of
        None \<Rightarrow> c
      | Some i \<Rightarrow> c\<lparr>cl_targets := hdel i (cl_targets c), cl_udp := fst (registry_remove i (cl_udp c))\<rparr>)"

definition reexpose_one :: "'net ClientMessage \<Rightarrow> 'net Client \<Rightarrow> 'net Client" where
  "reexpose_one msg c =
     (case msg of
        Unbind service \<Rightarrow>
          (let s = cl_services c
           in forget (hget (sv_ids s) service) (c\<lparr>cl_services := s\<lparr>sv_ids := hdel service (sv_ids s)\<rparr>\<rparr>))
      | Bind service _ _ _ _ \<Rightarrow>
          (let s = cl_services c; held = (case hget (sv_unanswered s) service of Some n \<Rightarrow> n | None \<Rightarrow> 0)
           in c\<lparr>cl_services := s\<lparr>sv_unanswered := hput service (held + 1) (sv_unanswered s)\<rparr>\<rparr>)
      | _ \<Rightarrow> c)"

definition reexpose :: "(string, 'net Expose) hmap \<Rightarrow> 'net Client \<Rightarrow> 'net Client \<times> 'net ClientMessage list" where
  "reexpose nxt c =
     (let s = cl_services c; msgs = rebind (sv_exposed s) nxt (sv_failed s);
          c = fold reexpose_one msgs (c\<lparr>cl_services := s\<lparr>sv_failed := {}\<rparr>\<rparr>)
      in (c\<lparr>cl_services := (cl_services c)\<lparr>sv_exposed := nxt\<rparr>\<rparr>, msgs))"

section \<open>Hearing from the server\<close>

definition listener_addr :: "IpAddr \<Rightarrow> SocketAddr \<Rightarrow> u16 \<Rightarrow> SocketAddr" where
  "listener_addr bound dialed port =
     socket_addr (to_canonical (if is_unspecified bound then sa_ip dialed else bound)) port"

definition register_bound :: "string \<Rightarrow> u16 \<Rightarrow> 'net Expose \<Rightarrow> SocketAddr \<Rightarrow> 'net Client \<Rightarrow> 'net Client" where
  "register_bound service sid x listener c =
     (let c = c\<lparr>cl_traffic := meter service (cl_traffic c)\<rparr>
      in if request_kind (x_port x) = Udp
         then c\<lparr>cl_udp := registry_insert (new_udp_local service sid (x_local x) IDLE SESSION_CAP
                  (if x_proxy_protocol x then Some listener else None)) (cl_udp c)\<rparr>
         else c\<lparr>cl_targets := hput sid \<lparr>tg_service = service, tg_local = x_local x, tg_proxy_protocol = x_proxy_protocol x\<rparr>
                  (cl_targets c)\<rparr>)"

text \<open>How long the last ping took, when this is its answer; \<open>elapsed\<close> is the time since it was sent.\<close>

definition answered_ping :: "ServerMessage \<Rightarrow> (u64 \<times> duration) option \<Rightarrow> duration option" where
  "answered_ping msg pinged =
     (case (msg, pinged) of
        (SPong nonce, Some (sent, elapsed)) \<Rightarrow> if nonce = sent then Some elapsed else None
      | _ \<Rightarrow> None)"

definition heard :: "ServerMessage \<Rightarrow> SocketAddr \<Rightarrow> (u64 \<times> duration) option \<Rightarrow> 'net Client \<Rightarrow>
    'net Client \<times> (ClientError + 'net ClientMessage option)" where
  "heard msg remote pinged c =
     (let c = (case answered_ping msg pinged of Some d \<Rightarrow> emit (CeRoundTrip d) c | None \<Rightarrow> c)
      in case msg of
           Bound service sid port address \<Rightarrow>
             (case answered_bind service (cl_services c) of
                (s, final) \<Rightarrow>
                  (case (if final then hget (sv_exposed s) service else None) of
                     None \<Rightarrow> (c\<lparr>cl_services := s\<rparr>, Inr None)
                   | Some x \<Rightarrow>
                       let old = hget (sv_ids s) service;
                           s = s\<lparr>sv_failed := sv_failed s - {service}, sv_ids := hput service sid (sv_ids s)\<rparr>;
                           c = forget old (c\<lparr>cl_services := s\<rparr>);
                           c = register_bound service sid x (listener_addr address remote port) c
                       in (emit (CeBound service \<lparr>number = port, kind = request_kind (x_port x)\<rparr>) c, Inr None)))
         | BindFailed service reason \<Rightarrow>
             (case answered_bind service (cl_services c) of
                (s, final) \<Rightarrow>
                  if \<not> final then (c\<lparr>cl_services := s\<rparr>, Inr None)
                  else let old = hget (sv_ids s) service;
                           s = s\<lparr>sv_ids := hdel service (sv_ids s), sv_failed := insert service (sv_failed s)\<rparr>
                       in (emit (CeBindFailed service reason) (forget old (c\<lparr>cl_services := s\<rparr>)), Inr None))
         | SPing nonce \<Rightarrow> (c, Inr (Some (CPong nonce)))
         | SPong _ \<Rightarrow> (c, Inr None)
         | Shutdown reason \<Rightarrow> (c, Inl (EShutdown (printable reason)))
         | Welcome _ _ \<Rightarrow> (c, Inl (EProtocol ''a second greeting''))
         | Denied _ _ \<Rightarrow> (c, Inl (EProtocol ''a second greeting'')))"

section \<open>The session\<close>

text \<open>
  The greeting: whether the hello and each bind went out, and what the server said. \<open>greet_start\<close> is
  the whole of it, the binds of every exposed service included; it also empties what the last
  session left behind.
\<close>

definition hello_message :: "string \<Rightarrow> string \<Rightarrow> string option \<Rightarrow> 'net ClientMessage" where
  "hello_message AGENT hostname name = Hello (case name of Some n \<Rightarrow> Some n | None \<Rightarrow> Some hostname) AGENT"

definition greet :: "(ClientError + unit) \<Rightarrow> ServerMessage option \<Rightarrow> 'net Client \<Rightarrow> 'net Client \<times> (ClientError + string \<times> string)" where
  "greet sent answer c =
     (case sent of
        Inl e \<Rightarrow> (c, Inl e)
      | Inr _ \<Rightarrow>
          (case answer of
             Some (Welcome agent client_name) \<Rightarrow> (c, Inr (printable agent, printable client_name))
           | Some (Denied _ key) \<Rightarrow> (emit (CeDenied key) c, Inl (EDenied key))
           | Some _ \<Rightarrow> (c, Inl (EProtocol ''another message''))
           | None \<Rightarrow> (c, Inl EControlClosed)))"

fun send_binds :: "('net ClientMessage \<Rightarrow> ClientError + unit) \<Rightarrow> (string \<times> 'net Expose) list \<Rightarrow> ClientError + 'net ClientMessage list" where
  "send_binds sends [] = Inr []"
| "send_binds sends ((service, x) # rest) =
     (case sends (bind_message service x) of
        Inl e \<Rightarrow> Inl e
      | Inr _ \<Rightarrow> (case send_binds sends rest of Inl e \<Rightarrow> Inl e | Inr ms \<Rightarrow> Inr (bind_message service x # ms)))"

definition greet_start :: "(ClientError + unit) \<Rightarrow> ('net ClientMessage \<Rightarrow> ClientError + unit) \<Rightarrow> ServerMessage option \<Rightarrow>
    SocketAddr \<Rightarrow> ClientTransportKind \<Rightarrow> duration \<Rightarrow> (string, 'net Expose) hmap \<Rightarrow> 'net Client \<Rightarrow>
    'net Client \<times> (ClientError + 'net ClientMessage list)" where
  "greet_start sent sends answer remote transport round_trip wanted c =
     (let c = c\<lparr>cl_services := new_services wanted\<rparr>
      in case greet sent answer c of
           (c, Inl e) \<Rightarrow> (c, Inl e)
         | (c, Inr (agent, name)) \<Rightarrow>
             let c = emit (CeConnected remote transport name agent round_trip) c
             in case send_binds sends wanted of
                  Inl e \<Rightarrow> (c, Inl e)
                | Inr ms \<Rightarrow> (c\<lparr>cl_targets := [], cl_udp := registry_clear (cl_udp c)\<rparr>, Inr ms))"

text \<open>
  One turn of the session's loop, as on the server: the arm that won and when, and how sending its
  reply ended. \<open>cs_end\<close> is how the session ends, \<open>Inr ()\<close> for a stop that was asked for.
\<close>

datatype 'net client_arm =
    CArmCancelled
  | CArmPending
  | CArmWanted "(string, 'net Expose) hmap"
  | CArmDeadline
  | CArmPing
  | CArmMessage "ServerMessage option"
  | CArmIncoming "ClientError + unit"

datatype client_sending = CSent "ClientError + unit" | CSendCancelled | CSendDeadline

record 'net ClientServing =
  cs_client :: "'net Client"
  cs_pending :: "'net ClientMessage list"
  cs_nonce :: u64
  cs_pinged :: "(u64 \<times> instant) option"
  cs_last_heard :: instant
  cs_sent :: "'net ClientMessage list"

definition send_or_end :: "client_sending \<Rightarrow> instant \<Rightarrow> 'net ClientMessage option \<Rightarrow> 'net ClientServing \<Rightarrow>
    ('net ClientServing \<times> (ClientError + unit) option) option" where
  "send_or_end how now reply v =
     (case reply of
        None \<Rightarrow> Some (v, None)
      | Some m \<Rightarrow>
          (case how of
             CSent (Inr _) \<Rightarrow> Some (v\<lparr>cs_sent := cs_sent v @ [m]\<rparr>, None)
           | CSent (Inl e) \<Rightarrow> Some (v, Some (Inl e))
           | CSendCancelled \<Rightarrow> Some (v, Some (Inr ()))
           | CSendDeadline \<Rightarrow>
               if cs_last_heard v + CLIENT_PONG_DEADLINE \<le> now then Some (v, Some (Inl EUnresponsive)) else None))"

definition client_turn :: "SocketAddr \<Rightarrow> 'net client_arm \<Rightarrow> client_sending \<Rightarrow> instant \<Rightarrow> instant \<Rightarrow> 'net ClientServing \<Rightarrow>
    ('net ClientServing \<times> (ClientError + unit) option) option" where
  "client_turn remote arm how now later v =
     (case arm of
        CArmCancelled \<Rightarrow> Some (v, Some (Inr ()))
      | CArmPending \<Rightarrow>
          (case cs_pending v of
             [] \<Rightarrow> None
           | m # rest \<Rightarrow> send_or_end how later (Some m) (v\<lparr>cs_pending := rest\<rparr>))
      | CArmWanted nxt \<Rightarrow>
          (case reexpose nxt (cs_client v) of
             (c, msgs) \<Rightarrow> Some (v\<lparr>cs_client := c, cs_pending := cs_pending v @ msgs\<rparr>, None))
      | CArmDeadline \<Rightarrow>
          if cs_last_heard v + CLIENT_PONG_DEADLINE \<le> now then Some (v, Some (Inl EUnresponsive)) else None
      | CArmPing \<Rightarrow>
          let v = v\<lparr>cs_nonce := cs_nonce v + 1, cs_pinged := Some (cs_nonce v + 1, now)\<rparr>
          in send_or_end how later (Some (CPing (cs_nonce v))) v
      | CArmMessage msg \<Rightarrow>
          (case msg of
             None \<Rightarrow> Some (v, Some (Inl EControlClosed))
           | Some m \<Rightarrow>
               let v = v\<lparr>cs_last_heard := now\<rparr>
               in case heard m remote (map_option (\<lambda>(n, sent_at). (n, now - sent_at)) (cs_pinged v)) (cs_client v) of
                    (c, Inl e) \<Rightarrow> Some (v\<lparr>cs_client := c\<rparr>, Some (Inl e))
                  | (c, Inr reply) \<Rightarrow> send_or_end how later reply (v\<lparr>cs_client := c\<rparr>))
      | CArmIncoming accepted \<Rightarrow>
          (case accepted of Inl e \<Rightarrow> Some (v, Some (Inl e)) | Inr _ \<Rightarrow> Some (v, None)))"

section \<open>Visitors\<close>

text \<open>
  What becomes of a visitor's stream: it is refused with a code, or its bytes go to the local address
  recorded for its service, behind a PROXY header when the service asked for one. \<open>dials\<close> says whether
  the local service takes the connection, \<open>writes\<close> whether it takes the header.
\<close>

definition visitor_serve :: "(string \<Rightarrow> bool) \<Rightarrow> (bytes \<Rightarrow> bool) \<Rightarrow> StreamHeader \<Rightarrow> 'net Client \<Rightarrow>
    'net Client \<times> (u32 + string \<times> bytes)" where
  "visitor_serve dials writes header c =
     (case hget (cl_targets c) (sh_service_id header) of
        None \<Rightarrow> (c, Inl UNKNOWN_SERVICE)
      | Some target \<Rightarrow>
          if \<not> dials (tg_local target) then (c, Inl LOCAL_REFUSED)
          else let preamble = (if tg_proxy_protocol target then v2_tcp (sh_visitor header) (sh_listener header) else [])
               in if tg_proxy_protocol target \<and> \<not> writes preamble then (c, Inl LOCAL_REFUSED)
                  else (c\<lparr>cl_traffic := meter_open (tg_service target) (cl_traffic c)\<rparr>, Inr (tg_local target, preamble)))"

text \<open>The first frame of a stream the server opened says what it is for.\<close>

datatype stream_use = UseVisitor StreamHeader | UseBulk u16 | UseRefused u32

definition serve_stream :: "StreamFrameError + StreamOpen \<Rightarrow> stream_use" where
  "serve_stream opened =
     (case opened of
        Inr (Visitor header) \<Rightarrow> UseVisitor header
      | Inr (Bulk sid) \<Rightarrow> UseBulk sid
      | Inl _ \<Rightarrow> UseRefused UNEXPECTED_STREAM)"

section \<open>A reload reaches what it asks for\<close>

text \<open>
  What a server has bound for a client, by name, as the messages make it: an unbind takes a service
  away, and a bind is taken only for a name that is not bound.
\<close>

fun server_view_step :: "'net ClientMessage \<Rightarrow> (string \<Rightarrow> 'net ClientMessage option) \<Rightarrow> string \<Rightarrow> 'net ClientMessage option" where
  "server_view_step (Unbind service) m = m(service := None)"
| "server_view_step (Bind service k port allow proxy) m =
     (if m service = None then m(service \<mapsto> Bind service k port allow proxy) else m)"
| "server_view_step _ m = m"

definition wanted_view :: "(string, 'net Expose) hmap \<Rightarrow> string \<Rightarrow> 'net ClientMessage option" where
  "wanted_view exposed service = map_option (bind_message service) (hget exposed service)"

lemma view_unbinds:
  "fold server_view_step (map (\<lambda>(service, _). Unbind service) xs) m = (\<lambda>s. if s \<in> fst ` set xs then None else m s)"
  by (induction xs arbitrary: m) (auto simp: fun_eq_iff)

lemma view_bind: "server_view_step (bind_message service x) m = (if m service = None then m(service \<mapsto> bind_message service x) else m)"
  by (cases "x_port x") (simp_all add: bind_message_def)

lemma view_binds:
  "distinct (map fst xs) \<Longrightarrow>
   fold server_view_step (map (\<lambda>(service, x). bind_message service x) xs) m =
     (\<lambda>s. case m s of Some b \<Rightarrow> Some b | None \<Rightarrow> map_option (bind_message s) (hget xs s))"
proof (induction xs arbitrary: m)
  case (Cons p xs)
  obtain service x where p: "p = (service, x)" by force
  have new: "hget xs service = None" using Cons.prems by (auto simp: p map_of_eq_None_iff)
  show ?case
    using Cons.IH [of "server_view_step (bind_message service x) m"] Cons.prems new
    by (auto simp: p view_bind fun_eq_iff split: option.splits)
qed (auto simp: fun_eq_iff split: option.split)

lemma hget_filter:
  assumes "hm_ok m"
  shows "hget (filter P m) k = (case hget m k of Some v \<Rightarrow> if P (k, v) then Some v else None | None \<Rightarrow> None)"
  using assms
proof (induction m)
  case (Cons p m)
  obtain k' v where p: "p = (k', v)" by force
  have "hm_ok m" "hget m k' = None" using Cons.prems by (auto simp: p hm_ok_def map_of_eq_None_iff)
  with Cons.IH show ?case by (auto simp: p split: option.splits)
qed simp

lemma unbound_names:
  assumes "hm_ok exposed"
  shows "s \<in> fst ` set (filter (differs retry nxt) exposed) \<longleftrightarrow>
    (\<exists>x. hget exposed s = Some x \<and> (s \<in> retry \<or> hget nxt s \<noteq> Some x))"
  using hm_ok_get [OF assms] by (force simp: differs_def)

lemma rebind_mentions:
  "Unbind s \<in> set (rebind exposed nxt retry) \<Longrightarrow> s \<in> fst ` set (filter (differs retry nxt) exposed)"
  "Bind s k port allow proxy \<in> set (rebind exposed nxt retry) \<Longrightarrow> s \<in> fst ` set (filter (differs retry exposed) nxt)"
  by (force simp: rebind_def bind_message_def split: PortRequest.splits)+

text \<open>
  C21: the messages a reload sends turn what the server has bound into exactly the services the new
  configuration asks for, whatever became of those the server had refused, and say nothing of a
  service that neither changed nor was refused, so it is never interrupted.
\<close>

theorem rebind_reaches_wanted:
  assumes "hm_ok exposed" "hm_ok nxt"
    and "\<forall>s. s \<notin> retry \<longrightarrow> view s = wanted_view exposed s" "\<forall>s. hget exposed s = None \<longrightarrow> view s = None"
  shows "fold server_view_step (rebind exposed nxt retry) view = wanted_view nxt \<and>
    (\<forall>s. hget exposed s = hget nxt s \<and> s \<notin> retry \<longrightarrow>
       Unbind s \<notin> set (rebind exposed nxt retry) \<and> (\<forall>k port allow proxy. Bind s k port allow proxy \<notin> set (rebind exposed nxt retry)))"
proof
  let ?un = "filter (differs retry nxt) exposed" and ?bi = "filter (differs retry exposed) nxt"
  have dist: "distinct (map fst ?bi)" using assms(2) by (simp add: hm_ok_def distinct_map_filter)
  have "fold server_view_step (rebind exposed nxt retry) view s = wanted_view nxt s" for s
    unfolding rebind_def fold_append comp_apply view_unbinds view_binds [OF dist] unbound_names [OF assms(1)] hget_filter [OF assms(2)]
    using assms(3,4) by (cases "hget exposed s"; cases "hget nxt s"; cases "s \<in> retry") (auto simp: wanted_view_def differs_def)
  then show "fold server_view_step (rebind exposed nxt retry) view = wanted_view nxt" by blast
  show "\<forall>s. hget exposed s = hget nxt s \<and> s \<notin> retry \<longrightarrow>
       Unbind s \<notin> set (rebind exposed nxt retry) \<and> (\<forall>k port allow proxy. Bind s k port allow proxy \<notin> set (rebind exposed nxt retry))"
  proof (intro allI impI)
    fix s assume same: "hget exposed s = hget nxt s \<and> s \<notin> retry"
    then have "s \<notin> fst ` set ?un" "s \<notin> fst ` set ?bi"
      using unbound_names [OF assms(1)] unbound_names [OF assms(2), of s retry exposed] by auto
    then show "Unbind s \<notin> set (rebind exposed nxt retry) \<and> (\<forall>k port allow proxy. Bind s k port allow proxy \<notin> set (rebind exposed nxt retry))"
      using rebind_mentions by blast
  qed
qed

theorem rebind_reaches_wanted_witness:
  "let x = \<lparr>x_local = ''127.0.0.1:22'', x_port = Any Tcp, x_allow = [] :: IpAddr list, x_proxy_protocol = False\<rparr>
   in fold server_view_step (rebind [(''ssh'', x)] [(''ssh'', x), (''web'', x)] {''ssh''}) Map.empty =
      wanted_view [(''ssh'', x), (''web'', x)]"
proof -
  let ?x = "\<lparr>x_local = ''127.0.0.1:22'', x_port = Any Tcp, x_allow = [] :: IpAddr list, x_proxy_protocol = False\<rparr>"
  have "\<forall>s. s \<notin> {''ssh''} \<longrightarrow> None = wanted_view [(''ssh'', ?x)] s" by (simp add: wanted_view_def)
  with rebind_reaches_wanted [of "[(''ssh'', ?x)]" "[(''ssh'', ?x), (''web'', ?x)]" "{''ssh''}" Map.empty] show ?thesis
    by (simp add: hm_ok_def)
qed

section \<open>What a stream can reach\<close>

definition target_of :: "string \<Rightarrow> 'net Expose \<Rightarrow> Target" where
  "target_of service x = \<lparr>tg_service = service, tg_local = x_local x, tg_proxy_protocol = x_proxy_protocol x\<rparr>"

text \<open>
  The client's tables against the services it exposes: an id leads to the local address of the one
  service the server gave that id, by the settings exposed now, and every service with an id has
  its entry.
\<close>

definition tables_ok :: "(string \<Rightarrow> 'net Expose option) \<Rightarrow> (string \<Rightarrow> u16 option) \<Rightarrow> (u16 \<Rightarrow> Target option) \<Rightarrow>
    (u16 \<Rightarrow> UdpLocal option) \<Rightarrow> bool" where
  "tables_ok E ids targets udp \<longleftrightarrow>
     (\<forall>i t. targets i = Some t \<longrightarrow>
        (\<exists>service x. ids service = Some i \<and> E service = Some x \<and> request_kind (x_port x) \<noteq> Udp \<and> t = target_of service x)) \<and>
     (\<forall>i l. udp i = Some l \<longrightarrow>
        (\<exists>service x. ids service = Some i \<and> E service = Some x \<and> request_kind (x_port x) = Udp \<and>
           ul_service l = service \<and> ul_id l = i \<and> ul_local l = x_local x)) \<and>
     (\<forall>a b i. ids a = Some i \<longrightarrow> ids b = Some i \<longrightarrow> a = b) \<and>
     (\<forall>service i. ids service = Some i \<longrightarrow> E service \<noteq> None \<and> (targets i \<noteq> None \<or> udp i \<noteq> None))"

lemma tables_okD:
  assumes "tables_ok E ids targets udp"
  shows "\<And>i t. targets i = Some t \<Longrightarrow>
        \<exists>service x. ids service = Some i \<and> E service = Some x \<and> request_kind (x_port x) \<noteq> Udp \<and> t = target_of service x"
    "\<And>i l. udp i = Some l \<Longrightarrow>
        \<exists>service x. ids service = Some i \<and> E service = Some x \<and> request_kind (x_port x) = Udp \<and>
           ul_service l = service \<and> ul_id l = i \<and> ul_local l = x_local x"
    "\<And>a b i. ids a = Some i \<Longrightarrow> ids b = Some i \<Longrightarrow> a = b"
    "\<And>service i. ids service = Some i \<Longrightarrow> E service \<noteq> None \<and> (targets i \<noteq> None \<or> udp i \<noteq> None)"
  using assms unfolding tables_ok_def by blast+

lemma tables_okI:
  assumes "\<And>i t. targets i = Some t \<Longrightarrow>
        \<exists>service x. ids service = Some i \<and> E service = Some x \<and> request_kind (x_port x) \<noteq> Udp \<and> t = target_of service x"
    "\<And>i l. udp i = Some l \<Longrightarrow>
        \<exists>service x. ids service = Some i \<and> E service = Some x \<and> request_kind (x_port x) = Udp \<and>
           ul_service l = service \<and> ul_id l = i \<and> ul_local l = x_local x"
    "\<And>a b i. ids a = Some i \<Longrightarrow> ids b = Some i \<Longrightarrow> a = b"
    "\<And>service i. ids service = Some i \<Longrightarrow> E service \<noteq> None \<and> (targets i \<noteq> None \<or> udp i \<noteq> None)"
  shows "tables_ok E ids targets udp"
  unfolding tables_ok_def
  by (intro conjI allI impI) (fact assms(1) assms(2) assms(3) | drule assms(4); blast)+

text \<open>A service is taken away, with what its id leads to.\<close>

lemma tables_drop:
  assumes ok: "tables_ok E ids targets udp"
  shows "tables_ok E (ids(service := None)) (\<lambda>i. if ids service = Some i then None else targets i)
    (\<lambda>i. if ids service = Some i then None else udp i)"
proof (rule tables_okI)
  fix i t assume "(if ids service = Some i then None else targets i) = Some t"
  then have i: "ids service \<noteq> Some i" "targets i = Some t" by (auto split: if_splits)
  from tables_okD(1) [OF ok i(2)] i(1) show "\<exists>a x. (ids(service := None)) a = Some i \<and> E a = Some x \<and>
      request_kind (x_port x) \<noteq> Udp \<and> t = target_of a x" by auto
next
  fix i l assume "(if ids service = Some i then None else udp i) = Some l"
  then have i: "ids service \<noteq> Some i" "udp i = Some l" by (auto split: if_splits)
  from tables_okD(2) [OF ok i(2)] i(1) show "\<exists>a x. (ids(service := None)) a = Some i \<and> E a = Some x \<and>
      request_kind (x_port x) = Udp \<and> ul_service l = a \<and> ul_id l = i \<and> ul_local l = x_local x" by auto
next
  fix a b i assume "(ids(service := None)) a = Some i" "(ids(service := None)) b = Some i"
  then show "a = b" by (intro tables_okD(3) [OF ok, of a i b]) (auto split: if_splits)
next
  fix a i assume "(ids(service := None)) a = Some i"
  then have a: "ids a = Some i" "a \<noteq> service" by (auto split: if_splits)
  then have "ids service \<noteq> Some i" using tables_okD(3) [OF ok a(1), of service] by blast
  with tables_okD(4) [OF ok a(1)] show "E a \<noteq> None \<and> ((if ids service = Some i then None else targets i) \<noteq> None \<or>
      (if ids service = Some i then None else udp i) \<noteq> None)" by simp
qed

text \<open>A service is bound under an id nobody has.\<close>

lemma tables_add:
  assumes ok: "tables_ok E ids targets udp" and x: "E service = Some x" "ids service = None" and new: "sid \<notin> ran ids"
    and t: "request_kind (x_port x) \<noteq> Udp \<Longrightarrow> targets' = targets(sid \<mapsto> target_of service x) \<and> udp' = udp"
    and u: "request_kind (x_port x) = Udp \<Longrightarrow> targets' = targets \<and> udp' = udp(sid \<mapsto> l) \<and>
      ul_service l = service \<and> ul_id l = sid \<and> ul_local l = x_local x"
  shows "tables_ok E (ids(service \<mapsto> sid)) targets' udp'"
proof -
  have old: "ids a = Some i \<Longrightarrow> i \<noteq> sid \<and> a \<noteq> service" for a i using new x(2) by (auto simp: ran_def)
  have T: "targets' i = Some t \<Longrightarrow> targets i = Some t \<or> i = sid \<and> t = target_of service x \<and> request_kind (x_port x) \<noteq> Udp" for i t
    using t u by (cases "request_kind (x_port x) = Udp") (auto split: if_splits)
  have U: "udp' i = Some m \<Longrightarrow> udp i = Some m \<or> i = sid \<and> ul_service m = service \<and> ul_id m = sid \<and>
      ul_local m = x_local x \<and> request_kind (x_port x) = Udp" for i m
    using t u by (cases "request_kind (x_port x) = Udp") (auto split: if_splits)
  have K: "targets i \<noteq> None \<or> udp i \<noteq> None \<or> i = sid \<Longrightarrow> targets' i \<noteq> None \<or> udp' i \<noteq> None" for i
    using t u by (cases "request_kind (x_port x) = Udp") auto
  show ?thesis
  proof (rule tables_okI)
    fix i tt assume "targets' i = Some tt"
    from T [OF this] show "\<exists>a y. (ids(service \<mapsto> sid)) a = Some i \<and> E a = Some y \<and> request_kind (x_port y) \<noteq> Udp \<and> tt = target_of a y"
      using tables_okD(1) [OF ok, of i tt] old x(1) by (metis fun_upd_apply)
  next
    fix i m assume "udp' i = Some m"
    from U [OF this] show "\<exists>a y. (ids(service \<mapsto> sid)) a = Some i \<and> E a = Some y \<and> request_kind (x_port y) = Udp \<and>
        ul_service m = a \<and> ul_id m = i \<and> ul_local m = x_local y"
      using tables_okD(2) [OF ok, of i m] old x(1) by (metis fun_upd_apply)
  next
    fix a b i assume "(ids(service \<mapsto> sid)) a = Some i" "(ids(service \<mapsto> sid)) b = Some i"
    then show "a = b" using tables_okD(3) [OF ok, of a i b] old by (auto split: if_splits)
  next
    fix a i assume "(ids(service \<mapsto> sid)) a = Some i"
    then show "E a \<noteq> None \<and> (targets' i \<noteq> None \<or> udp' i \<noteq> None)"
      using tables_okD(4) [OF ok, of a i] K [of i] x(1) by (cases "a = service") auto
  qed
qed

definition client_ok :: "'net Client \<Rightarrow> bool" where
  "client_ok c \<longleftrightarrow> hm_ok (sv_exposed (cl_services c)) \<and>
     tables_ok (hget (sv_exposed (cl_services c))) (hget (sv_ids (cl_services c))) (hget (cl_targets c)) (hget (cl_udp c))"

lemma client_ok_more:
  "client_ok (c\<lparr>cl_traffic := tr\<rparr>) = client_ok c" "client_ok (emit e c) = client_ok c"
  "client_ok (c\<lparr>cl_services := (cl_services c)\<lparr>sv_unanswered := u\<rparr>\<rparr>) = client_ok c"
  "client_ok (c\<lparr>cl_services := (cl_services c)\<lparr>sv_failed := f\<rparr>\<rparr>) = client_ok c"
  by (simp_all add: client_ok_def emit_def)

lemma forget_tables:
  "hget (cl_targets (forget sid c)) = (\<lambda>i. if sid = Some i then None else hget (cl_targets c) i)"
  "hget (cl_udp (forget sid c)) = (\<lambda>i. if sid = Some i then None else hget (cl_udp c) i)"
  "cl_services (forget sid c) = cl_services c"
  by (auto simp: forget_def registry_remove_def hmap_simps fun_eq_iff split: option.split)

lemma forget_services: "forget sid (c\<lparr>cl_services := s\<rparr>) = (forget sid c)\<lparr>cl_services := s\<rparr>"
  by (simp add: forget_def split: option.split)

text \<open>A service's id is taken back and what it leads to dropped.\<close>

lemma forget_ok:
  assumes ok: "client_ok c" and s: "sv_exposed s = sv_exposed (cl_services c)"
    "hget (sv_ids s) = (hget (sv_ids (cl_services c)))(service := None)"
  shows "client_ok (forget (hget (sv_ids (cl_services c)) service) (c\<lparr>cl_services := s\<rparr>))"
proof -
  let ?c = "forget (hget (sv_ids (cl_services c)) service) (c\<lparr>cl_services := s\<rparr>)"
  have same: "cl_services ?c = s" "cl_targets ?c = cl_targets (forget (hget (sv_ids (cl_services c)) service) c)"
    "cl_udp ?c = cl_udp (forget (hget (sv_ids (cl_services c)) service) c)"
    by (simp_all add: forget_services)
  have "hm_ok (sv_exposed s)" using ok s(1) by (simp add: client_ok_def)
  with tables_drop [OF conjunct2 [OF ok [unfolded client_ok_def]], of service] show ?thesis
    unfolding client_ok_def same forget_tables(1,2) s by blast
qed

lemma answered_bind_keeps:
  "answered_bind service s = (s', final) \<Longrightarrow> sv_exposed s' = sv_exposed s \<and> sv_ids s' = sv_ids s"
  by (auto simp: answered_bind_def Let_def)

lemma register_bound_ok:
  assumes "client_ok c" "hget (sv_exposed (cl_services c)) service = Some x" "hget (sv_ids (cl_services c)) service = None"
    "sid \<notin> ran (hget (sv_ids (cl_services c)))"
    and s: "sv_exposed s = sv_exposed (cl_services c)" "hget (sv_ids s) = (hget (sv_ids (cl_services c)))(service \<mapsto> sid)"
  shows "client_ok (register_bound service sid x listener (c\<lparr>cl_services := s\<rparr>))"
proof -
  let ?c = "register_bound service sid x listener (c\<lparr>cl_services := s\<rparr>)"
  have ok: "tables_ok (hget (sv_exposed (cl_services c))) (hget (sv_ids (cl_services c))) (hget (cl_targets c)) (hget (cl_udp c))"
    "hm_ok (sv_exposed (cl_services c))" using assms(1) by (simp_all add: client_ok_def)
  let ?l = "new_udp_local service sid (x_local x) IDLE SESSION_CAP (if x_proxy_protocol x then Some listener else None)"
  have same: "cl_services ?c = s" by (simp add: register_bound_def Let_def)
  have "tables_ok (hget (sv_exposed (cl_services c))) ((hget (sv_ids (cl_services c)))(service \<mapsto> sid)) (hget (cl_targets ?c)) (hget (cl_udp ?c))"
    by (rule tables_add [OF ok(1) assms(2-4), where l = ?l])
      (simp_all add: register_bound_def Let_def hmap_simps fun_eq_iff target_of_def registry_insert_def new_udp_local_def)
  then show ?thesis unfolding client_ok_def same s using ok(2) by simp
qed

lemma heard_bound_ok:
  assumes ok: "client_ok c" and fresh: "sid \<notin> ran (hget (sv_ids (cl_services c)))"
    and x: "hget (sv_exposed (cl_services c)) service = Some x"
    and s: "sv_exposed s = sv_exposed (cl_services c)" "sv_ids s = hput service sid (sv_ids (cl_services c))"
  shows "client_ok (register_bound service sid x listener (forget (hget (sv_ids (cl_services c)) service) (c\<lparr>cl_services := s\<rparr>)))"
proof -
  let ?s1 = "(cl_services c)\<lparr>sv_ids := hdel service (sv_ids (cl_services c))\<rparr>"
  let ?c1 = "forget (hget (sv_ids (cl_services c)) service) (c\<lparr>cl_services := ?s1\<rparr>)"
  have c1: "client_ok ?c1" using forget_ok [OF ok, of ?s1 service] by (simp add: hmap_simps fun_eq_iff)
  have ids: "hget (sv_ids (cl_services ?c1)) = (hget (sv_ids (cl_services c)))(service := None)"
    and ex: "sv_exposed (cl_services ?c1) = sv_exposed (cl_services c)"
    by (simp_all add: forget_tables hmap_simps fun_eq_iff)
  have "sid \<notin> ran (hget (sv_ids (cl_services ?c1)))" using fresh by (auto simp: ids ran_def split: if_splits)
  then have "client_ok (register_bound service sid x listener (?c1\<lparr>cl_services := s\<rparr>))"
    by (intro register_bound_ok [OF c1]) (simp_all add: ids ex x s hget_hput fun_eq_iff)
  moreover have "?c1\<lparr>cl_services := s\<rparr> = forget (hget (sv_ids (cl_services c)) service) (c\<lparr>cl_services := s\<rparr>)"
    by (simp add: forget_services)
  ultimately show ?thesis by simp
qed

lemma heard_ok:
  assumes ok: "client_ok c" and h: "heard msg remote pinged c = (c', r)"
    and fresh: "\<And>service sid port a. msg = Bound service sid port a \<Longrightarrow> sid \<notin> ran (hget (sv_ids (cl_services c)))"
  shows "client_ok c'"
proof -
  define c0 where "c0 = (case answered_ping msg pinged of Some d \<Rightarrow> emit (CeRoundTrip d) c | None \<Rightarrow> c)"
  have c0: "client_ok c0" "cl_services c0 = cl_services c" using ok by (simp_all add: c0_def client_ok_more split: option.split) (simp add: emit_def)
  note h = h [unfolded heard_def c0_def [symmetric] Let_def]
  show ?thesis
  proof (cases msg)
    case (Bound service sid port address)
    obtain s final where a: "answered_bind service (cl_services c0) = (s, final)" by force
    note keeps = answered_bind_keeps [OF a]
    have s: "client_ok (c0\<lparr>cl_services := s\<rparr>)" using c0 keeps by (simp add: client_ok_def)
    show ?thesis
    proof (cases "if final then hget (sv_exposed s) service else None")
      case None
      with h s a show ?thesis by (auto simp: Bound split: if_splits)
    next
      case (Some x)
      then have x: "final" "hget (sv_exposed s) service = Some x" by (auto split: if_splits)
      let ?s = "s\<lparr>sv_failed := sv_failed s - {service}, sv_ids := hput service sid (sv_ids s)\<rparr>"
      have "client_ok (register_bound service sid x (listener_addr address remote port) (forget (hget (sv_ids s) service) (c0\<lparr>cl_services := ?s\<rparr>)))"
        using heard_bound_ok [OF s, of sid service x ?s] fresh [OF Bound] keeps x(2) c0(2) by simp
      with h a x show ?thesis by (auto simp: Bound client_ok_more)
    qed
  next
    case (BindFailed service reason)
    obtain s final where a: "answered_bind service (cl_services c0) = (s, final)" by force
    note keeps = answered_bind_keeps [OF a]
    have s: "client_ok (c0\<lparr>cl_services := s\<rparr>)" using c0 keeps by (simp add: client_ok_def)
    let ?s = "s\<lparr>sv_ids := hdel service (sv_ids s), sv_failed := insert service (sv_failed s)\<rparr>"
    have "client_ok (forget (hget (sv_ids s) service) (c0\<lparr>cl_services := ?s\<rparr>))"
      using forget_ok [OF s, of ?s service] by (simp add: hmap_simps fun_eq_iff)
    with h a s show ?thesis by (auto simp: BindFailed client_ok_more split: if_splits)
  qed (use h c0 in auto)
qed

text \<open>A reload, message by message: each unbind takes its service's id back.\<close>

lemma reexpose_one_ok:
  assumes "client_ok c"
  shows "client_ok (reexpose_one msg c) \<and> sv_exposed (cl_services (reexpose_one msg c)) = sv_exposed (cl_services c) \<and>
    hget (sv_ids (cl_services (reexpose_one msg c))) =
      (case msg of Unbind service \<Rightarrow> (hget (sv_ids (cl_services c)))(service := None) | _ \<Rightarrow> hget (sv_ids (cl_services c)))"
proof (cases msg)
  case (Unbind service)
  let ?s = "(cl_services c)\<lparr>sv_ids := hdel service (sv_ids (cl_services c))\<rparr>"
  have "client_ok (forget (hget (sv_ids (cl_services c)) service) (c\<lparr>cl_services := ?s\<rparr>))"
    by (rule forget_ok [OF assms]) (simp_all add: hmap_simps fun_eq_iff)
  then show ?thesis by (simp add: Unbind reexpose_one_def Let_def forget_tables(3) hmap_simps fun_eq_iff)
qed (use assms in \<open>simp_all add: reexpose_one_def Let_def client_ok_more\<close>)

lemma reexpose_all_ok:
  assumes "client_ok c"
  shows "client_ok (fold reexpose_one msgs c) \<and> sv_exposed (cl_services (fold reexpose_one msgs c)) = sv_exposed (cl_services c) \<and>
    (\<forall>service i. hget (sv_ids (cl_services (fold reexpose_one msgs c))) service = Some i \<longrightarrow>
       Unbind service \<notin> set msgs)"
  using assms
proof (induction msgs rule: rev_induct)
  case (snoc msg msgs)
  let ?c = "fold reexpose_one msgs c"
  have IH: "client_ok ?c" "sv_exposed (cl_services ?c) = sv_exposed (cl_services c)"
    "\<And>service i. hget (sv_ids (cl_services ?c)) service = Some i \<Longrightarrow> Unbind service \<notin> set msgs"
    using snoc by simp_all
  note one = reexpose_one_ok [OF IH(1), of msg]
  have "Unbind service \<notin> set (msgs @ [msg])" if "hget (sv_ids (cl_services (reexpose_one msg ?c))) service = Some i" for service i
    using that one IH(3) [of service i] by (cases msg) (auto split: if_splits)
  with one IH(2) show ?case by auto
qed simp

lemma reexpose_ok:
  assumes ok: "client_ok c" and nxt: "hm_ok nxt" and r: "reexpose nxt c = (c', msgs)"
  shows "client_ok c'"
proof -
  let ?E = "sv_exposed (cl_services c)" and ?retry = "sv_failed (cl_services c)"
  define c1 where "c1 = fold reexpose_one (rebind ?E nxt ?retry) (c\<lparr>cl_services := (cl_services c)\<lparr>sv_failed := {}\<rparr>\<rparr>)"
  have c': "c' = c1\<lparr>cl_services := (cl_services c1)\<lparr>sv_exposed := nxt\<rparr>\<rparr>" using r by (auto simp: reexpose_def Let_def c1_def)
  have ok1: "client_ok c1" "sv_exposed (cl_services c1) = ?E"
    "\<And>service i. hget (sv_ids (cl_services c1)) service = Some i \<Longrightarrow> Unbind service \<notin> set (rebind ?E nxt ?retry)"
    using reexpose_all_ok [of "c\<lparr>cl_services := (cl_services c)\<lparr>sv_failed := {}\<rparr>\<rparr>" "rebind ?E nxt ?retry"] ok
    by (auto simp: c1_def client_ok_more)
  have E: "hm_ok ?E" using ok by (simp add: client_ok_def)
  have kept: "hget nxt service = Some x" if "hget (sv_ids (cl_services c1)) service = Some i" "hget ?E service = Some x" for service i x
  proof (rule ccontr)
    assume "hget nxt service \<noteq> Some x"
    then have "service \<in> fst ` set (filter (differs ?retry nxt) ?E)" using unbound_names [OF E] that(2) by blast
    then have "Unbind service \<in> set (rebind ?E nxt ?retry)" by (force simp: rebind_def)
    with ok1(3) [OF that(1)] show False by blast
  qed
  have t: "tables_ok (hget ?E) (hget (sv_ids (cl_services c1))) (hget (cl_targets c1)) (hget (cl_udp c1))"
    using ok1(1,2) by (simp add: client_ok_def)
  have "tables_ok (hget nxt) (hget (sv_ids (cl_services c1))) (hget (cl_targets c1)) (hget (cl_udp c1))"
  proof (rule tables_okI)
    fix i tt assume "hget (cl_targets c1) i = Some tt"
    from tables_okD(1) [OF t this] kept show "\<exists>service x. hget (sv_ids (cl_services c1)) service = Some i \<and>
      hget nxt service = Some x \<and> request_kind (x_port x) \<noteq> Udp \<and> tt = target_of service x" by blast
  next
    fix i l assume "hget (cl_udp c1) i = Some l"
    from tables_okD(2) [OF t this] kept show "\<exists>service x. hget (sv_ids (cl_services c1)) service = Some i \<and>
      hget nxt service = Some x \<and> request_kind (x_port x) = Udp \<and> ul_service l = service \<and> ul_id l = i \<and> ul_local l = x_local x" by blast
  next
    fix a b i assume "hget (sv_ids (cl_services c1)) a = Some i" "hget (sv_ids (cl_services c1)) b = Some i"
    then show "a = b" by (rule tables_okD(3) [OF t])
  next
    fix service i assume "hget (sv_ids (cl_services c1)) service = Some i"
    with tables_okD(4) [OF t this] kept show "hget nxt service \<noteq> None \<and> (hget (cl_targets c1) i \<noteq> None \<or> hget (cl_udp c1) i \<noteq> None)" by blast
  qed
  with nxt show ?thesis by (simp add: client_ok_def c')
qed

text \<open>
  A client's session: it starts from the services exposed, and then answers and reloads come in any
  order. The server gives no id it has given.
\<close>

definition bound_id :: "ServerMessage \<Rightarrow> u16 set" where
  "bound_id msg = (case msg of Bound _ sid _ _ \<Rightarrow> {sid} | _ \<Rightarrow> {})"

inductive client_step :: "'net Client \<times> u16 set \<Rightarrow> 'net Client \<times> u16 set \<Rightarrow> bool" where
  answer: "heard msg remote pinged c = (c', r) \<Longrightarrow> bound_id msg \<inter> given = {} \<Longrightarrow>
    client_step (c, given) (c', given \<union> bound_id msg)"
| reload: "hm_ok nxt \<Longrightarrow> reexpose nxt c = (c', msgs) \<Longrightarrow> client_step (c, given) (c', given)"

lemma heard_ids:
  assumes "heard msg remote pinged c = (c', r)"
  shows "ran (hget (sv_ids (cl_services c'))) \<subseteq> ran (hget (sv_ids (cl_services c))) \<union> bound_id msg"
proof -
  define c0 where "c0 = (case answered_ping msg pinged of Some d \<Rightarrow> emit (CeRoundTrip d) c | None \<Rightarrow> c)"
  have c0: "cl_services c0 = cl_services c" by (simp add: c0_def emit_def split: option.split)
  note h = assms [unfolded heard_def c0_def [symmetric] Let_def]
  have reg: "cl_services (register_bound n i x l d) = cl_services d" for n i x l and d :: "'a Client"
    by (simp add: register_bound_def Let_def)
  show ?thesis
  proof (cases msg)
    case (Bound service sid port address)
    obtain s final where a: "answered_bind service (cl_services c0) = (s, final)" by force
    have ids: "sv_ids s = sv_ids (cl_services c)" using answered_bind_keeps [OF a] c0 by simp
    from h a show ?thesis
      by (auto simp: Bound ids bound_id_def reg forget_tables(3) emit_def hget_hput ran_def split: option.splits if_splits)
  next
    case (BindFailed service reason)
    obtain s final where a: "answered_bind service (cl_services c0) = (s, final)" by force
    have ids: "sv_ids s = sv_ids (cl_services c)" using answered_bind_keeps [OF a] c0 by simp
    from h a show ?thesis
      by (auto simp: BindFailed ids forget_tables(3) emit_def hget_hdel ran_def split: if_splits)
  qed (use h c0 in auto)
qed

lemma reexpose_ids:
  assumes "client_ok c" "reexpose nxt c = (c', msgs)"
  shows "ran (hget (sv_ids (cl_services c'))) \<subseteq> ran (hget (sv_ids (cl_services c)))"
proof -
  have "ran (hget (sv_ids (cl_services (fold reexpose_one ms d)))) \<subseteq> ran (hget (sv_ids (cl_services d)))"
    if "client_ok d" for ms and d :: "'a Client"
    using that
  proof (induction ms arbitrary: d)
    case (Cons m ms)
    note one = reexpose_one_ok [OF Cons.prems, of m]
    have "ran (hget (sv_ids (cl_services (reexpose_one m d)))) \<subseteq> ran (hget (sv_ids (cl_services d)))"
      using one by (cases m) (auto simp: ran_def split: if_splits)
    with Cons.IH [OF conjunct1 [OF one]] show ?case by auto
  qed simp
  from this [of "c\<lparr>cl_services := (cl_services c)\<lparr>sv_failed := {}\<rparr>\<rparr>"
      "rebind (sv_exposed (cl_services c)) nxt (sv_failed (cl_services c))"] assms show ?thesis
    by (auto simp: reexpose_def Let_def client_ok_more)
qed

lemma client_steps_ok:
  assumes "client_step\<^sup>*\<^sup>* (c0, {}) (c, given)" "client_ok c0" "sv_ids (cl_services c0) = []"
  shows "client_ok c \<and> ran (hget (sv_ids (cl_services c))) \<subseteq> given"
  using assms(1)
proof (induction rule: rtranclp_induct2)
  case refl
  then show ?case using assms(2,3) by simp
next
  case (step c given c' given')
  from step.hyps(2) step.IH show ?case
  proof (cases rule: client_step.cases)
    case (answer msg remote pinged r)
    have "sid \<notin> ran (hget (sv_ids (cl_services c)))" if "msg = Bound service sid port a" for service sid port a
      using that answer step.IH by (auto simp: bound_id_def)
    from heard_ok [OF conjunct1 [OF step.IH] answer(2) this] heard_ids [OF answer(2)] answer(1) step.IH show ?thesis by auto
  next
    case (reload nxt msgs)
    with step.IH reexpose_ok reexpose_ids show ?thesis by blast
  qed
qed

lemma greet_start_ok:
  assumes "greet_start sent sends answer remote transport round_trip wanted c = (c0, Inr ms)" "hm_ok wanted"
  shows "client_ok c0" "sv_ids (cl_services c0) = []" "ms = map (\<lambda>(service, x). bind_message service x) wanted"
proof -
  obtain agent name c1 where g: "greet sent answer (c\<lparr>cl_services := new_services wanted\<rparr>) = (c1, Inr (agent, name))"
      "send_binds sends wanted = Inr ms" "c0 = (emit (CeConnected remote transport name agent round_trip) c1)\<lparr>cl_targets := [], cl_udp := []\<rparr>"
    using assms(1) by (auto simp: greet_start_def Let_def registry_clear_def split: prod.splits sum.splits)
  have "cl_services c1 = new_services wanted"
    using g(1) by (auto simp: greet_def emit_def split: sum.splits option.splits ServerMessage.splits)
  with g(3) assms(2) show "client_ok c0" "sv_ids (cl_services c0) = []"
    by (simp_all add: client_ok_def emit_def new_services_def tables_ok_def)
  show "ms = map (\<lambda>(service, x). bind_message service x) wanted"
    using g(2) by (induction wanted arbitrary: ms) (auto split: sum.splits)
qed

text \<open>
  C3: nothing a server sends can make a client dial anything but what its own configuration exposes.
  From any greeting, through any answers and any reloads in any order, a stream that reaches the
  local side reaches the address the configuration of now gives the one TCP service the server
  gave that stream's id, behind a PROXY header exactly when that service asks for one.
\<close>

theorem visitors_reach_exposed_only:
  assumes "greet_start sent sends answer remote transport round_trip wanted c00 = (c0, Inr ms)" "hm_ok wanted"
    "client_step\<^sup>*\<^sup>* (c0, {}) (c, given)" "visitor_serve dials writes header c = (c', Inr (addr, preamble))"
  shows "\<exists>!service. hget (sv_ids (cl_services c)) service = Some (sh_service_id header) \<and>
    (\<exists>x. hget (sv_exposed (cl_services c)) service = Some x \<and> request_kind (x_port x) = Tcp \<and> addr = x_local x \<and>
       preamble = (if x_proxy_protocol x then v2_tcp (sh_visitor header) (sh_listener header) else []))"
proof -
  note g = greet_start_ok [OF assms(1,2)]
  have ok: "tables_ok (hget (sv_exposed (cl_services c))) (hget (sv_ids (cl_services c))) (hget (cl_targets c)) (hget (cl_udp c))"
    using client_steps_ok [OF assms(3) g(1,2)] by (simp add: client_ok_def)
  obtain t where t: "hget (cl_targets c) (sh_service_id header) = Some t" "addr = tg_local t"
      "preamble = (if tg_proxy_protocol t then v2_tcp (sh_visitor header) (sh_listener header) else [])"
    using assms(4) by (auto simp: visitor_serve_def Let_def split: option.splits if_splits)
  obtain service x where x: "hget (sv_ids (cl_services c)) service = Some (sh_service_id header)"
      "hget (sv_exposed (cl_services c)) service = Some x" "request_kind (x_port x) \<noteq> Udp" "t = target_of service x"
    using tables_okD(1) [OF ok t(1)] by blast
  have "request_kind (x_port x) = Tcp" using x(3) by (cases "request_kind (x_port x)") simp_all
  with x t(2,3) have "hget (sv_ids (cl_services c)) service = Some (sh_service_id header) \<and>
    (\<exists>x. hget (sv_exposed (cl_services c)) service = Some x \<and> request_kind (x_port x) = Tcp \<and> addr = x_local x \<and>
       preamble = (if x_proxy_protocol x then v2_tcp (sh_visitor header) (sh_listener header) else []))"
    by (simp add: target_of_def)
  then show ?thesis using tables_okD(3) [OF ok] by blast
qed

theorem visitors_reach_exposed_only_witness:
  "let x = \<lparr>x_local = ''127.0.0.1:22'', x_port = Any Tcp, x_allow = [] :: IpAddr list, x_proxy_protocol = False\<rparr>;
       c00 = \<lparr>cl_services = new_services [], cl_targets = [], cl_udp = [], cl_traffic = new_traffic, cl_events = []\<rparr>;
       c0 = fst (greet_start (Inr ()) (\<lambda>_. Inr ()) (Some (Welcome ''a'' ''b'')) (SocketV4 9 4433) ViaTcp 5 [(''ssh'', x)] c00);
       c = fst (heard (Bound ''ssh'' 1 40000 (V4 0)) (SocketV4 9 4433) None c0)
   in \<exists>!service. hget (sv_ids (cl_services c)) service = Some 1 \<and>
     (\<exists>y. hget (sv_exposed (cl_services c)) service = Some y \<and> ''127.0.0.1:22'' = x_local y)"
proof -
  let ?x = "\<lparr>x_local = ''127.0.0.1:22'', x_port = Any Tcp, x_allow = [] :: IpAddr list, x_proxy_protocol = False\<rparr>"
  let ?c00 = "\<lparr>cl_services = new_services [], cl_targets = [], cl_udp = [], cl_traffic = new_traffic, cl_events = []\<rparr> :: IpAddr Client"
  let ?g = "greet_start (Inr ()) (\<lambda>_. Inr ()) (Some (Welcome ''a'' ''b'')) (SocketV4 9 4433) ViaTcp 5 [(''ssh'', ?x)] ?c00"
  let ?h = "heard (Bound ''ssh'' 1 40000 (V4 0)) (SocketV4 9 4433) None (fst ?g)"
  let ?header = "\<lparr>sh_service_id = 1, sh_visitor = SocketV4 7 7, sh_listener = SocketV4 9 40000\<rparr>"
  have g: "?g = (fst ?g, Inr [bind_message ''ssh'' ?x])" by (simp add: greet_start_def greet_def Let_def)
  have "client_step (fst ?g, {}) (fst ?h, {} \<union> bound_id (Bound ''ssh'' 1 40000 (V4 0)))"
    by (rule client_step.answer [of _ "SocketV4 9 4433" None _ _ "snd ?h"]) simp_all
  then have s: "client_step\<^sup>*\<^sup>* (fst ?g, {}) (fst ?h, {} \<union> bound_id (Bound ''ssh'' 1 40000 (V4 0)))" by (rule r_into_rtranclp)
  have h: "hget (cl_targets (fst ?h)) 1 = Some \<lparr>tg_service = ''ssh'', tg_local = ''127.0.0.1:22'', tg_proxy_protocol = False\<rparr>"
      "sv_exposed (cl_services (fst ?h)) = [(''ssh'', ?x)]" "sv_ids (cl_services (fst ?h)) = [(''ssh'', 1)]"
    by (simp_all add: greet_start_def greet_def Let_def heard_def answered_ping_def answered_bind_def new_services_def
        emit_def forget_def register_bound_def)
  have v: "visitor_serve (\<lambda>_. True) (\<lambda>_. True) ?header (fst ?h) =
      (fst (visitor_serve (\<lambda>_. True) (\<lambda>_. True) ?header (fst ?h)), Inr (''127.0.0.1:22'', []))"
    by (simp add: visitor_serve_def h(1) Let_def)
  from visitors_reach_exposed_only [OF g _ s v] show ?thesis
    by (auto simp: h Let_def hm_ok_def)
qed

end
