(* ===== verification/Rust_Tree.thy ===== *)
theory Rust_Tree
  imports Hawse_Prelude "HOL-Library.Char_ord" "HOL-Library.List_Lexorder"
begin

text \<open>
  The part of Rust's \<open>BTreeMap\<close> the command line's code uses: an association list whose entries
  stand in the order of their keys, which is the order it is iterated in. A \<open>String\<close> compares by
  its bytes, as \<open>string\<close> does by \<open>Char_ord\<close> and \<open>List_Lexorder\<close>.
\<close>

fun bput :: "'k :: linorder \<Rightarrow> 'v \<Rightarrow> ('k, 'v) hmap \<Rightarrow> ('k, 'v) hmap" where
  "bput k v [] = [(k, v)]"
| "bput k v ((k', v') # m) =
     (if k < k' then (k, v) # (k', v') # m else if k = k' then (k, v) # m else (k', v') # bput k v m)"

definition bt_ok :: "('k :: linorder, 'v) hmap \<Rightarrow> bool" where
  "bt_ok m \<longleftrightarrow> sorted_wrt (<) (map fst m)"

lemma bt_ok_Nil [simp]: "bt_ok []"
  by (simp add: bt_ok_def)

lemma keys_bput [hmap_simps]: "hkeys (bput k v m) = insert k (hkeys m)"
  by (induction k v m rule: bput.induct) (auto simp: hkeys_def)

lemma bt_ok_bput [hmap_simps]: "bt_ok m \<Longrightarrow> bt_ok (bput k v m)"
proof (induction k v m rule: bput.induct)
  case (2 k v k' v' m)
  then show ?case
    using keys_bput [of k v m] by (auto simp: bt_ok_def hkeys_def)
qed (simp add: bt_ok_def)

lemma bt_ok_hdel [hmap_simps]: "bt_ok m \<Longrightarrow> bt_ok (hdel k m)"
  unfolding bt_ok_def hdel_def by (induction m) auto

lemma bt_ok_hm [hmap_simps]: "bt_ok m \<Longrightarrow> hm_ok m"
  by (simp add: bt_ok_def hm_ok_def strict_sorted_iff)

lemma hget_below: "bt_ok m \<Longrightarrow> \<forall>q \<in> hkeys m. k < q \<Longrightarrow> hget m k = None"
  by (force simp: map_of_eq_None_iff hkeys_def)

lemma hget_bput [hmap_simps]: "bt_ok m \<Longrightarrow> hget (bput k v m) = (hget m)(k \<mapsto> v)"
  by (induction k v m rule: bput.induct) (auto simp: bt_ok_def fun_eq_iff)

text \<open>Two ordered maps that look up the same are the same.\<close>

lemma bt_ok_eqI:
  assumes "bt_ok m" "bt_ok n" "hget m = hget n"
  shows "m = n"
proof -
  have "set m = set n"
    using assms by (intro map_of_inject_set [THEN iffD1])
      (simp_all add: bt_ok_hm hm_ok_def [symmetric])
  moreover have "inj_on fst (set m)" using assms(1)
    by (simp add: bt_ok_def strict_sorted_iff distinct_map)
  ultimately show ?thesis
    using assms by (intro map_sorted_distinct_set_unique [of fst]) (simp_all add: bt_ok_def strict_sorted_iff)
qed

end
