(* ===== verification/Terminal.thy ===== *)
theory Terminal
  imports Client_Session Units Rust_Tree
begin

text \<open>
  \<open>hawse/src/terminal.rs\<close>: what a client run by hand draws on a terminal. A \<open>string\<close> holds the UTF-8
  bytes of a Rust string. The width of a character is the \<open>unicode-width\<close> crate's and the escapes
  of a colour are clap's, so both are arguments, gathered in \<open>Term\<close>; nothing is assumed of them.
  The main result is that whatever the services, addresses and figures, the panel fits the
  terminal it is drawn on.
\<close>

section \<open>Styles\<close>

datatype Color = Rgb u8 u8 u8 | Ansi256 u8

record Term =
  tm_width :: "nat \<Rightarrow> nat option"
  tm_paint :: "Color \<Rightarrow> string \<times> string"

record Style =
  st_color :: bool
  st_unicode :: bool
  st_accent :: "Color option"
  st_links :: bool

definition ESC :: char where "ESC = CHR 0x1B"

definition contains :: "string \<Rightarrow> string \<Rightarrow> bool" where
  "contains part s \<longleftrightarrow> (\<exists>i \<in> set [0..<Suc (length s)]. strip_prefix part (drop i s) \<noteq> None)"

definition accent_for :: "string \<Rightarrow> string \<Rightarrow> Color option" where
  "accent_for colorterm term' =
     (if colorterm = ''truecolor'' \<or> colorterm = ''24bit'' then Some (Rgb 0xe8 0x63 0x2b)
      else if contains ''256color'' term' then Some (Ansi256 166)
      else None)"

definition lower :: "char \<Rightarrow> char" where
  "lower c = (if CHR ''A'' \<le> c \<and> c \<le> CHR ''Z'' then char_of (of_char c + 32 :: nat) else c)"

definition upper :: "char \<Rightarrow> char" where
  "upper c = (if CHR ''a'' \<le> c \<and> c \<le> CHR ''z'' then char_of (of_char c - 32 :: nat) else c)"

text \<open>\<open>vars\<close> is the environment; \<open>locale'\<close> is the first of the three that is set and not empty.\<close>

definition style_detect :: "(string \<Rightarrow> string option) \<Rightarrow> bool \<Rightarrow> Style" where
  "style_detect vars color =
     (let found = List.map_filter (\<lambda>n. case vars n of Some v \<Rightarrow> if v = [] then None else Some v | None \<Rightarrow> None)
            [''LC_ALL'', ''LC_CTYPE'', ''LANG''];
          locale' = map lower (case found of v # _ \<Rightarrow> v | [] \<Rightarrow> []);
          var = (\<lambda>n. case vars n of Some v \<Rightarrow> v | None \<Rightarrow> [])
      in \<lparr>st_color = color, st_unicode = contains ''utf-8'' locale' \<or> contains ''utf8'' locale',
          st_accent = (if color then accent_for (var ''COLORTERM'') (var ''TERM'') else None), st_links = True\<rparr>)"

definition pick :: "Style \<Rightarrow> nat \<Rightarrow> string \<Rightarrow> string" where
  "pick st unicode ascii = (if st_unicode st then utf8 unicode else ascii)"

definition dim :: "Style \<Rightarrow> string \<Rightarrow> string" where
  "dim st text = (if st_color st then ESC # ''[2m'' @ text @ ESC # ''[0m'' else text)"

definition red :: "Style \<Rightarrow> string \<Rightarrow> string" where
  "red st text = (if st_color st then ESC # ''[31m'' @ text @ ESC # ''[0m'' else text)"

definition link :: "Style \<Rightarrow> string option \<Rightarrow> string \<Rightarrow> string" where
  "link st url text =
     (case url of
        Some u \<Rightarrow> if st_links st then ESC # '']8;;'' @ u @ ESC # CHR 0x5C # text @ ESC # '']8;;'' @ [ESC, CHR 0x5C] else text
      | None \<Rightarrow> text)"

definition accent :: "Term \<Rightarrow> Style \<Rightarrow> string \<Rightarrow> string" where
  "accent tm st text =
     (case st_accent st of Some c \<Rightarrow> fst (tm_paint tm c) @ text @ snd (tm_paint tm c) | None \<Rightarrow> text)"

section \<open>Words and figures\<close>

definition service_url :: "string \<Rightarrow> Port \<Rightarrow> string \<Rightarrow> string option" where
  "service_url host port local =
     (let local_port = (case split_host_port local of Some (_, p) \<Rightarrow> p | None \<Rightarrow> None);
          h = (if contains '':'' host then ''['' @ host @ '']'' else host);
          to = (\<lambda>scheme. Some (scheme @ ''://'' @ h @ '':'' @ show_nat (unat (number port))))
      in if kind port = Udp then None
         else if local_port = Some 22 then None
         else if local_port = Some 443 \<or> local_port = Some 8443 then to ''https''
         else to ''http'')"

fun port_width :: "PortRequest \<Rightarrow> nat" where
  "port_width (Fixed port) = length (port_to_string port)"
| "port_width (Any Tcp) = length ''65535''"
| "port_width (Any Udp) = length ''65535/udp''"

definition millis_text :: "duration \<Rightarrow> string" where
  "millis_text d = (let ms = d div 1000000 in if ms = 0 then ''<1 ms'' else show_nat ms @ '' ms'')"

text \<open>The unit a count is said in: the first of K, M and G of which it is under 1000, or G.\<close>

definition whole :: "nat \<Rightarrow> nat \<Rightarrow> nat" where "whole n scale = (n * 2 + scale) div (scale * 2)"
definition tenths :: "nat \<Rightarrow> nat \<Rightarrow> nat" where "tenths n scale = (n * 20 + scale) div (scale * 2)"

fun unit_loop :: "nat \<Rightarrow> nat \<Rightarrow> string list \<Rightarrow> nat \<times> string" where
  "unit_loop n scale (u # v # us) =
     (if 1000 \<le> whole n scale then unit_loop n (scale * 1024) (v # us) else (scale, u))"
| "unit_loop n scale us = (scale, hd us)"

definition bytes_text :: "u64 \<Rightarrow> string" where
  "bytes_text count =
     (let n = unat count
      in if n < 1000 then show_nat n @ ''B''
         else case unit_loop n 1024 [''K'', ''M'', ''G''] of
           (scale, u) \<Rightarrow>
             let t = tenths n scale
             in if t < 100 then show_nat (t div 10) @ ''.'' @ show_nat (t mod 10) @ u
                else show_nat (whole n scale) @ u)"

definition rate :: "u64 \<Rightarrow> string" where
  "rate per_second = bytes_text per_second @ ''/s''"

definition span_text :: "duration \<Rightarrow> string" where
  "span_text elapsed =
     (let minutes = elapsed div 1000000000 div 60
      in if minutes = 0 then ''<1 min''
         else if minutes < 60 then show_nat minutes @ '' min''
         else if minutes < 1440 then show_nat (minutes div 60) @ '' h '' @ show_nat (minutes mod 60) @ '' m''
         else show_nat (minutes div 1440) @ '' d '' @ show_nat (minutes mod 1440 div 60) @ '' h'')"

text \<open>\<open>{text:n$}\<close> and \<open>{text:>n$}\<close>: a width counts characters.\<close>

definition pad_right :: "nat \<Rightarrow> string \<Rightarrow> string" where
  "pad_right n s = s @ replicate (n - length (chars s)) (CHR '' '')"

definition pad_left :: "nat \<Rightarrow> string \<Rightarrow> string" where
  "pad_left n s = replicate (n - length (chars s)) (CHR '' '') @ s"

section \<open>Columns\<close>

text \<open>
  \<open>plain\<close> reads a text's characters, skipping an escape: after \<open>ESC ]\<close> up to the next \<open>ESC\<close> and
  one character more, after \<open>ESC\<close> and any other character up to the next \<open>m\<close>.
\<close>

function plain_chars :: "nat list \<Rightarrow> nat list" where
  "plain_chars [] = []"
| "plain_chars (c # cs) =
     (if c \<noteq> 27 then c # plain_chars cs
      else case cs of
        [] \<Rightarrow> []
      | d # ds \<Rightarrow>
          if d = of_char CHR '']'' then plain_chars (drop 2 (dropWhile (\<lambda>x. x \<noteq> 27) ds))
          else plain_chars (drop 1 (dropWhile (\<lambda>x. x \<noteq> of_char CHR ''m'') ds)))"
  by pat_completeness auto
termination
proof (relation "measure length", goal_cases)
  case (3 c cs d ds)
  then show ?case using length_dropWhile_le [of "\<lambda>x. x \<noteq> 27" ds] by (simp del: length_dropWhile_le)
next
  case (4 c cs d ds)
  then show ?case using length_dropWhile_le [of "\<lambda>x. x \<noteq> of_char CHR ''m''" ds] by (simp del: length_dropWhile_le)
qed auto

definition plain :: "string \<Rightarrow> string" where
  "plain text = of_chars (plain_chars (chars text))"

definition char_columns :: "Term \<Rightarrow> nat \<Rightarrow> nat" where
  "char_columns tm c = (case tm_width tm c of Some w \<Rightarrow> w | None \<Rightarrow> 0)"

definition columns :: "Term \<Rightarrow> string \<Rightarrow> nat" where
  "columns tm text = sum_list (map (char_columns tm) (chars (plain text)))"

fun fit_loop :: "Term \<Rightarrow> nat \<Rightarrow> string \<Rightarrow> string list \<Rightarrow> string" where
  "fit_loop tm room line [] = line"
| "fit_loop tm room line (field # fs) =
     (if 0 < room \<and> line \<noteq> [] \<and> room < columns tm line + columns tm field then line
      else fit_loop tm room (line @ field) fs)"

fun cut :: "Term \<Rightarrow> nat \<Rightarrow> nat \<Rightarrow> nat list \<Rightarrow> nat list" where
  "cut tm room taken [] = []"
| "cut tm room taken (c # cs) =
     (let taken = taken + char_columns tm c in if taken \<le> room then c # cut tm room taken cs else [])"

definition fit :: "Term \<Rightarrow> string list \<Rightarrow> nat \<Rightarrow> string" where
  "fit tm fs room =
     (let line = fit_loop tm room [] fs
      in if 0 < room \<and> room < columns tm line then of_chars (cut tm room 0 (chars (plain line))) else line)"

definition trim_end :: "string \<Rightarrow> string" where
  "trim_end s = of_chars (rev (dropWhile is_whitespace (rev (chars s))))"

definition fit_rows :: "Term \<Rightarrow> string list list \<Rightarrow> nat \<Rightarrow> string list" where
  "fit_rows tm rows room =
     (let too_wide = 0 < room \<and> (\<exists>fs \<in> set rows. room < sum_list (map (columns tm) fs))
      in map (\<lambda>fs. trim_end (fit tm
           (if too_wide \<and> 1 < length fs then take 1 fs @ drop 2 fs else fs) room)) rows)"

section \<open>What fits\<close>

lemma chars_less: "c \<in> set (chars s) \<Longrightarrow> c < 2097152"
proof (induction s rule: chars.induct)
  case (2 a s)
  have m: "cont b < 64" for b by (simp add: cont_def)
  have "(n mod 32) * 64 + cont b < 2097152" "(n mod 16) * 4096 + cont b * 64 + cont d < 2097152"
    "(n mod 8) * 262144 + cont b * 4096 + cont d * 64 + cont e < 2097152" for n b d e
    using m [of b] m [of d] m [of e] mod_less_divisor [of 32 n] mod_less_divisor [of 16 n] mod_less_divisor [of 8 n]
    by linarith+
  with 2 show ?case by (auto simp: Let_def split: if_splits list.splits)
qed simp

lemma plain_chars_27: "27 \<notin> set (plain_chars cs)"
  by (induction cs rule: plain_chars.induct) (auto split: list.split)

lemma set_plain_chars: "c \<in> set (plain_chars cs) \<Longrightarrow> c \<in> set cs"
proof (induction cs rule: plain_chars.induct)
  case (2 a cs)
  show ?case
  proof (cases "a = 27 \<and> cs \<noteq> []")
    case True
    then obtain d ds where "cs = d # ds" by (cases cs) auto
    with 2 True show ?thesis
      by (auto split: if_splits dest!: in_set_dropD set_dropWhileD)
  qed (use 2 in \<open>auto split: if_splits\<close>)
qed simp

lemma plain_chars_same: "27 \<notin> set cs \<Longrightarrow> plain_chars cs = cs"
  by (induction cs) auto

lemma chars_of_bounded: "(\<And>c. c \<in> set cs \<Longrightarrow> c < 2097152) \<Longrightarrow> chars (of_chars cs) = cs"
  by (rule chars_of_chars) (simp add: list_all_iff)

lemma chars_plain [simp]: "chars (plain s) = plain_chars (chars s)"
  unfolding plain_def by (rule chars_of_bounded) (blast dest: set_plain_chars chars_less)

lemma columns_alt: "columns tm s = sum_list (map (char_columns tm) (plain_chars (chars s)))"
  by (simp add: columns_def)

lemma columns_Nil [simp]: "columns tm [] = 0"
  by (simp add: columns_alt)

lemma plain_chars_append: "\<exists>r. plain_chars (xs @ ys) = plain_chars xs @ r"
proof (induction xs rule: plain_chars.induct)
  case (2 c cs)
  have skip: "(\<exists>x \<in> set ds. \<not> P x) \<and> k \<le> length (dropWhile P ds) \<and>
        drop k (dropWhile P (ds @ ys)) = drop k (dropWhile P ds) @ ys \<or> drop k (dropWhile P ds) = []" for P :: "nat \<Rightarrow> bool" and ds k
  proof (cases "\<exists>x \<in> set ds. \<not> P x")
    case True
    then have "dropWhile P (ds @ ys) = dropWhile P ds @ ys" by (auto simp: dropWhile_append1)
    then show ?thesis using True by (cases "k \<le> length (dropWhile P ds)") auto
  next
    case False
    then have "dropWhile P ds = []" by simp
    then show ?thesis by (simp only: drop_Nil simp_thms)
  qed
  show ?case
  proof (cases "c = 27 \<and> cs \<noteq> []")
    case True
    then obtain d ds where cs: "cs = d # ds" by (cases cs) auto
    from skip [where ds = ds and k = 2 and P = "\<lambda>x. x \<noteq> 27"] skip [where ds = ds and k = 1 and P = "\<lambda>x. x \<noteq> of_char CHR ''m''"] 2 True show ?thesis
      unfolding cs by (cases "d = of_char CHR '']''") (force simp: cs)+
  next
    case False
    with 2 show ?thesis by (cases "c = 27") auto
  qed
qed simp

lemma columns_prefix: "chars s = chars r @ ys \<Longrightarrow> columns tm r \<le> columns tm s"
  using plain_chars_append [of "chars r" ys] by (auto simp: columns_alt)

lemma cut_room: "taken \<le> room \<Longrightarrow> sum_list (map (char_columns tm) (cut tm room taken cs)) \<le> room - taken"
  by (induction tm room taken cs rule: cut.induct) (auto simp: Let_def)

lemma set_cut: "c \<in> set (cut tm room taken cs) \<Longrightarrow> c \<in> set cs"
  by (induction tm room taken cs rule: cut.induct) (auto simp: Let_def split: if_splits)

text \<open>A line never takes more columns than it was given.\<close>

lemma columns_fit: "0 < room \<Longrightarrow> columns tm (fit tm fs room) \<le> room"
proof -
  assume room: "0 < room"
  define line where "line = fit_loop tm room [] fs"
  define cs where "cs = cut tm room 0 (chars (plain line))"
  have bound: "c < 2097152" "c \<noteq> 27" if "c \<in> set cs" for c
    using that set_cut [of c tm room 0] plain_chars_27 [of "chars line"] set_plain_chars [of c "chars line"] chars_less [of c line]
    by (auto simp: cs_def)
  then have "plain_chars (chars (of_chars cs)) = cs"
    by (subst chars_of_bounded) (auto intro: plain_chars_same)
  then have "columns tm (of_chars cs) \<le> room"
    using cut_room [of 0 room tm "chars (plain line)"] by (simp add: columns_alt cs_def)
  then show ?thesis
    using room by (simp add: fit_def Let_def cs_def line_def)
qed

lemma columns_trim_end: "columns tm (trim_end s) \<le> columns tm s"
proof -
  define cs where "cs = rev (dropWhile is_whitespace (rev (chars s)))"
  have split: "chars s = cs @ rev (takeWhile is_whitespace (rev (chars s)))"
    unfolding cs_def by (metis rev_append rev_rev_ident takeWhile_dropWhile_id)
  have "c < 2097152" if "c \<in> set cs" for c
    by (rule chars_less [of c s], subst split) (simp add: that)
  then have "chars (trim_end s) = cs"
    unfolding trim_end_def cs_def [symmetric] by (rule chars_of_bounded)
  then show ?thesis using split columns_prefix by metis
qed

lemma columns_fit_rows: "0 < room \<Longrightarrow> l \<in> set (fit_rows tm rows room) \<Longrightarrow> columns tm l \<le> room"
  by (auto simp: fit_rows_def Let_def intro!: order.trans [OF columns_trim_end] columns_fit)

section \<open>The panel\<close>

datatype Link =
    LkConnecting
  | LkUp ClientTransportKind duration instant
  | LkDown instant instant
  | LkStopped

datatype Row = RowBound Port u64 u64 u64 | RowRefused BindFailure

fun via_to_string :: "ClientTransportKind \<Rightarrow> string" where
  "via_to_string ViaQuic = ''quic''"
| "via_to_string ViaTcp = ''tcp''"

definition dot :: "Style \<Rightarrow> string" where
  "dot st = dim st (pick st 183 ''|'')"

definition dotted :: "Style \<Rightarrow> string \<Rightarrow> string" where
  "dotted st text = ''  '' @ dot st @ ''  '' @ text"

definition header :: "Link \<Rightarrow> 'net ClientConfig \<Rightarrow> Style \<Rightarrow> instant \<Rightarrow> string list" where
  "header lk cfg st now =
     [''  hawse client'', dotted st (cc_server cfg)] @
     (case lk of
        LkUp transport round_trip since \<Rightarrow>
          [dotted st (map upper (via_to_string transport)), dotted st (millis_text round_trip),
           dotted st (''up '' @ span_text (now - since))]
      | LkDown since retry_at \<Rightarrow>
          if now < retry_at
          then let left = retry_at - now; secs = left div 1000000000 + (if 0 < left mod 1000000000 then 1 else 0)
               in [dotted st (''down '' @ span_text (now - since)), dotted st (''retrying in '' @ show_nat secs @ '' s'')]
          else [dotted st ''connecting'']
      | LkConnecting \<Rightarrow> [dotted st ''connecting'']
      | LkStopped \<Rightarrow> [dotted st ''stopped''])"

record Widths =
  w_names :: nat
  w_public :: nat
  w_locals :: nat

definition spaces :: "nat \<Rightarrow> string" where
  "spaces n = replicate n (CHR '' '')"

definition service_fields :: "string \<Rightarrow> string \<Rightarrow> string \<Rightarrow> Port \<Rightarrow> string \<Rightarrow> Widths \<Rightarrow> Style \<Rightarrow> string list" where
  "service_fields mark service host port local widths st =
     (let pad = w_locals widths - length local; address = host @ '':'' @ port_to_string port;
          fill = w_public widths - length address
      in [''  '' @ mark @ '' '' @ pad_right (w_names widths) service @ ''  '' @
            link st (service_url host port local) address @ spaces fill,
          dim st (''  '' @ pick st 8592 ''<-'' @ ''  '' @ local) @ spaces pad])"

definition figures :: "Term \<Rightarrow> u64 \<Rightarrow> u64 \<Rightarrow> u64 \<Rightarrow> nat \<Rightarrow> Style \<Rightarrow> string list" where
  "figures tm opened down up counts st =
     (let moved = 0 < down \<or> 0 < up
      in if opened = 0 \<and> \<not> moved then [''  '' @ dim st ''idle'']
         else [''  '' @ accent tm st (pad_left counts (show_nat (unat opened)))] @
              (if moved
               then [''  '' @ accent tm st (pick st 8595 ''v'' @ '' '' @ pad_left 6 (rate down)),
                     ''  '' @ accent tm st (pick st 8593 ''^'' @ '' '' @ pad_left 6 (rate up))]
               else []))"

definition fold_lines :: "Term \<Rightarrow> string list \<Rightarrow> nat \<Rightarrow> Style \<Rightarrow> nat \<Rightarrow> string list" where
  "fold_lines tm ls height st room =
     (let ls = (if 0 < height \<and> height < length ls \<and> hd ls = [] then tl ls else ls)
      in if height = 1 then take 1 ls
         else if 0 < height \<and> height < length ls
         then let kept = height - 1; left = length (filter (\<lambda>l. l \<noteq> []) (drop kept ls))
              in take kept ls @ [fit tm [''  '' @ pick st 8230 ''...'' @ '' '' @ show_nat left @ '' more''] room]
         else ls)"

definition maxs :: "nat \<Rightarrow> nat list \<Rightarrow> nat" where
  "maxs otherwise xs = (if xs = [] then otherwise else Max (set xs))"

definition panel_row :: "Term \<Rightarrow> Link \<Rightarrow> string \<Rightarrow> Widths \<Rightarrow> nat \<Rightarrow> Style \<Rightarrow> string \<times> 'net Expose \<Rightarrow> Row \<Rightarrow> string list" where
  "panel_row tm lk host widths counts st = (\<lambda>(service, x) row.
     (let no = red st (pick st 10007 ''x''); again = accent tm st (pick st 8635 ''~'')
      in case row of
           RowRefused why \<Rightarrow> [''  '' @ no @ '' '' @ pad_right (w_names widths) service @ ''  '' @ bind_failure_text why]
         | RowBound port opened down up \<Rightarrow>
             let moved = 0 < down \<or> 0 < up;
                 mark = (case lk of
                     LkUp _ _ _ \<Rightarrow> if moved then accent tm st (pick st 9679 ''*'') else accent tm st (pick st 9675 ''o'')
                   | LkStopped \<Rightarrow> no
                   | _ \<Rightarrow> again)
             in service_fields mark service host port (x_local x) widths st @
                (case lk of LkUp _ _ _ \<Rightarrow> figures tm opened down up counts st | _ \<Rightarrow> [])))"

text \<open>The host the public addresses are named with is the server's; a text without one gives none.\<close>

definition server_host :: "string \<Rightarrow> string" where
  "server_host server = (case split_host_port server of Some (host, _) \<Rightarrow> host | None \<Rightarrow> [])"

definition frame :: "Term \<Rightarrow> Link \<Rightarrow> (string, Row) hmap \<Rightarrow> 'net ClientConfig \<Rightarrow> Style \<Rightarrow> instant \<Rightarrow> nat \<times> nat \<Rightarrow> string list" where
  "frame tm lk rows cfg st now = (\<lambda>(width, height).
     let room = width - 1; host = server_host (cc_server cfg);
         widths = \<lparr>w_names = maxs 0 (map (length \<circ> fst) (expose cfg)),
                   w_public = length host + 1 + maxs 0 (map (\<lambda>(_, x). port_width (x_port x)) (expose cfg)),
                   w_locals = maxs 0 (map (\<lambda>(_, x). length (x_local x)) (expose cfg))\<rparr>;
         counts = maxs 1 (List.map_filter (\<lambda>(_, row). case row of RowBound _ opened _ _ \<Rightarrow> Some (length (show_nat (unat opened)))
                                                   | RowRefused _ \<Rightarrow> None) rows);
         body = fit_rows tm (List.map_filter (\<lambda>(service, x).
                  map_option (panel_row tm lk host widths counts st (service, x)) (hget rows service)) (expose cfg)) room;
         ls = [[], fit tm (header lk cfg st now) room] @ (if body = [] then [] else [] # body)
     in fold_lines tm ls height st room)"

section \<open>Lines above the panel\<close>

fun reason :: "DisconnectCause \<Rightarrow> string" where
  "reason (DcShutdown why) = ''server ended the session: '' @ why"
| "reason DcUnresponsive = ''server stopped answering''"
| "reason DcDenied = ''this machine's key is not authorized on the server''"
| "reason (DcTransport why) = why"
| "reason (DcConfig why) = why"

definition NL :: string where "NL = [CHR 0x0A]"

definition QUOTE :: string where "QUOTE = [CHR 0x22]"

definition event_line :: "(bytes \<Rightarrow> string) \<Rightarrow> Term \<Rightarrow> ClientEvent \<Rightarrow> Style \<Rightarrow> string option" where
  "event_line encode64 tm ev st =
     (let no = red st (pick st 10007 ''x''); again = accent tm st (pick st 8635 ''~'')
      in case ev of
        CeDenied key \<Rightarrow>
          Some (''  '' @ no @ '' not authorized. on the server, add to server.toml:'' @ NL @ NL @
            ''      [clients.NAME]'' @ NL @ ''      key = '' @ QUOTE @ key_to_string encode64 key @ QUOTE @ NL @ NL @
            ''    then wait for the next retry'')
      | CeDisconnected cause (Some _) \<Rightarrow> Some (''  '' @ again @ '' '' @ reason cause)
      | CeDisconnected cause None \<Rightarrow> Some (''  '' @ no @ '' '' @ reason cause @ ''; the config cannot be retried'')
      | _ \<Rightarrow> None)"

definition repeats :: "PublicKey option \<Rightarrow> ClientEvent \<Rightarrow> PublicKey option \<times> bool" where
  "repeats shown ev =
     (case ev of
        CeDenied key \<Rightarrow> (Some key, shown = Some key)
      | CeConnected _ _ _ _ _ \<Rightarrow> (None, False)
      | _ \<Rightarrow> (shown, False))"

definition note_line :: "Term \<Rightarrow> string \<Rightarrow> Style \<Rightarrow> string" where
  "note_line tm text st = ''  '' @ accent tm st (pick st 8635 ''~'') @ '' '' @ text"

definition summary_row :: "Term \<Rightarrow> Style \<Rightarrow> nat \<Rightarrow> nat \<Rightarrow> string \<times> Counts \<Rightarrow> string" where
  "summary_row tm st names visitors = (\<lambda>(service, c).
     let figure = accent tm st;
         datagrams = (if 0 < n_datagrams_down c + n_datagrams_up c + n_dropped c
           then ''  '' @ figure (show_nat (unat (n_datagrams_down c))) @ '' datagrams in, '' @
                figure (show_nat (unat (n_datagrams_up c))) @ '' out, '' @ figure (show_nat (unat (n_dropped c))) @ '' dropped''
           else []);
         noun = (if n_visitors c = 1 then ''visitor '' else ''visitors'')
     in ''    '' @ pad_right names service @ ''  '' @ figure (pad_left visitors (show_nat (unat (n_visitors c)))) @ '' '' @ noun @
        ''  down '' @ figure (pad_left 4 (bytes_text (n_down c))) @ ''  up '' @ figure (pad_left 4 (bytes_text (n_up c))) @ datagrams)"

definition join_lines :: "string list \<Rightarrow> string" where
  "join_lines ls = concat (case ls of [] \<Rightarrow> [] | l # more' \<Rightarrow> l # map (\<lambda>x. NL @ x) more')"

definition summary :: "Term \<Rightarrow> duration \<Rightarrow> u64 \<Rightarrow> (string, Counts) hmap \<Rightarrow> Style \<Rightarrow> string" where
  "summary tm elapsed reconnects carried st =
     (let again = (if reconnects = 0 then [] else if reconnects = 1 then '', reconnected once''
                   else '', reconnected '' @ show_nat (unat reconnects) @ '' times'');
          names = maxs 0 (map (length \<circ> fst) carried);
          visitors = maxs 0 (map (\<lambda>(_, c). length (show_nat (unat (n_visitors c)))) carried)
      in join_lines ((NL @ ''  stopped after '' @ span_text elapsed @ again) # map (summary_row tm st names visitors) carried))"

section \<open>The panel fits\<close>

lemma fold_lines_length: "0 < height \<Longrightarrow> length (fold_lines tm ls height st room) \<le> height"
  by (auto simp: fold_lines_def Let_def)

lemma fold_lines_columns:
  assumes "0 < room" "\<And>l. l \<in> set ls \<Longrightarrow> columns tm l \<le> room" "l \<in> set (fold_lines tm ls height st room)"
  shows "columns tm l \<le> room"
proof -
  have tl: "k \<in> set (tl ls) \<Longrightarrow> columns tm k \<le> room" for k
    using assms(2) by (cases ls) auto
  show ?thesis
    using assms(2,3) tl columns_fit [OF assms(1)]
    by (auto simp: fold_lines_def Let_def split: if_splits dest!: in_set_takeD)
qed

text \<open>Without a height, or with enough of it, nothing is left out.\<close>

lemma fold_lines_all: "height = 0 \<or> length ls \<le> height \<Longrightarrow> 1 \<noteq> height \<Longrightarrow> fold_lines tm ls height st room = ls"
  by (auto simp: fold_lines_def Let_def)

lemma panel_lines_columns:
  assumes "0 < room" "l \<in> set ([[], fit tm hs room] @ (if fit_rows tm rs room = [] then [] else [] # fit_rows tm rs room))"
  shows "columns tm l \<le> room"
  using assms(2) columns_fit [OF assms(1)] columns_fit_rows [OF assms(1)] by (auto split: if_splits)

lemma frame_columns:
  assumes "1 < width" "l \<in> set (frame tm lk rows cfg st now (width, height))"
  shows "columns tm l \<le> width - 1"
proof -
  have room: "0 < width - 1" using assms(1) by simp
  show ?thesis
    by (rule fold_lines_columns [OF room panel_lines_columns [OF room] assms(2) [unfolded frame_def Let_def prod.case]])
qed

lemma frame_length: "0 < height \<Longrightarrow> length (frame tm lk rows cfg st now (width, height)) \<le> height"
  by (simp add: frame_def Let_def fold_lines_length)

text \<open>A count of bytes takes at most four columns up to 999G.\<close>

lemma length_show_nat: "n < 10 ^ k \<Longrightarrow> 0 < k \<Longrightarrow> length (show_nat n) \<le> k"
proof (induction n arbitrary: k rule: show_nat.induct)
  case (1 n)
  show ?case
  proof (cases "n < 10")
    case False
    with 1(2,3) obtain j where k: "k = Suc j" "0 < j"
      by (cases k; cases "k = 1") auto
    with 1 False have "length (show_nat (n div 10)) \<le> j" by (simp add: div_less_iff_less_mult)
    with False k show ?thesis by (subst show_nat.simps) simp
  qed (use 1(3) in \<open>subst show_nat.simps, simp\<close>)
qed

lemma bytes_text_width: "unat n < 999 * 2 ^ 30 \<Longrightarrow> length (bytes_text n) \<le> 4"
proof -
  assume n: "unat n < 999 * 2 ^ 30"
  obtain scale u where loop: "unit_loop (unat n) 1024 [''K'', ''M'', ''G''] = (scale, u)" by force
  then have u: "length u = 1" "whole (unat n) scale < 1000"
    using n by (auto simp: whole_def split: if_splits)
  have t: "tenths (unat n) scale div 10 < 10 ^ 1" if "tenths (unat n) scale < 100"
    using that by simp
  show ?thesis
    using n u t length_show_nat [of "unat n" 3] length_show_nat [of "whole (unat n) scale" 3]
      length_show_nat [of "tenths (unat n) scale div 10" 1] length_show_nat [of "tenths (unat n) scale mod 10" 1]
    by (auto simp: bytes_text_def Let_def loop simp del: unit_loop.simps)
qed

end
