(* ===== verification/Host_Files.thy ===== *)
theory Host_Files
  imports Net_Text Terminal "HOL-Library.Sublist"
begin

text \<open>
  What the command line uses of the host through the standard library: \<open>std::path\<close>, a few more of
  \<open>str\<close>'s functions, \<open>std::fs\<close> on a tree of files, and programs it runs. A path is its components,
  which is what \<open>Path\<close> compares, joins and shortens. An operation of the file system may fail as the
  host decides (an argument); a program may do anything to the tree, and what a property relies on is a
  hypothesis of it. Code that can return early is a function from the world to an error or a value and
  the world it leaves, composed with \<open>bind\<close>.
\<close>

named_theorems io_simps \<open>evaluation of the world's operations\<close>

section \<open>Text\<close>

text \<open>\<open>str::lines\<close>: what ends in a newline, a carriage return before it left out.\<close>

definition strip_cr :: "string \<Rightarrow> string" where
  "strip_cr l = (if l \<noteq> [] \<and> last l = CHR 0x0D then butlast l else l)"

fun lines_loop :: "string \<Rightarrow> string \<Rightarrow> string list" where
  "lines_loop acc [] = (if acc = [] then [] else [rev acc])"
| "lines_loop acc (c # cs) = (if c = CHR 0x0A then strip_cr (rev acc) # lines_loop [] cs else lines_loop (c # acc) cs)"

definition lines :: "string \<Rightarrow> string list" where "lines s = lines_loop [] s"

text \<open>\<open>str::split\<close> at a character.\<close>

fun splits_loop :: "char \<Rightarrow> string \<Rightarrow> string \<Rightarrow> string list" where
  "splits_loop c acc [] = [rev acc]"
| "splits_loop c acc (x # xs) = (if x = c then rev acc # splits_loop c [] xs else splits_loop c (x # acc) xs)"

definition splits_at :: "char \<Rightarrow> string \<Rightarrow> string list" where "splits_at c s = splits_loop c [] s"

text \<open>\<open>str::split\<close> at a text: the pieces between its occurrences, found from the left.\<close>

fun split_text_loop :: "string \<Rightarrow> string \<Rightarrow> nat \<Rightarrow> string \<Rightarrow> string list" where
  "split_text_loop p acc skip [] = [rev acc]"
| "split_text_loop p acc (Suc n) (c # cs) = split_text_loop p acc n cs"
| "split_text_loop p acc 0 (c # cs) =
     (if strip_prefix p (c # cs) \<noteq> None then rev acc # split_text_loop p [] (length p - 1) cs
      else split_text_loop p (c # acc) 0 cs)"

definition split_text :: "string \<Rightarrow> string \<Rightarrow> string list" where "split_text p s = split_text_loop p [] 0 s"

definition strip_suffix :: "string \<Rightarrow> string \<Rightarrow> string option" where
  "strip_suffix p s = map_option rev (strip_prefix (rev p) (rev s))"

fun find_map :: "('a \<Rightarrow> 'b option) \<Rightarrow> 'a list \<Rightarrow> 'b option" where
  "find_map f [] = None"
| "find_map f (x # xs) = (case f x of Some y \<Rightarrow> Some y | None \<Rightarrow> find_map f xs)"

text \<open>\<open>str::replace\<close> of a character.\<close>

definition replace_char :: "char \<Rightarrow> string \<Rightarrow> string \<Rightarrow> string" where
  "replace_char c t s = concat (map (\<lambda>x. if x = c then t else [x]) s)"

text \<open>
  \<open>String::from_utf8_lossy\<close>: a sequence that is not UTF-8 is replaced, up to the first byte that
  cannot continue it, by one U+FFFD.
\<close>

definition continues :: "u8 \<Rightarrow> bool" where "continues b \<longleftrightarrow> 0x80 \<le> b \<and> b \<le> 0xBF"

definition second_ok :: "u8 \<Rightarrow> u8 \<Rightarrow> bool" where
  "second_ok a b \<longleftrightarrow>
     (if a = 0xE0 then 0xA0 \<le> b \<and> b \<le> 0xBF
      else if a = 0xED then 0x80 \<le> b \<and> b \<le> 0x9F
      else if a = 0xF0 then 0x90 \<le> b \<and> b \<le> 0xBF
      else if a = 0xF4 then 0x80 \<le> b \<and> b \<le> 0x8F
      else continues b)"

definition needs :: "u8 \<Rightarrow> nat" where
  "needs a = (if 0xC2 \<le> a \<and> a \<le> 0xDF then 1 else if 0xE0 \<le> a \<and> a \<le> 0xEF then 2 else if 0xF0 \<le> a \<and> a \<le> 0xF4 then 3 else 0)"

definition continued :: "u8 \<Rightarrow> bytes \<Rightarrow> nat" where
  "continued a bs =
     (case bs of
        [] \<Rightarrow> 0
      | b # rest \<Rightarrow> if 0 < needs a \<and> second_ok a b then Suc (length (takeWhile continues (take (needs a - 1) rest))) else 0)"

definition byte_char :: "u8 \<Rightarrow> char" where "byte_char b = char_of (unat b)"

fun from_utf8_lossy :: "bytes \<Rightarrow> string" where
  "from_utf8_lossy [] = []"
| "from_utf8_lossy (a # bs) =
     (if a < 0x80 then byte_char a # from_utf8_lossy bs
      else let n = continued a bs
           in (if 0 < needs a \<and> n = needs a then map byte_char (a # take n bs) else utf8 0xFFFD) @ from_utf8_lossy (drop n bs))"

text \<open>\<open>str::from_utf8\<close>: whether the bytes are UTF-8 as they are.\<close>

fun valid_utf8 :: "bytes \<Rightarrow> bool" where
  "valid_utf8 [] \<longleftrightarrow> True"
| "valid_utf8 (a # bs) \<longleftrightarrow>
     (if a < 0x80 then valid_utf8 bs else 0 < needs a \<and> continued a bs = needs a \<and> valid_utf8 (drop (needs a) bs))"

definition text_of_bytes :: "bytes \<Rightarrow> string" where "text_of_bytes = map byte_char"

definition bytes_of_text :: "string \<Rightarrow> bytes" where "bytes_of_text = map (\<lambda>c. word_of_nat (of_char c))"

lemma text_of_bytes_of_text [simp]: "text_of_bytes (bytes_of_text s) = s"
proof -
  have "char_of (unat (word_of_nat (of_char c) :: u8)) = c" for c :: char
    by (simp add: unat_of_nat char_of_mod_256 [of "of_char c" for c, simplified])
  then show ?thesis by (simp add: text_of_bytes_def bytes_of_text_def byte_char_def o_def)
qed

lemma strip_suffix_Some [text_simps]: "strip_suffix p s = Some r \<longleftrightarrow> s = r @ p"
  by (auto simp: strip_suffix_def text_simps) (metis rev_append rev_rev_ident)

lemma find_map_SomeD: "find_map f xs = Some y \<Longrightarrow> \<exists>x. x \<in> set xs \<and> f x = Some y"
  by (induction xs) (auto split: option.splits)

text \<open>Lines with no newline and no carriage return at their end, each ended by one, read back.\<close>

lemma lines_loop_line: "CHR 0x0A \<notin> set l \<Longrightarrow> lines_loop acc (l @ CHR 0x0A # s) = strip_cr (rev acc @ l) # lines_loop [] s"
  by (induction l arbitrary: acc) auto

lemma lines_line: "CHR 0x0A \<notin> set l \<Longrightarrow> lines (l @ CHR 0x0A # s) = strip_cr l # lines s"
  by (simp add: lines_def lines_loop_line)

lemma lines_Nil [simp]: "lines [] = []" by (simp add: lines_def)

section \<open>Paths\<close>

datatype Component = RootDir | CurDir | ParentDir | Normal string

type_synonym path = "Component list"

definition component :: "string \<Rightarrow> Component" where
  "component s = (if s = ''.'' then CurDir else if s = ''..'' then ParentDir else Normal s)"

text \<open>\<open>Path::components\<close>: empty pieces are left out, and so is every \<open>.\<close> but a first one.\<close>

definition components :: "string \<Rightarrow> path" where
  "components s =
     (let pieces = map component (filter (\<lambda>p. p \<noteq> []) (splits_at CHR ''/'' s))
      in if s \<noteq> [] \<and> hd s = CHR ''/'' then RootDir # filter (\<lambda>c. c \<noteq> CurDir) pieces
         else case pieces of [] \<Rightarrow> [] | p # ps \<Rightarrow> p # filter (\<lambda>c. c \<noteq> CurDir) ps)"

fun component_text :: "Component \<Rightarrow> string" where
  "component_text RootDir = []"
| "component_text CurDir = ''.''"
| "component_text ParentDir = ''..''"
| "component_text (Normal s) = s"

definition path_text :: "path \<Rightarrow> string" where
  "path_text p = (if p = [RootDir] then ''/'' else join_with ''/'' (map component_text p))"

definition is_absolute :: "path \<Rightarrow> bool" where "is_absolute p \<longleftrightarrow> p \<noteq> [] \<and> hd p = RootDir"

definition join_path :: "path \<Rightarrow> path \<Rightarrow> path" where
  "join_path p q = (if is_absolute q then q else if p = [] then q else p @ filter (\<lambda>c. c \<noteq> CurDir) q)"

definition parent :: "path \<Rightarrow> path option" where
  "parent p = (if p = [] \<or> last p = RootDir then None else Some (butlast p))"

definition file_name :: "path \<Rightarrow> string option" where
  "file_name p = (if p = [] then None else case last p of Normal s \<Rightarrow> Some s | _ \<Rightarrow> None)"

definition with_file_name :: "path \<Rightarrow> string \<Rightarrow> path" where
  "with_file_name p name = (case file_name p of Some _ \<Rightarrow> butlast p @ [Normal name] | None \<Rightarrow> join_path p [Normal name])"

definition starts_with :: "path \<Rightarrow> path \<Rightarrow> bool" where "starts_with p q \<longleftrightarrow> prefix q p"

definition ends_with :: "path \<Rightarrow> path \<Rightarrow> bool" where "ends_with p q \<longleftrightarrow> suffix q p"

text \<open>\<open>Path::ancestors\<close>: the path, then parent after parent; the last is the root, or the empty path.\<close>

definition ancestors :: "path \<Rightarrow> path list" where
  "ancestors p = map (\<lambda>n. take n p) (rev [if is_absolute p then 1 else 0..<Suc (length p)])"

lemma ancestors_snoc: "is_absolute (q @ [c]) = is_absolute q \<Longrightarrow> ancestors (q @ [c]) = (q @ [c]) # ancestors q"
proof -
  assume same: "is_absolute (q @ [c]) = is_absolute q"
  define k :: nat where "k = (if is_absolute q then 1 else 0)"
  have "k \<le> length q" by (cases q) (simp_all add: k_def is_absolute_def)
  then have "rev [k..<Suc (length (q @ [c]))] = Suc (length q) # rev [k..<Suc (length q)]" by simp
  moreover have "map (\<lambda>n. take n (q @ [c])) (rev [k..<Suc (length q)]) = map (\<lambda>n. take n q) (rev [k..<Suc (length q)])"
    by (rule map_cong) auto
  ultimately show ?thesis unfolding ancestors_def same k_def [symmetric] by simp
qed

lemma splits_loop_once: "splits_loop c acc s = (case split_once c s of None \<Rightarrow> [rev acc @ s] | Some (a, b) \<Rightarrow> (rev acc @ a) # splits_at c b)"
  by (induction c acc s rule: splits_loop.induct) (auto simp: splits_at_def split: option.splits)

lemma splits_at_once: "splits_at c s = (case split_once c s of None \<Rightarrow> [s] | Some (a, b) \<Rightarrow> a # splits_at c b)"
  by (simp add: splits_at_def splits_loop_once [of c "[]"] split: option.splits)

section \<open>The world\<close>

record Meta =
  m_mode :: u32
  m_uid :: u32
  m_gid :: u32

datatype Node = File bytes Meta | Directory Meta | Symlink path

type_synonym files = "path \<Rightarrow> Node option"

datatype IoError = NotFound | PermissionDenied | AlreadyExists | OtherError string

datatype Report = Bail string | Wrapped string Report | Io IoError

text \<open>A process that ended: whether it succeeded, how its status reads, and what it printed.\<close>

record Output =
  o_success :: bool
  o_status :: string
  o_stdout :: bytes

record World =
  w_files :: files
  w_ran :: nat
  w_out :: "string list"

datatype Op =
    CreateDir path | ReadFile path | Metadata path | CopyFile path path | SetMode path | Chown path
  | RenameFile path path | RemoveAll path | WriteFile path | RemoveFile path | CreateNew path

text \<open>
  The host: which operations it refuses, what the program that is run as the so manieth one does with
  its arguments, and who runs the command. \<open>h_canonicalize\<close> is \<open>std::fs::canonicalize\<close>, and \<open>h_clock\<close> the
  time once so many programs have run.
\<close>

record Host =
  h_fails :: "Op \<Rightarrow> files \<Rightarrow> IoError option"
  h_exec :: "nat \<Rightarrow> string \<Rightarrow> string list \<Rightarrow> files \<Rightarrow> (IoError + Output) \<times> files"
  h_clock :: "nat \<Rightarrow> instant"
  h_cwd :: path
  h_canonicalize :: "files \<Rightarrow> path \<Rightarrow> IoError + path"
  h_env :: "string \<Rightarrow> string option"
  h_uid :: u32
  h_gid :: u32
  h_umask :: u32

definition is_root :: "Host \<Rightarrow> bool" where "is_root h \<longleftrightarrow> h_uid h = 0"

type_synonym ('e, 'a) io = "World \<Rightarrow> ('e + 'a) \<times> World"

definition ok :: "'a \<Rightarrow> ('e, 'a) io" where "ok x w = (Inr x, w)"

definition fail :: "'e \<Rightarrow> ('e, 'a) io" where "fail e w = (Inl e, w)"

abbreviation bail :: "string \<Rightarrow> (Report, 'a) io" where "bail text \<equiv> fail (Bail text)"

definition bind :: "('e, 'a) io \<Rightarrow> ('a \<Rightarrow> ('e, 'b) io) \<Rightarrow> ('e, 'b) io" where
  "bind m f w = (case m w of (Inl e, w') \<Rightarrow> (Inl e, w') | (Inr x, w') \<Rightarrow> f x w')"

definition map_err :: "('e \<Rightarrow> 'f) \<Rightarrow> ('e, 'a) io \<Rightarrow> ('f, 'a) io" where
  "map_err g m w = (case m w of (Inl e, w') \<Rightarrow> (Inl (g e), w') | (Inr x, w') \<Rightarrow> (Inr x, w'))"

abbreviation wrap_err :: "string \<Rightarrow> (IoError, 'a) io \<Rightarrow> (Report, 'a) io" where
  "wrap_err text \<equiv> map_err (\<lambda>e. Wrapped text (Io e))"

text \<open>What an operation came to, as a value to be matched on.\<close>

definition attempt :: "('e, 'a) io \<Rightarrow> ('f, 'e + 'a) io" where
  "attempt m w = (case m w of (r, w') \<Rightarrow> (Inr r, w'))"

definition println :: "string \<Rightarrow> ('e, unit) io" where
  "println line w = (Inr (), w\<lparr>w_out := w_out w @ [line]\<rparr>)"

fun for_each :: "('a \<Rightarrow> ('e, unit) io) \<Rightarrow> 'a list \<Rightarrow> ('e, unit) io" where
  "for_each f [] = ok ()"
| "for_each f (x # xs) = bind (f x) (\<lambda>_. for_each f xs)"

text \<open>A collected iterator of results: it stops at the first error.\<close>

fun collect :: "('a \<Rightarrow> ('e, 'b) io) \<Rightarrow> 'a list \<Rightarrow> ('e, 'b list) io" where
  "collect f [] = ok []"
| "collect f (x # xs) = bind (f x) (\<lambda>y. bind (collect f xs) (\<lambda>ys. ok (y # ys)))"

section \<open>\<open>std::fs\<close>\<close>

text \<open>Links at the end of a path are followed, up to the forty Linux follows.\<close>

primrec follow :: "nat \<Rightarrow> files \<Rightarrow> path \<Rightarrow> path option" where
  "follow 0 fs p = None"
| "follow (Suc n) fs p =
     (case fs p of None \<Rightarrow> None | Some (Symlink q) \<Rightarrow> follow n fs (join_path (butlast p) q) | Some _ \<Rightarrow> Some p)"

definition MAXSYMLINKS :: nat where "MAXSYMLINKS = 40"

definition real_path :: "files \<Rightarrow> path \<Rightarrow> path option" where "real_path fs p = follow (Suc MAXSYMLINKS) fs p"

definition stat :: "files \<Rightarrow> path \<Rightarrow> Node option" where
  "stat fs p = (case real_path fs p of Some q \<Rightarrow> fs q | None \<Rightarrow> None)"

fun node_meta :: "Node \<Rightarrow> Meta" where
  "node_meta (File _ m) = m"
| "node_meta (Directory m) = m"
| "node_meta (Symlink _) = \<lparr>m_mode = 0, m_uid = 0, m_gid = 0\<rparr>"

fun set_meta :: "Meta \<Rightarrow> Node \<Rightarrow> Node" where
  "set_meta m (File b _) = File b m"
| "set_meta m (Directory _) = Directory m"
| "set_meta m (Symlink p) = Symlink p"

definition is_file :: "files \<Rightarrow> path \<Rightarrow> bool" where
  "is_file fs p = (case stat fs p of Some (File _ _) \<Rightarrow> True | _ \<Rightarrow> False)"

definition is_dir :: "files \<Rightarrow> path \<Rightarrow> bool" where
  "is_dir fs p = (case stat fs p of Some (Directory _) \<Rightarrow> True | _ \<Rightarrow> False)"

definition exists_at :: "files \<Rightarrow> path \<Rightarrow> bool" where "exists_at fs p \<longleftrightarrow> stat fs p \<noteq> None"

definition allowed :: "Host \<Rightarrow> Op \<Rightarrow> (IoError, 'a) io \<Rightarrow> (IoError, 'a) io" where
  "allowed h op m w = (case h_fails h op (w_files w) of Some e \<Rightarrow> (Inl e, w) | None \<Rightarrow> m w)"

definition put_files :: "files \<Rightarrow> (IoError, unit) io" where "put_files fs w = (Inr (), w\<lparr>w_files := fs\<rparr>)"

definition get_files :: "('e, files) io" where "get_files w = (Inr (w_files w), w)"

definition fresh_meta :: "Host \<Rightarrow> u32 \<Rightarrow> Meta" where
  "fresh_meta h mode = \<lparr>m_mode = and mode (not (h_umask h)), m_uid = h_uid h, m_gid = h_gid h\<rparr>"

definition fs_create_dir :: "Host \<Rightarrow> path \<Rightarrow> (IoError, unit) io" where
  "fs_create_dir h p = allowed h (CreateDir p) (bind get_files (\<lambda>fs.
     if fs p = None then put_files (fs(p \<mapsto> Directory (fresh_meta h 0x1FF))) else fail AlreadyExists))"

definition fs_read :: "Host \<Rightarrow> path \<Rightarrow> (IoError, bytes) io" where
  "fs_read h p = allowed h (ReadFile p) (bind get_files (\<lambda>fs.
     case stat fs p of
       Some (File b _) \<Rightarrow> ok b
     | Some _ \<Rightarrow> fail (OtherError ''is a directory'')
     | None \<Rightarrow> fail NotFound))"

definition fs_metadata :: "Host \<Rightarrow> path \<Rightarrow> (IoError, Meta) io" where
  "fs_metadata h p = allowed h (Metadata p) (bind get_files (\<lambda>fs.
     case stat fs p of Some n \<Rightarrow> ok (node_meta n) | None \<Rightarrow> fail NotFound))"

text \<open>Writing creates the file, or writes through a link to what is there and keeps its metadata.\<close>

definition written :: "Host \<Rightarrow> u32 \<Rightarrow> path \<Rightarrow> bytes \<Rightarrow> files \<Rightarrow> IoError + path \<times> files" where
  "written h mode p b fs =
     (case fs p of
        None \<Rightarrow> Inr (p, fs(p \<mapsto> File b (fresh_meta h mode)))
      | Some _ \<Rightarrow>
          (case real_path fs p of
             None \<Rightarrow> Inl NotFound
           | Some q \<Rightarrow>
               (case fs q of
                  Some (File _ m) \<Rightarrow> Inr (q, fs(q \<mapsto> File b m))
                | _ \<Rightarrow> Inl (OtherError ''is a directory''))))"

definition fs_write :: "Host \<Rightarrow> path \<Rightarrow> bytes \<Rightarrow> (IoError, unit) io" where
  "fs_write h p b = allowed h (WriteFile p) (bind get_files (\<lambda>fs.
     case written h 0x1B6 p b fs of Inl e \<Rightarrow> fail e | Inr (_, fs') \<Rightarrow> put_files fs'))"

text \<open>\<open>OpenOptions\<close> with \<open>create_new\<close>: a file that nothing was at, a link included.\<close>

definition fs_create_new :: "Host \<Rightarrow> u32 \<Rightarrow> path \<Rightarrow> (IoError, unit) io" where
  "fs_create_new h mode p = allowed h (CreateNew p) (bind get_files (\<lambda>fs.
     if fs p = None then put_files (fs(p \<mapsto> File [] (fresh_meta h mode))) else fail AlreadyExists))"

definition fs_read_to_string :: "Host \<Rightarrow> path \<Rightarrow> (IoError, string) io" where
  "fs_read_to_string h p = bind (fs_read h p) (\<lambda>b.
     if valid_utf8 b then ok (text_of_bytes b) else fail (OtherError ''stream did not contain valid UTF-8''))"

text \<open>\<open>create_dir_all\<close>: each directory on the way that is not there.\<close>

fun make_dirs :: "Host \<Rightarrow> path list \<Rightarrow> files \<Rightarrow> IoError + files" where
  "make_dirs h [] fs = Inr fs"
| "make_dirs h (d # ds) fs =
     (if fs d = None then make_dirs h ds (fs(d \<mapsto> Directory (fresh_meta h 0x1FF)))
      else if is_dir fs d then make_dirs h ds fs
      else Inl (OtherError ''not a directory''))"

definition fs_create_dir_all :: "Host \<Rightarrow> path \<Rightarrow> (IoError, unit) io" where
  "fs_create_dir_all h p = allowed h (CreateDir p) (bind get_files (\<lambda>fs.
     case make_dirs h (filter (\<lambda>d. d \<noteq> []) (rev (ancestors p))) fs of Inl e \<Rightarrow> fail e | Inr fs' \<Rightarrow> put_files fs'))"

text \<open>\<open>std::fs::copy\<close> writes the contents and sets the copy's permission bits to the original's.\<close>

definition fs_copy :: "Host \<Rightarrow> path \<Rightarrow> path \<Rightarrow> (IoError, unit) io" where
  "fs_copy h from to = allowed h (CopyFile from to) (bind get_files (\<lambda>fs.
     case stat fs from of
       Some (File b m) \<Rightarrow>
         (case written h 0x1B6 to b fs of
            Inl e \<Rightarrow> fail e
          | Inr (q, fs') \<Rightarrow> put_files (fs'(q := map_option (\<lambda>n. set_meta ((node_meta n)\<lparr>m_mode := m_mode m\<rparr>) n) (fs' q))))
     | Some _ \<Rightarrow> fail (OtherError ''is a directory'')
     | None \<Rightarrow> fail NotFound))"

definition fs_set_permissions :: "Host \<Rightarrow> path \<Rightarrow> u32 \<Rightarrow> (IoError, unit) io" where
  "fs_set_permissions h p mode = allowed h (SetMode p) (bind get_files (\<lambda>fs.
     case real_path fs p of
       Some q \<Rightarrow> put_files (fs(q := map_option (\<lambda>n. set_meta ((node_meta n)\<lparr>m_mode := mode\<rparr>) n) (fs q)))
     | None \<Rightarrow> fail NotFound))"

text \<open>A change of owner takes away the bits that set the user or the group.\<close>

definition fs_chown :: "Host \<Rightarrow> path \<Rightarrow> u32 \<Rightarrow> u32 \<Rightarrow> (IoError, unit) io" where
  "fs_chown h p uid gid = allowed h (Chown p) (bind get_files (\<lambda>fs.
     case real_path fs p of
       Some q \<Rightarrow> put_files (fs(q := map_option (\<lambda>n.
           set_meta \<lparr>m_mode = and (m_mode (node_meta n)) (not 0xC00), m_uid = uid, m_gid = gid\<rparr> n) (fs q)))
     | None \<Rightarrow> fail NotFound))"

text \<open>
  Renaming a file replaces what is at the new name, a link there included, but no directory; a directory
  is never given a file's name, which is the one rename of a directory the code could ask for.
\<close>

definition fs_rename :: "Host \<Rightarrow> path \<Rightarrow> path \<Rightarrow> (IoError, unit) io" where
  "fs_rename h from to = allowed h (RenameFile from to) (bind get_files (\<lambda>fs.
     case fs from of
       None \<Rightarrow> fail NotFound
     | Some n \<Rightarrow>
         (case (n, fs to) of
            (Directory _, _) \<Rightarrow> fail (OtherError ''not a directory'')
          | (_, Some (Directory _)) \<Rightarrow> fail (OtherError ''is a directory'')
          | _ \<Rightarrow> put_files ((fs(from := None))(to \<mapsto> n)))))"

definition fs_remove_file :: "Host \<Rightarrow> path \<Rightarrow> (IoError, unit) io" where
  "fs_remove_file h p = allowed h (RemoveFile p) (bind get_files (\<lambda>fs.
     case fs p of
       None \<Rightarrow> fail NotFound
     | Some (Directory _) \<Rightarrow> fail (OtherError ''is a directory'')
     | Some _ \<Rightarrow> put_files (fs(p := None))))"

definition fs_remove_dir_all :: "Host \<Rightarrow> path \<Rightarrow> (IoError, unit) io" where
  "fs_remove_dir_all h p = allowed h (RemoveAll p) (bind get_files (\<lambda>fs.
     put_files (\<lambda>q. if prefix p q then None else fs q)))"

text \<open>\<open>std::path::absolute\<close>: the file system is not asked, and the empty path is refused.\<close>

definition absolute :: "Host \<Rightarrow> path \<Rightarrow> IoError + path" where
  "absolute h p =
     (if p = [] then Inl (OtherError ''cannot make an empty path absolute'')
      else Inr (filter (\<lambda>c. c \<noteq> CurDir) (join_path (h_cwd h) p)))"

definition canonicalize :: "Host \<Rightarrow> path \<Rightarrow> (IoError, path) io" where
  "canonicalize h p w = (h_canonicalize h (w_files w) p, w)"

text \<open>\<open>Command::output\<close>, and \<open>Command::status\<close>, which reads no output.\<close>

definition command_output :: "Host \<Rightarrow> string \<Rightarrow> string list \<Rightarrow> (IoError, Output) io" where
  "command_output h program args w = (case h_exec h (w_ran w) program args (w_files w) of (r, fs) \<Rightarrow> (r, w\<lparr>w_files := fs, w_ran := Suc (w_ran w)\<rparr>))"

section \<open>Laws\<close>

lemma io_return [io_simps]: "ok x w = (Inr x, w)" "fail e w = (Inl e, w)" "println l w = (Inr (), w\<lparr>w_out := w_out w @ [l]\<rparr>)"
  "get_files w = (Inr (w_files w), w)" "put_files fs w = (Inr (), w\<lparr>w_files := fs\<rparr>)"
  by (simp_all add: ok_def fail_def println_def get_files_def put_files_def)

lemma bind_Inr [io_simps]: "bind m f w = (Inr y, w') \<longleftrightarrow> (\<exists>x w1. m w = (Inr x, w1) \<and> f x w1 = (Inr y, w'))"
  by (auto simp: bind_def split: prod.splits sum.splits)

lemma map_err_Inr [io_simps]: "map_err g m w = (Inr x, w') \<longleftrightarrow> m w = (Inr x, w')"
  by (auto simp: map_err_def split: prod.splits sum.splits)

lemma allowed_Inr [io_simps]: "allowed h op m w = (Inr x, w') \<longleftrightarrow> h_fails h op (w_files w) = None \<and> m w = (Inr x, w')"
  by (simp add: allowed_def split: option.split)

lemma bind_get_files [io_simps]: "bind get_files f w = f (w_files w) w"
  by (simp add: bind_def get_files_def)

text \<open>
  A relation between the worlds before and after that code keeps: what every operation keeps, code
  built of the operations keeps, whichever of them fails.
\<close>

locale frame =
  fixes R :: "World \<Rightarrow> World \<Rightarrow> bool"
  assumes refl: "R w w"
    and trans: "R a b \<Longrightarrow> R b c \<Longrightarrow> R a c"
begin

definition keeps :: "('e, 'a) io \<Rightarrow> bool" where
  "keeps m \<longleftrightarrow> (\<forall>w. R w (snd (m w)))"

lemma keepsD: "keeps m \<Longrightarrow> m w = (r, w') \<Longrightarrow> R w w'"
  unfolding keeps_def by (metis snd_conv)

lemma keeps_pure: "keeps (ok x)" "keeps (fail e)" "keeps get_files"
  by (simp_all add: keeps_def io_return refl)

lemma keeps_bind: "keeps m \<Longrightarrow> (\<And>x. keeps (f x)) \<Longrightarrow> keeps (bind m f)"
  unfolding keeps_def bind_def by (auto split: prod.split sum.split) (metis snd_conv trans)+

lemma keeps_map_err: "keeps m \<Longrightarrow> keeps (map_err g m)"
  unfolding keeps_def map_err_def by (auto split: prod.split sum.split) (metis snd_conv)+

lemma keeps_attempt: "keeps m \<Longrightarrow> keeps (attempt m)"
  unfolding keeps_def attempt_def by (auto split: prod.split) (metis snd_conv)

lemma keeps_for_each: "(\<And>x. keeps (f x)) \<Longrightarrow> keeps (for_each f xs)"
  by (induction xs) (simp_all add: keeps_pure keeps_bind)

lemma keeps_collect: "(\<And>x. keeps (f x)) \<Longrightarrow> keeps (collect f xs)"
  by (induction xs) (simp_all add: keeps_pure keeps_bind)

lemma keeps_reads: "keeps (fs_read h p)" "keeps (fs_metadata h p)" "keeps (canonicalize h p)"
  unfolding keeps_def fs_read_def fs_metadata_def canonicalize_def allowed_def bind_get_files
  by (auto simp: io_return refl split: option.split Node.split)

lemma keeps_read_to_string: "keeps (fs_read_to_string h p)"
  unfolding fs_read_to_string_def by (rule keeps_bind [OF keeps_reads(1)]) (simp add: keeps_pure)

lemma keeps_put: "(\<And>w. h_fails h op (w_files w) = None \<Longrightarrow> R w (snd (f (w_files w) w))) \<Longrightarrow>
  keeps (allowed h op (bind get_files f))"
  unfolding keeps_def allowed_def bind_get_files by (auto simp: refl split: option.split)

lemma keeps_exec: "(\<And>r fs w. h_exec h (w_ran w) program args (w_files w) = (r, fs) \<Longrightarrow> R w (w\<lparr>w_files := fs, w_ran := Suc (w_ran w)\<rparr>)) \<Longrightarrow>
  keeps (command_output h program args)"
  unfolding keeps_def command_output_def by (auto split: prod.split)

end

text \<open>A relation that does not look at what was printed.\<close>

locale quiet_frame = frame +
  assumes printed: "R w (w\<lparr>w_out := lines'\<rparr>)"
begin

lemma keeps_println: "keeps (println l)"
  by (simp add: keeps_def io_return printed)

end

interpretation untouched: frame "(=)"
  by unfold_locales simp_all

text \<open>Nothing outside \<open>S\<close> is touched.\<close>

definition outside :: "path set \<Rightarrow> files \<Rightarrow> files \<Rightarrow> bool" where
  "outside S fs fs' \<longleftrightarrow> (\<forall>p. p \<notin> S \<longrightarrow> fs' p = fs p)"

interpretation outside: quiet_frame "\<lambda>w w'. outside S (w_files w) (w_files w')" for S
  by unfold_locales (auto simp: outside_def)

text \<open>Nothing that was there is changed; what was not may have been created.\<close>

definition only_adds :: "files \<Rightarrow> files \<Rightarrow> bool" where
  "only_adds fs fs' \<longleftrightarrow> (\<forall>p. fs p \<noteq> None \<longrightarrow> fs' p = fs p)"

interpretation only_adds: quiet_frame "\<lambda>w w'. only_adds (w_files w) (w_files w')"
  by unfold_locales (auto simp: only_adds_def)

lemma make_dirs_adds: "make_dirs h ds fs = Inr fs' \<Longrightarrow> only_adds fs fs' \<and> (\<forall>p. p \<notin> set ds \<longrightarrow> fs' p = fs p)"
proof (induction ds arbitrary: fs)
  case (Cons d ds)
  show ?case
  proof (cases "fs d = None")
    case True
    with Cons.prems have "make_dirs h ds (fs(d \<mapsto> Directory (fresh_meta h 0x1FF))) = Inr fs'" by simp
    from Cons.IH [OF this] True show ?thesis by (auto simp: only_adds_def)
  next
    case False
    with Cons.prems have "make_dirs h ds fs = Inr fs'" by (simp split: if_splits)
    from Cons.IH [OF this] show ?thesis by simp
  qed
qed (simp add: only_adds_def)

lemma create_adds: "only_adds.keeps (fs_create_new h mode p)" "only_adds.keeps (fs_create_dir_all h p)"
  unfolding fs_create_new_def fs_create_dir_all_def
  by (rule only_adds.keeps_put; auto simp: io_return only_adds_def split: sum.split dest: make_dirs_adds)+

section \<open>A small host\<close>

text \<open>A host that refuses nothing, on which every program succeeds and prints nothing, for examples.\<close>

definition small_host :: Host where
  "small_host = \<lparr>h_fails = (\<lambda>_ _. None), h_exec = (\<lambda>_ _ _ fs. (Inr \<lparr>o_success = True, o_status = [], o_stdout = []\<rparr>, fs)),
     h_clock = (\<lambda>n. n), h_cwd = [RootDir],
     h_canonicalize = (\<lambda>_ p. Inr p), h_env = (\<lambda>_. None), h_uid = 1000, h_gid = 1000, h_umask = 0x12\<rparr>"

definition small_world :: World where
  "small_world = \<lparr>w_files = [[RootDir] \<mapsto> Directory \<lparr>m_mode = 0x1ED, m_uid = 0, m_gid = 0\<rparr>], w_ran = 0, w_out = []\<rparr>"

end
