(* ===== verification/Cmd_Paths.thy ===== *)
theory Cmd_Paths
  imports Host_Files
begin

text \<open>
  \<open>hawse/src/paths.rs\<close>: the two roles, where a config is looked for and where its key is. The user's
  config directory is what the \<open>etcetera\<close> crate says, an argument.
\<close>

datatype Role = RoleServer | RoleClient

fun role_name :: "Role \<Rightarrow> string" where
  "role_name RoleServer = ''server''"
| "role_name RoleClient = ''client''"

fun role_file_name :: "Role \<Rightarrow> string" where
  "role_file_name RoleServer = ''server.toml''"
| "role_file_name RoleClient = ''client.toml''"

fun role_key_name :: "Role \<Rightarrow> string" where
  "role_key_name RoleServer = ''server.key''"
| "role_key_name RoleClient = ''client.key''"

record Located =
  lc_file :: path
  lc_dir :: path
  lc_exists :: bool

abbreviation in_dir :: "path \<Rightarrow> string \<Rightarrow> path" where "in_dir dir name \<equiv> join_path dir (components name)"

definition SYSTEM_DIR :: path where "SYSTEM_DIR = [RootDir, Normal ''etc'', Normal ''hawse'']"

definition locate :: "files \<Rightarrow> path option \<Rightarrow> bool \<Rightarrow> Role \<Rightarrow> path option \<Rightarrow> Located" where
  "locate fs user_dir as_root role explicit =
     (case explicit of
        Some file \<Rightarrow>
          \<lparr>lc_file = file, lc_dir = (case parent file of None \<Rightarrow> [CurDir] | Some dir \<Rightarrow> dir), lc_exists = is_file fs file\<rparr>
      | None \<Rightarrow>
          (let candidates = (case user_dir of Some dir \<Rightarrow> [dir] | None \<Rightarrow> []) @ [SYSTEM_DIR]
           in case find (\<lambda>dir. is_file fs (in_dir dir (role_file_name role))) candidates of
                Some dir \<Rightarrow> \<lparr>lc_file = in_dir dir (role_file_name role), lc_dir = dir, lc_exists = True\<rparr>
              | None \<Rightarrow>
                  (let dir = (if as_root then SYSTEM_DIR else case user_dir of Some dir \<Rightarrow> dir | None \<Rightarrow> SYSTEM_DIR)
                   in \<lparr>lc_file = in_dir dir (role_file_name role), lc_dir = dir, lc_exists = False\<rparr>)))"

definition default_key :: "files \<Rightarrow> Role \<Rightarrow> path \<Rightarrow> string option \<Rightarrow> bool \<Rightarrow> path" where
  "default_key fs role config_dir state_directory as_root =
     (let beside = in_dir config_dir (role_key_name role)
      in if is_file fs beside then beside
         else case map_option (\<lambda>dirs. components (hd (splits_at CHR '':'' dirs))) state_directory of
                Some dir \<Rightarrow> in_dir dir (role_key_name role)
              | None \<Rightarrow> if as_root then in_dir (components ''/var/lib/hawse'') (role_key_name role) else beside)"

definition key_path :: "Host \<Rightarrow> files \<Rightarrow> Role \<Rightarrow> Located \<Rightarrow> path option \<Rightarrow> path" where
  "key_path h fs role located configured =
     (case configured of
        Some key \<Rightarrow> join_path (lc_dir located) key
      | None \<Rightarrow> default_key fs role (lc_dir located) (h_env h ''STATE_DIRECTORY'') (is_root h))"

end
