(* ===== verification/Utf8_Ascii.thy ===== *)
theory Utf8_Ascii
  imports Host_Files
begin

text \<open>
  ASCII in UTF-8: in bytes that are UTF-8, a byte below 128 is a character of its own, so that a check
  of every character of a text is a check of every such byte.
\<close>

lemma of_byte_char [simp]: "of_char (byte_char b) = unat b"
proof -
  have "unat b < 256" using unsigned_less [where w = b and 'a = nat] by simp
  then show ?thesis by (simp add: byte_char_def)
qed

lemma needs_cases:
  assumes "0 < needs a"
  obtains "needs a = 1" "128 \<le> unat a" "unat a < 224"
  | "needs a = 2" "224 \<le> unat a" "unat a < 240"
  | "needs a = 3" "240 \<le> unat a"
  using assms by (auto simp: needs_def word_le_nat_alt word_less_nat_alt split: if_splits)

lemma second_continues: "0 < needs a \<Longrightarrow> second_ok a b \<Longrightarrow> 0x80 \<le> b"
  by (auto simp: second_ok_def continues_def word_le_nat_alt split: if_splits)

lemma continued_bytes:
  assumes "0 < needs a" "continued a bs = needs a"
  shows "needs a \<le> length bs" "\<forall>x \<in> set (take (needs a) bs). 0x80 \<le> x"
proof -
  obtain b rest where bs: "bs = b # rest" and b: "second_ok a b"
    using assms by (cases bs) (auto simp: continued_def split: if_splits)
  define k where "k = needs a - 1"
  have k: "needs a = Suc k" using assms(1) by (simp add: k_def)
  have "length (takeWhile continues (take k rest)) = k"
    using assms(2) b by (simp add: continued_def bs k)
  moreover have "length (takeWhile continues (take k rest)) \<le> length (take k rest)" by (rule length_takeWhile_le)
  ultimately have len: "k \<le> length rest" and all: "takeWhile continues (take k rest) = take k rest"
    by (simp, metis length_take min.absorb2 takeWhile_eq_take take_all_iff le_refl length_takeWhile_le min_def)
  then have "\<forall>x \<in> set (take k rest). continues x" by (metis set_takeWhileD)
  then show "needs a \<le> length bs" "\<forall>x \<in> set (take (needs a) bs). 0x80 \<le> x"
    using len second_continues [OF assms(1) b] by (auto simp: bs k continues_def)
qed

lemma chars_step:
  assumes "0 < needs a" "continued a bs = needs a"
  shows "\<exists>y. chars (byte_char a # map byte_char bs) = y # chars (map byte_char (drop (needs a) bs))"
  using assms(1)
proof (cases rule: needs_cases)
  case 1
  then show ?thesis using continued_bytes [OF assms] by (cases bs) (auto simp: Let_def)
next
  case 2
  then show ?thesis using continued_bytes [OF assms] by (cases bs; cases "tl bs") (auto simp: Let_def)
next
  case 3
  then show ?thesis using continued_bytes [OF assms] by (cases bs; cases "tl bs"; cases "tl (tl bs)") (auto simp: Let_def)
qed

lemma ascii_in_chars: "valid_utf8 bs \<Longrightarrow> b \<in> set bs \<Longrightarrow> b < 0x80 \<Longrightarrow> unat b \<in> set (chars (map byte_char bs))"
proof (induction bs rule: valid_utf8.induct)
  case (2 a bs)
  show ?case
  proof (cases "a < 0x80")
    case True
    then have "chars (map byte_char (a # bs)) = unat a # chars (map byte_char bs)"
      by (simp add: word_less_nat_alt Let_def)
    then show ?thesis using 2 True by auto
  next
    case False
    then have n: "0 < needs a" "continued a bs = needs a" "valid_utf8 (drop (needs a) bs)" using 2(3) by auto
    have "b \<noteq> a" using 2(5) False by auto
    moreover have "b \<notin> set (take (needs a) bs)" using continued_bytes(2) [OF n(1,2)] 2(5) by (auto simp: not_le [symmetric])
    ultimately have "b \<in> set (drop (needs a) bs)" using 2(4) set_append [of "take (needs a) bs" "drop (needs a) bs"] by simp
    then show ?thesis using 2 n False chars_step [OF n(1,2)] by auto
  qed
qed simp

lemma byte_of_char: "unat (word_of_nat (of_char c) :: u8) = of_char c"
proof -
  have "of_char c < (256 :: nat)" by simp
  then show ?thesis by (simp add: unat_of_nat)
qed

lemma ascii_char: "valid_utf8 (bytes_of_text s) \<Longrightarrow> c \<in> set s \<Longrightarrow> of_char c < (128 :: nat) \<Longrightarrow> of_char c \<in> set (chars s)"
  using ascii_in_chars [of "bytes_of_text s" "word_of_nat (of_char c)"]
  by (simp add: bytes_of_text_def word_less_nat_alt byte_of_char flip: text_of_bytes_def)
     (metis bytes_of_text_def text_of_bytes_of_text text_of_bytes_def)

text \<open>A text whose characters all fail a check holds no byte below 128 that passes it.\<close>

lemma no_ascii_char: "valid_utf8 (bytes_of_text s) \<Longrightarrow> \<not> list_ex P (chars s) \<Longrightarrow> P (of_char c) \<Longrightarrow> of_char c < (128 :: nat) \<Longrightarrow> c \<notin> set s"
  using ascii_char by (auto simp: list_ex_iff)

text \<open>Replacing bytes below 128 by others keeps a text UTF-8.\<close>

lemma valid_ascii_append: "list_all (\<lambda>b. b < 0x80) p \<Longrightarrow> valid_utf8 (p @ r) = valid_utf8 r"
  by (induction p) auto

lemma continued_take:
  assumes "0 < needs a" "continued a bs = needs a"
  shows "continued a (take (needs a) bs @ x) = needs a"
proof -
  obtain b rest where bs: "bs = b # rest" using assms by (cases bs) (auto simp: continued_def split: if_splits)
  define k where "k = needs a - 1"
  have k: "needs a = Suc k" using assms(1) by (simp add: k_def)
  have "k \<le> length rest" using continued_bytes(1) [OF assms] by (simp add: bs k)
  then show ?thesis using assms by (simp add: continued_def bs k split: if_splits)
qed

lemma valid_concat_map:
  assumes "\<And>b. 0x80 \<le> b \<Longrightarrow> f b = [b]" "\<And>b. b < 0x80 \<Longrightarrow> list_all (\<lambda>c. c < 0x80) (f b)"
  shows "valid_utf8 bs \<Longrightarrow> valid_utf8 (concat (map f bs))"
proof (induction bs rule: valid_utf8.induct)
  case (2 a bs)
  show ?case
  proof (cases "a < 0x80")
    case True
    then show ?thesis using 2 assms(2) valid_ascii_append by simp
  next
    case False
    then have n: "0 < needs a" "continued a bs = needs a" "valid_utf8 (drop (needs a) bs)" using 2(3) by auto
    have same: "concat (map f xs) = xs" if "\<forall>x \<in> set xs. 0x80 \<le> x" for xs
      using that assms(1) by (induction xs) simp_all
    have "concat (map f bs) = concat (map f (take (needs a) bs)) @ concat (map f (drop (needs a) bs))"
      by (simp flip: concat_append map_append)
    then have "concat (map f (a # bs)) = a # take (needs a) bs @ concat (map f (drop (needs a) bs))"
      using False assms(1) [of a] same [OF continued_bytes(2) [OF n(1,2)]] by simp
    moreover have "length (take (needs a) bs) = needs a" using continued_bytes(1) [OF n(1,2)] by simp
    ultimately show ?thesis using False n 2(2) continued_take [OF n(1,2)] by simp
  qed
qed simp

lemma valid_replace_char:
  assumes "valid_utf8 (bytes_of_text s)" "of_char c < (128 :: nat)" "list_all (\<lambda>d. of_char d < (128 :: nat)) t"
  shows "valid_utf8 (bytes_of_text (replace_char c t s))"
proof -
  let ?b = "\<lambda>c. word_of_nat (of_char c) :: u8"
  have inj: "?b x = ?b c \<longleftrightarrow> x = c" for x
    by (metis byte_of_char of_char_eq_iff)
  have "bytes_of_text (replace_char c t s) = concat (map (\<lambda>b. if b = ?b c then bytes_of_text t else [b]) (bytes_of_text s))"
    by (simp add: replace_char_def bytes_of_text_def map_concat o_def inj if_distrib [of "map ?b"] cong: if_cong)
  moreover have "?b c < 0x80" using assms(2) by (simp add: word_less_nat_alt byte_of_char)
  moreover have "list_all (\<lambda>d. d < 0x80) (bytes_of_text t)"
    using assms(3) by (simp add: bytes_of_text_def list_all_iff word_less_nat_alt byte_of_char)
  ultimately show ?thesis using assms(1) by (auto intro!: valid_concat_map)
qed

end
