(* ===== verification/Socket.thy ===== *)
theory Socket
  imports Cmd_Paths Utf8_Ascii
begin

text \<open>
  \<open>hawse/src/socket.rs\<close>: the local socket a server or a client answers status requests on. Where a socket
  goes, where a caller looks for one, what binding does to what is there, and how one request is answered.
  The user's directories are the \<open>etcetera\<close> crate's and JSON is serde's, both arguments. The host says
  which of its calls fail; the main results are that binding never takes a path from a process that
  answers there, and that a caller looks wherever the process it asks may have bound.
\<close>

section \<open>Where a socket goes\<close>

definition REQUEST_LIMIT :: nat where "REQUEST_LIMIT = 4096"
definition REQUEST_WAIT :: duration where "REQUEST_WAIT = 5000000000"

record Env =
  en_notify :: bool
  en_runtime_directory :: "path option"
  en_root :: bool
  en_linux :: bool
  en_xdg_runtime_dir :: "path option"
  en_state_dir :: "path option"

text \<open>\<open>std::env::split_paths\<close> splits at colons and gives one empty path for an empty text.\<close>

definition env_current :: "(string \<Rightarrow> string option) \<Rightarrow> bool \<Rightarrow> bool \<Rightarrow> path option \<Rightarrow> path option \<Rightarrow> Env" where
  "env_current var as_root linux runtime_dir state_dir =
     \<lparr>en_notify = (var ''NOTIFY_SOCKET'' \<noteq> None),
      en_runtime_directory =
        (case var ''RUNTIME_DIRECTORY'' of
           Some dirs \<Rightarrow> (let dir = hd (splits_at CHR '':'' dirs) in if dir = [] then None else Some (components dir))
         | None \<Rightarrow> None),
      en_root = as_root, en_linux = linux, en_xdg_runtime_dir = runtime_dir, en_state_dir = state_dir\<rparr>"

datatype Place = PlaceAt path | UnitWithout | Nowhere

definition socket_name :: "Role \<Rightarrow> string" where "socket_name role = role_name role @ ''.sock''"

definition system_path :: "Role \<Rightarrow> path" where
  "system_path role = in_dir (in_dir (components ''/run'') (''hawse-'' @ role_name role)) (socket_name role)"

definition place :: "Role \<Rightarrow> Env \<Rightarrow> Place" where
  "place role env =
     (let under_hawse = (\<lambda>dir. in_dir (in_dir dir ''hawse'') (socket_name role))
      in case en_runtime_directory env of
           Some dir \<Rightarrow> PlaceAt (in_dir dir (socket_name role))
         | None \<Rightarrow>
             if en_notify env then UnitWithout
             else if en_root env \<and> en_linux env then PlaceAt (system_path role)
             else case en_xdg_runtime_dir env of
                    Some dir \<Rightarrow> PlaceAt (under_hawse dir)
                  | None \<Rightarrow> (case en_state_dir env of Some dir \<Rightarrow> PlaceAt (under_hawse dir) | None \<Rightarrow> Nowhere))"

definition candidates :: "Role \<Rightarrow> Env \<Rightarrow> path list" where
  "candidates role env =
     map (\<lambda>d. in_dir d (socket_name role)) (case en_runtime_directory env of Some d \<Rightarrow> [d] | None \<Rightarrow> []) @
     (if en_linux env then [system_path role] else []) @
     map (\<lambda>dir. in_dir (in_dir dir ''hawse'') (socket_name role))
       (List.map_filter (\<lambda>x. x) [en_xdg_runtime_dir env, en_state_dir env])"

section \<open>Binding\<close>

text \<open>
  What is at the path: a socket a process answers on (through a link or not), one its process left, a link to
  nothing, which the host does not bind over, or anything else.
\<close>

datatype There = NothingThere | LiveSocket | StaleSocket | LinkToNothing | NotASocket

datatype BindError = NoDir IoError | Foreign | Taken | BindIo IoError

text \<open>The directory's owner, once it is made; and which of the host's calls fail.\<close>

record SocketHost =
  sh_dir_made :: "IoError option"
  sh_owner :: "IoError + u32"
  sh_euid :: u32
  sh_connect_fails :: "IoError option"
  sh_lookup_fails :: "IoError option"
  sh_remove_fails :: "IoError option"
  sh_bind_fails :: "IoError option"
  sh_chmod_fails :: "IoError option"
  sh_nonblocking_fails :: "IoError option"

record At =
  at_there :: There
  at_mode :: "u32 option"

definition dir_checked :: "SocketHost \<Rightarrow> path \<Rightarrow> BindError + unit" where
  "dir_checked h path =
     (case parent path of
        None \<Rightarrow> Inr ()
      | Some dir \<Rightarrow>
          (case sh_dir_made h of
             Some e \<Rightarrow> Inl (NoDir e)
           | None \<Rightarrow>
               (case sh_owner h of
                  Inl e \<Rightarrow> Inl (BindIo e)
                | Inr owner \<Rightarrow> if owner \<noteq> sh_euid h then Inl Foreign else Inr ())))"

text \<open>A connection tells whether the path may be taken; a stale socket is removed.\<close>

definition path_cleared :: "SocketHost \<Rightarrow> At \<Rightarrow> (BindError + unit) \<times> At" where
  "path_cleared h a =
     (case sh_connect_fails h of
        Some e \<Rightarrow> (Inl (BindIo e), a)
      | None \<Rightarrow>
          (case at_there a of
             LiveSocket \<Rightarrow> (Inl Taken, a)
           | NothingThere \<Rightarrow> (Inr (), a)
           | LinkToNothing \<Rightarrow> (Inr (), a)
           | _ \<Rightarrow>
               (case sh_lookup_fails h of
                  Some e \<Rightarrow> (Inl (BindIo e), a)
                | None \<Rightarrow>
                    if at_there a \<noteq> StaleSocket then (Inl (BindIo (OtherError ''address in use'')), a)
                    else case sh_remove_fails h of
                           Some e \<Rightarrow> (Inl (BindIo e), a)
                         | None \<Rightarrow> (Inr (), \<lparr>at_there = NothingThere, at_mode = None\<rparr>))))"

text \<open>Dropping what was bound removes the file, also when a step after the bind fails.\<close>

definition bound_drop :: "At \<Rightarrow> At" where "bound_drop a = \<lparr>at_there = NothingThere, at_mode = None\<rparr>"

definition bind_at :: "SocketHost \<Rightarrow> path \<Rightarrow> At \<Rightarrow> (BindError + unit) \<times> At" where
  "bind_at h path a =
     (case dir_checked h path of
        Inl e \<Rightarrow> (Inl e, a)
      | Inr _ \<Rightarrow>
          (case path_cleared h a of
             (Inl e, a) \<Rightarrow> (Inl e, a)
           | (Inr _, a) \<Rightarrow>
               (case sh_bind_fails h of
                  Some e \<Rightarrow> (Inl (BindIo e), a)
                | None \<Rightarrow>
                    if at_there a \<noteq> NothingThere then (Inl (BindIo (OtherError ''address in use'')), a)
                    else let a = \<lparr>at_there = LiveSocket, at_mode = None\<rparr>
                    in case sh_chmod_fails h of
                         Some e \<Rightarrow> (Inl (BindIo e), bound_drop a)
                       | None \<Rightarrow>
                           let a = a\<lparr>at_mode := Some 0x180\<rparr>
                           in case sh_nonblocking_fails h of
                                Some e \<Rightarrow> (Inl (BindIo e), bound_drop a)
                              | None \<Rightarrow> (Inr (), a))))"

definition socket_bind :: "SocketHost \<Rightarrow> Role \<Rightarrow> Env \<Rightarrow> (path \<Rightarrow> At) \<Rightarrow> path option \<times> (path \<Rightarrow> At)" where
  "socket_bind h role env files =
     (case place role env of
        PlaceAt path \<Rightarrow>
          (case bind_at h path (files path) of
             (Inr _, a) \<Rightarrow> (Some path, files(path := a))
           | (Inl _, a) \<Rightarrow> (None, files(path := a)))
      | _ \<Rightarrow> (None, files))"

section \<open>Answering\<close>

text \<open>
  What came over the connection before the deadline: bytes, whether they ended, and how reading on failed.
  \<open>read_line\<close> of a reader that ends after \<open>limit\<close> bytes.
\<close>

record Incoming =
  in_bytes :: bytes
  in_ended :: bool
  in_error :: "string option"

datatype ReadLine = TimedOut | ReadFailed string | ReadText string

definition read_line :: "nat \<Rightarrow> Incoming \<Rightarrow> ReadLine" where
  "read_line limit i =
     (let window = take limit (in_bytes i);
          line = (if 10 \<in> set window then takeWhile (\<lambda>b. b \<noteq> 10) window @ [10] else window)
      in if 10 \<in> set window \<or> length window = limit \<or> in_ended i
         then (if valid_utf8 line then ReadText (text_of_bytes line) else ReadFailed ''stream did not contain valid UTF-8'')
         else case in_error i of Some e \<Rightarrow> ReadFailed e | None \<Rightarrow> TimedOut)"

record 'st Json =
  js_request :: string
  js_read_request :: "string \<Rightarrow> string + unit"
  js_refusal :: "string \<Rightarrow> string"
  js_status :: "'st \<Rightarrow> string + string"

definition refusal :: "string \<Rightarrow> 'st Json \<Rightarrow> string \<Rightarrow> string" where
  "refusal VERSION js error = js_refusal js (''hawse '' @ VERSION @ '': '' @ error)"

text \<open>The reply's line, if one is sent, and whether what the caller still sends is read to its end.\<close>

definition answer :: "string \<Rightarrow> 'st Json \<Rightarrow> 'st \<Rightarrow> Incoming \<Rightarrow> bytes option \<times> bool" where
  "answer VERSION js status i =
     (let send = (\<lambda>reply. Some (bytes_of_text (reply @ NL)))
      in case read_line REQUEST_LIMIT i of
           TimedOut \<Rightarrow> (None, False)
         | ReadFailed e \<Rightarrow> (send (refusal VERSION js (''cannot read this request: '' @ e)), False)
         | ReadText line \<Rightarrow>
             if line = [] then (None, False)
             else if REQUEST_LIMIT \<le> length line \<and> last line \<noteq> CHR 0x0A
             then (send (refusal VERSION js (''a request is at most '' @ show_nat REQUEST_LIMIT @ '' bytes on one line'')), True)
             else case js_read_request js line of
                    Inr _ \<Rightarrow> (send (case js_status js status of Inr reply \<Rightarrow> reply | Inl e \<Rightarrow> refusal VERSION js e), False)
                  | Inl e \<Rightarrow> (send (refusal VERSION js (''cannot read this request: '' @ e)), False))"

section \<open>A caller looks where a process binds\<close>

text \<open>The directory systemd makes for the \<open>RuntimeDirectory=\<close> of a unit hawse installs.\<close>

definition unit_runtime :: "Role \<Rightarrow> path" where
  "unit_runtime role = in_dir (components ''/run'') (''hawse-'' @ role_name role)"

lemma candidates_iff: "p \<in> set (candidates role env) \<longleftrightarrow>
  (\<exists>d. en_runtime_directory env = Some d \<and> p = in_dir d (socket_name role)) \<or>
  en_linux env \<and> p = system_path role \<or>
  (\<exists>d. (en_xdg_runtime_dir env = Some d \<or> en_state_dir env = Some d) \<and> p = in_dir (in_dir d ''hawse'') (socket_name role))"
  by (cases "en_runtime_directory env"; cases "en_xdg_runtime_dir env"; cases "en_state_dir env")
     (auto simp: candidates_def map_filter_simps)

lemma caller_finds_process:
  assumes "place role env = PlaceAt p" "en_linux caller = en_linux env"
    and "en_runtime_directory env = None \<or> en_runtime_directory env = en_runtime_directory caller \<or>
      en_linux env \<and> en_runtime_directory env = Some (unit_runtime role)"
    and "en_runtime_directory env = None \<Longrightarrow> \<not> (en_root env \<and> en_linux env) \<Longrightarrow> en_xdg_runtime_dir caller = en_xdg_runtime_dir env \<and> en_state_dir caller = en_state_dir env"
  shows "p \<in> set (candidates role caller)"
proof (cases "en_runtime_directory env")
  case None
  then show ?thesis using assms(1,2,4)
    by (auto simp: place_def candidates_iff Let_def split: if_splits option.splits)
next
  case (Some d)
  then have "p = in_dir d (socket_name role)" using assms(1) by (simp add: place_def)
  then show ?thesis using assms(2) assms(3) [unfolded Some]
    by (auto simp: candidates_iff unit_runtime_def system_path_def dest!: sym [of "Some d"])
qed

section \<open>Binding takes no path from another\<close>

text \<open>
  Binding never takes a path from a process that answers there. A live socket and anything that is no socket stay as they
  were and nothing is bound; a bind that succeeds found nothing or a socket left behind, in a directory this
  account owns, and the socket it leaves opens to its owner alone; one that fails leaves the path as it
  was or empty, never half bound.
\<close>

theorem bind_takes_only_stale:
  assumes "socket_bind h role env files = (bound, files')" "place role env = PlaceAt p"
  shows "(\<forall>q. q \<noteq> p \<longrightarrow> files' q = files q) \<and>
    (at_there (files p) \<in> {LiveSocket, LinkToNothing, NotASocket} \<longrightarrow> bound = None \<and> files' = files) \<and>
    (bound = None \<longrightarrow> files' p = files p \<or> files' p = \<lparr>at_there = NothingThere, at_mode = None\<rparr>) \<and>
    (\<forall>q. bound = Some q \<longrightarrow> q = p \<and> at_there (files p) \<in> {NothingThere, StaleSocket} \<and>
      files' p = \<lparr>at_there = LiveSocket, at_mode = Some 0x180\<rparr> \<and> (parent p \<noteq> None \<longrightarrow> sh_owner h = Inr (sh_euid h)))"
  using assms
  by (auto simp: socket_bind_def bind_at_def dir_checked_def path_cleared_def bound_drop_def Let_def
      split: sum.splits option.splits There.splits if_splits prod.splits)

definition own_dir :: SocketHost where
  "own_dir = \<lparr>sh_dir_made = None, sh_owner = Inr 1000, sh_euid = 1000, sh_connect_fails = None, sh_lookup_fails = None, sh_remove_fails = None,
     sh_bind_fails = None, sh_chmod_fails = None, sh_nonblocking_fails = None\<rparr>"

definition user_env :: Env where
  "user_env = \<lparr>en_notify = False, en_runtime_directory = None, en_root = False, en_linux = True, en_xdg_runtime_dir = Some [RootDir, Normal ''run''], en_state_dir = None\<rparr>"

definition left_behind :: "path \<Rightarrow> At" where "left_behind _ = \<lparr>at_there = StaleSocket, at_mode = None\<rparr>"

theorem bind_takes_only_stale_witness:
  "\<exists>p files'. socket_bind own_dir RoleClient user_env left_behind = (Some p, files') \<and> files' p = \<lparr>at_there = LiveSocket, at_mode = Some 0x180\<rparr>"
proof -
  obtain p where p: "place RoleClient user_env = PlaceAt p" by (simp add: place_def user_env_def)
  have "dir_checked own_dir p = Inr ()" by (simp add: dir_checked_def own_dir_def split: option.split)
  then have "bind_at own_dir p (left_behind p) = (Inr (), \<lparr>at_there = LiveSocket, at_mode = Some 0x180\<rparr>)"
    by (simp add: bind_at_def path_cleared_def own_dir_def left_behind_def Let_def)
  then have b: "socket_bind own_dir RoleClient user_env left_behind = (Some p, left_behind(p := \<lparr>at_there = LiveSocket, at_mode = Some 0x180\<rparr>))"
    by (simp add: socket_bind_def p)
  from bind_takes_only_stale [OF b p] b show ?thesis by auto
qed

end
