(* ===== verification/Client_Panel.thy ===== *)
theory Client_Panel
  imports Terminal
begin

text \<open>
  \<open>hawse/src/panel.rs\<close> and \<open>hawse/src/screen.rs\<close>: what the client's panel knows of the connection and
  of each service, kept from the client's events and sampled from its traffic, and how it is drawn,
  erased and printed above. A client's \<open>Arc<Traffic>\<close> is known by a number, so that a new client is
  told from the running one as \<open>Arc::ptr_eq\<close> does. A write to the terminal is the bytes written; one
  that fails is not modelled.
\<close>

definition SAMPLE :: duration where "SAMPLE = secs 1"

record 'net Shown =
  sn_cfg :: "'net ClientConfig"
  sn_traffic :: nat
  sn_carried :: "(string, Counts) hmap"

definition U64_MAX :: nat where "U64_MAX = 2 ^ 64 - 1"

definition per_second :: "u64 \<Rightarrow> u64 \<Rightarrow> duration \<Rightarrow> u64" where
  "per_second now then' elapsed =
     (let ms = max 1 (elapsed div 1000000)
      in word_of_nat (min U64_MAX ((unat now - unat then') * 1000 div ms)))"

datatype PanelAnswer = PaBound Port | PaRefused BindFailure

record 'net PanelState =
  ps_link :: Link
  ps_answers :: "(string, 'net Expose \<times> PanelAnswer) hmap"
  ps_figures :: "(string, Counts) hmap"
  ps_counted :: "(string, Counts) hmap"
  ps_outage :: "DisconnectCause option"
  ps_denied :: "PublicKey option"

definition new_panel :: "'net PanelState" where
  "new_panel = \<lparr>ps_link = LkConnecting, ps_answers = [], ps_figures = [], ps_counted = [], ps_outage = None, ps_denied = None\<rparr>"

definition panel_answer :: "'net ClientConfig \<Rightarrow> string \<Rightarrow> PanelAnswer \<Rightarrow> 'net PanelState \<Rightarrow> 'net PanelState" where
  "panel_answer cfg service a s =
     (case hget (expose cfg) service of
        Some x \<Rightarrow> s\<lparr>ps_answers := bput service (x, a) (ps_answers s)\<rparr>
      | None \<Rightarrow> s)"

definition panel_apply :: "(bytes \<Rightarrow> string) \<Rightarrow> Term \<Rightarrow> Style \<Rightarrow> 'net ClientConfig \<Rightarrow> ClientEvent \<Rightarrow> instant \<Rightarrow>
    'net PanelState \<Rightarrow> 'net PanelState \<times> string option" where
  "panel_apply encode64 tm st cfg ev now s =
     (let (denied, again) = repeats (ps_denied s) ev;
          s = s\<lparr>ps_denied := denied\<rparr>;
          line = event_line encode64 tm ev st
      in case ev of
        CeConnected _ transport _ _ round_trip \<Rightarrow>
          (s\<lparr>ps_link := LkUp transport round_trip now, ps_outage := None, ps_answers := []\<rparr>, line)
      | CeRoundTrip latest \<Rightarrow>
          (case ps_link s of LkUp transport _ since \<Rightarrow> s\<lparr>ps_link := LkUp transport latest since\<rparr> | _ \<Rightarrow> s, line)
      | CeBound service port \<Rightarrow> (panel_answer cfg service (PaBound port) s, line)
      | CeBindFailed service why \<Rightarrow> (panel_answer cfg service (PaRefused why) s, line)
      | CeDenied _ \<Rightarrow> (s, if again then None else line)
      | CeDisconnected cause retry_in \<Rightarrow>
          (let s' = s\<lparr>ps_link :=
                 (case retry_in of
                    Some wait \<Rightarrow> LkDown (case ps_link s of LkDown since _ \<Rightarrow> since | _ \<Rightarrow> now) (now + wait)
                  | None \<Rightarrow> LkStopped)\<rparr>
           in if retry_in \<noteq> None \<and> ps_outage s = Some cause then (s', None)
              else (s'\<lparr>ps_outage := Some cause\<rparr>, line)))"

definition counts_of :: "(string, Counts) hmap \<Rightarrow> string \<Rightarrow> Counts" where
  "counts_of m service = (case hget m service of Some c \<Rightarrow> c | None \<Rightarrow> zero_counts)"

definition panel_sample :: "(string, Counts) hmap \<Rightarrow> duration \<Rightarrow> 'net PanelState \<Rightarrow> 'net PanelState" where
  "panel_sample totals elapsed s =
     s\<lparr>ps_figures := map (\<lambda>(service, c). (service,
           let before = counts_of (ps_counted s) service
           in zero_counts\<lparr>n_open := n_open c, n_down := per_second (n_down c) (n_down before) elapsed,
                n_up := per_second (n_up c) (n_up before) elapsed\<rparr>)) totals,
       ps_counted := totals\<rparr>"

definition panel_recount :: "(string, Counts) hmap \<Rightarrow> 'net PanelState \<Rightarrow> 'net PanelState" where
  "panel_recount totals s =
     s\<lparr>ps_figures := fold (\<lambda>(service, c) figs. bput service ((counts_of figs service)\<lparr>n_open := n_open c\<rparr>) figs) totals (ps_figures s)\<rparr>"

definition panel_rows :: "'net ClientConfig \<Rightarrow> 'net PanelState \<Rightarrow> (string, Row) hmap" where
  "panel_rows cfg s =
     map (\<lambda>(service, _, a). (service,
         case a of
           PaRefused why \<Rightarrow> RowRefused why
         | PaBound port \<Rightarrow> let c = counts_of (ps_figures s) service in RowBound port (n_open c) (n_down c) (n_up c)))
       (filter (\<lambda>(service, x, _). hget (expose cfg) service = Some x) (ps_answers s))"

section \<open>The loop\<close>

record 'net PanelShow =
  pw_state :: "'net PanelState"
  pw_traffic :: nat
  pw_stopped :: bool
  pw_connects :: u64
  pw_ticking :: bool
  pw_sampled :: instant

datatype panel_arm =
    ArmShown
  | ArmEvent ClientEvent
  | ArmResized
  | ArmMoved "(string, Counts) hmap"
  | ArmTick "(string, Counts) hmap" bool

text \<open>The start of every turn: a new client, which has yet to connect, starts the figures again.\<close>

definition panel_top :: "'net Shown \<Rightarrow> 'net PanelShow \<Rightarrow> 'net PanelShow" where
  "panel_top shown w =
     (if sn_traffic shown = pw_traffic w then w
      else w\<lparr>pw_traffic := sn_traffic shown,
             pw_state := (pw_state w)\<lparr>ps_link := LkConnecting, ps_counted := [], ps_figures := []\<rparr>\<rparr>)"

definition panel_frame :: "Term \<Rightarrow> Style \<Rightarrow> 'net Shown \<Rightarrow> instant \<Rightarrow> nat \<times> nat \<Rightarrow> 'net PanelShow \<Rightarrow> string list" where
  "panel_frame tm st shown now dims w =
     frame tm (ps_link (pw_state w)) (panel_rows (sn_cfg shown) (pw_state w)) (sn_cfg shown) st now dims"

definition counting_down :: "instant \<Rightarrow> 'net PanelShow \<Rightarrow> bool" where
  "counting_down now w \<longleftrightarrow> (case ps_link (pw_state w) of LkDown _ retry_at \<Rightarrow> now < retry_at | _ \<Rightarrow> False)"

text \<open>
  One arm of the loop and the line it prints. \<open>ArmMoved\<close> and \<open>ArmTick\<close> carry the totals read, and
  the second whether more moved since; the guards of the arms are in \<open>panel_ready\<close>.
\<close>

definition panel_ready :: "instant \<Rightarrow> panel_arm \<Rightarrow> 'net PanelShow \<Rightarrow> bool" where
  "panel_ready now arm w =
     (case arm of ArmMoved _ \<Rightarrow> \<not> pw_ticking w | ArmTick _ _ \<Rightarrow> pw_ticking w \<or> counting_down now w | _ \<Rightarrow> True)"

definition panel_turn :: "(bytes \<Rightarrow> string) \<Rightarrow> Term \<Rightarrow> Style \<Rightarrow> 'net Shown \<Rightarrow> panel_arm \<Rightarrow> instant \<Rightarrow>
    'net PanelShow \<Rightarrow> 'net PanelShow \<times> string option" where
  "panel_turn encode64 tm st shown arm now w =
     (case arm of
        ArmShown \<Rightarrow> (w, None)
      | ArmResized \<Rightarrow> (w, None)
      | ArmEvent ev \<Rightarrow>
          (let (s, line) = panel_apply encode64 tm st (sn_cfg shown) ev now (pw_state w)
           in (w\<lparr>pw_state := s,
                 pw_stopped := (pw_stopped w \<or> (case ev of CeDisconnected _ None \<Rightarrow> True | _ \<Rightarrow> False)),
                 pw_connects := pw_connects w + (case ev of CeConnected _ _ _ _ _ \<Rightarrow> 1 | _ \<Rightarrow> 0)\<rparr>, line))
      | ArmMoved totals \<Rightarrow>
          (w\<lparr>pw_ticking := True, pw_sampled := now, pw_state := panel_recount totals (pw_state w)\<rparr>, None)
      | ArmTick totals still \<Rightarrow>
          (if pw_ticking w
           then w\<lparr>pw_ticking := still, pw_state := panel_sample totals (now - pw_sampled w) (pw_state w), pw_sampled := now\<rparr>
           else w, None))"

section \<open>The screen\<close>

record Screen =
  sc_rows :: "string list"
  sc_width :: nat

definition new_screen :: Screen where "new_screen = \<lparr>sc_rows = [], sc_width = 0\<rparr>"

definition screen_lines :: "nat \<Rightarrow> nat \<Rightarrow> nat" where
  "screen_lines cols width = (if width = 0 then 1 else max 1 ((cols + (width - 1)) div width))"

definition CR :: string where "CR = [CHR 0x0D]"

definition screen_erase :: "Term \<Rightarrow> Screen \<Rightarrow> nat \<Rightarrow> string" where
  "screen_erase tm sc width =
     (if sc_rows sc = [] then []
      else let up = sum_list (map (\<lambda>row. screen_lines (columns tm row) width) (sc_rows sc)) - 1
           in CR @ (if 0 < up then ESC # ''['' @ show_nat up @ ''A'' else []) @ ESC # ''[J'')"

definition screen_put :: "Screen \<Rightarrow> string" where
  "screen_put sc = join_lines (sc_rows sc)"

definition screen_print :: "Term \<Rightarrow> string \<Rightarrow> nat \<Rightarrow> Screen \<Rightarrow> Screen \<times> string" where
  "screen_print tm line width sc = (sc, screen_erase tm sc width @ line @ NL @ screen_put sc)"

definition screen_draw :: "Term \<Rightarrow> string list \<Rightarrow> nat \<Rightarrow> Screen \<Rightarrow> Screen \<times> string" where
  "screen_draw tm rows width sc =
     (if rows = sc_rows sc \<and> width = sc_width sc then (sc, [])
      else let sc' = \<lparr>sc_rows = rows, sc_width = width\<rparr> in (sc', screen_erase tm sc width @ screen_put sc'))"

definition screen_release :: "Screen \<Rightarrow> Screen \<times> string" where
  "screen_release sc = (sc\<lparr>sc_rows := []\<rparr>, if sc_rows sc = [] then [] else NL)"

lemma screen_lines_one: "cols < width \<Longrightarrow> screen_lines cols width = 1"
proof -
  assume "cols < width"
  then have "(cols + (width - 1)) div width < 2" by (subst div_less_iff_less_mult) auto
  with \<open>cols < width\<close> show ?thesis by (simp add: screen_lines_def)
qed

lemma frame_nonempty: "frame tm lk rows cfg st now dims \<noteq> []"
  by (cases dims) (auto simp: frame_def fold_lines_def Let_def)


text \<open>A plain terminal, and a client of one service that has just been bound.\<close>

definition plain_term :: Term where
  "plain_term = \<lparr>tm_width = (\<lambda>_. Some 1), tm_paint = (\<lambda>_. ([], []))\<rparr>"

definition plain_style :: Style where
  "plain_style = \<lparr>st_color = False, st_unicode = False, st_accent = None, st_links = False\<rparr>"

definition web_config :: "nat ClientConfig" where
  "web_config = \<lparr>cc_server = ''example.org:4433'', cc_server_key = PublicKey (replicate 32 7), cc_key = None, cc_name = None,
     expose = [(''web'', \<lparr>x_local = ''127.0.0.1:80'', x_port = Any Tcp, x_allow = [], x_proxy_protocol = False\<rparr>)],
     cc_transport = default_client_transport\<rparr>"

definition web_panel :: "nat PanelShow" where
  "web_panel = \<lparr>pw_state = new_panel\<lparr>ps_link := LkUp ViaQuic (millis 12) 0,
       ps_answers := map (\<lambda>(service, x). (service, x, PaBound \<lparr>number = 8080, kind = Tcp\<rparr>)) (expose web_config)\<rparr>,
     pw_traffic = 0, pw_stopped = False, pw_connects = 1, pw_ticking = False, pw_sampled = 0\<rparr>"

definition web_frame :: "nat \<times> nat \<Rightarrow> string list" where
  "web_frame dims = panel_frame plain_term plain_style \<lparr>sn_cfg = web_config, sn_traffic = 0, sn_carried = []\<rparr> (secs 90) dims web_panel"


end
