(* ===== verification/Client_Status.thy ===== *)
theory Client_Status
  imports Client_Panel
begin

text \<open>
  \<open>hawse/src/status/client.rs\<close>, the client's half of \<open>hawse/src/notify.rs\<close>, and the loop of
  \<open>hawse/src/commands/client.rs\<close> that starts a client anew when a reload changes more than its
  services. The client's events reach three keepers: the panel, the model a status reply is made of,
  and the status line systemd shows. The first result is that the three never tell different stories
  about one session; the second that the figures of every client a process ran are counted once.
\<close>

section \<open>The status reply\<close>

datatype Answer = AnPending | AnBound string | AnRefused string

datatype LinkStatus = LsConnecting | LsUp string u64 nat string | LsDown nat nat string

record ServiceStatus =
  ss_name :: string
  ss_local :: string
  ss_port :: string
  ss_answer :: Answer
  ss_counts :: Counts

record ClientStatus =
  cs_version :: string
  cs_server :: string
  cs_up_s :: nat
  cs_link :: LinkStatus
  cs_services :: "ServiceStatus list"

record Model =
  m_link :: Link
  m_agent :: string
  m_cause :: string
  m_answers :: "(string, Answer) hmap"

definition new_model :: Model where
  "new_model = \<lparr>m_link = LkConnecting, m_agent = [], m_cause = [], m_answers = []\<rparr>"

definition model_apply :: "ClientEvent \<Rightarrow> instant \<Rightarrow> Model \<Rightarrow> Model" where
  "model_apply ev now m =
     (case ev of
        CeConnected _ transport _ agent round_trip \<Rightarrow>
          m\<lparr>m_link := LkUp transport round_trip now, m_agent := agent, m_answers := []\<rparr>
      | CeRoundTrip latest \<Rightarrow>
          (case m_link m of LkUp transport _ since \<Rightarrow> m\<lparr>m_link := LkUp transport latest since\<rparr> | _ \<Rightarrow> m)
      | CeBound service port \<Rightarrow> m\<lparr>m_answers := bput service (AnBound (port_to_string port)) (m_answers m)\<rparr>
      | CeBindFailed service why \<Rightarrow> m\<lparr>m_answers := bput service (AnRefused (bind_failure_text why)) (m_answers m)\<rparr>
      | CeDenied _ \<Rightarrow> m
      | CeDisconnected cause retry_in \<Rightarrow>
          m\<lparr>m_link :=
              (case retry_in of
                 Some wait \<Rightarrow> LkDown (case m_link m of LkDown since _ \<Rightarrow> since | _ \<Rightarrow> now) (now + wait)
               | None \<Rightarrow> LkStopped),
            m_cause := reason cause\<rparr>)"

definition model_reset :: "Model \<Rightarrow> Model" where
  "model_reset m = new_model"

definition as_secs :: "duration \<Rightarrow> nat" where "as_secs d = d div 1000000000"

definition millis_u64 :: "duration \<Rightarrow> u64" where
  "millis_u64 d = word_of_nat (min U64_MAX (d div 1000000))"

definition link_status :: "Model \<Rightarrow> instant \<Rightarrow> LinkStatus" where
  "link_status m now =
     (case m_link m of
        LkConnecting \<Rightarrow> LsConnecting
      | LkUp transport round_trip since \<Rightarrow>
          LsUp (via_to_string transport) (millis_u64 round_trip) (as_secs (now - since)) (m_agent m)
      | LkDown since retry_at \<Rightarrow> LsDown (as_secs (now - since)) (as_secs (retry_at - now)) (m_cause m)
      | LkStopped \<Rightarrow> LsDown 0 0 (m_cause m))"

definition service_status :: "Model \<Rightarrow> (string, Counts) hmap \<Rightarrow> string \<times> 'net Expose \<Rightarrow> ServiceStatus" where
  "service_status m totals = (\<lambda>(name, x).
     \<lparr>ss_name = name, ss_local = x_local x, ss_port = request_to_string (x_port x),
      ss_answer = (case hget (m_answers m) name of Some a \<Rightarrow> a | None \<Rightarrow> AnPending),
      ss_counts = counts_of totals name\<rparr>)"

definition model_snapshot :: "string \<Rightarrow> 'net ClientConfig \<Rightarrow> (string, Counts) hmap \<Rightarrow> duration \<Rightarrow> instant \<Rightarrow> Model \<Rightarrow> ClientStatus" where
  "model_snapshot VERSION cfg totals up now m =
     \<lparr>cs_version = VERSION, cs_server = cc_server cfg, cs_up_s = as_secs up, cs_link = link_status m now,
      cs_services = map (service_status m totals) (expose cfg)\<rparr>"

text \<open>\<open>keep\<close>: a new client resets the model before any event it sends; each event is taken in and passed on.\<close>

record StatusKeep =
  kp_traffic :: nat
  kp_model :: Model

definition keep_shown :: "'net Shown \<Rightarrow> StatusKeep \<Rightarrow> StatusKeep" where
  "keep_shown shown k =
     (if sn_traffic shown = kp_traffic k then k
      else k\<lparr>kp_traffic := sn_traffic shown, kp_model := model_reset (kp_model k)\<rparr>)"

definition keep_event :: "ClientEvent \<Rightarrow> instant \<Rightarrow> StatusKeep \<Rightarrow> StatusKeep \<times> ClientEvent" where
  "keep_event ev now k = (k\<lparr>kp_model := model_apply ev now (kp_model k)\<rparr>, ev)"

section \<open>The status line\<close>

datatype NotifyLink = NlConnecting | NlUp ClientTransportKind | NlDown string | NlStopped string

record 'net NotifyClient =
  nc_link :: NotifyLink
  nc_answers :: "(string, 'net Expose \<times> bool) hmap"

definition new_notify :: "'net NotifyClient" where
  "new_notify = \<lparr>nc_link = NlConnecting, nc_answers = []\<rparr>"

definition notify_answer :: "'net ClientConfig \<Rightarrow> string \<Rightarrow> bool \<Rightarrow> 'net NotifyClient \<Rightarrow> 'net NotifyClient" where
  "notify_answer cfg service bound c =
     (case hget (expose cfg) service of
        Some x \<Rightarrow> c\<lparr>nc_answers := bput service (x, bound) (nc_answers c)\<rparr>
      | None \<Rightarrow> c)"

definition notify_apply :: "'net ClientConfig \<Rightarrow> ClientEvent \<Rightarrow> 'net NotifyClient \<Rightarrow> 'net NotifyClient" where
  "notify_apply cfg ev c =
     (case ev of
        CeConnected _ transport _ _ _ \<Rightarrow> c\<lparr>nc_link := NlUp transport, nc_answers := []\<rparr>
      | CeBound service _ \<Rightarrow> notify_answer cfg service True c
      | CeBindFailed service _ \<Rightarrow> notify_answer cfg service False c
      | CeDisconnected cause retry_in \<Rightarrow>
          c\<lparr>nc_link := (case retry_in of Some _ \<Rightarrow> NlDown (reason cause) | None \<Rightarrow> NlStopped (reason cause))\<rparr>
      | CeDenied _ \<Rightarrow> c
      | CeRoundTrip _ \<Rightarrow> c)"

definition notify_answered :: "'net ClientConfig \<Rightarrow> 'net NotifyClient \<Rightarrow> bool list" where
  "notify_answered cfg c =
     map (snd \<circ> snd) (filter (\<lambda>(service, x, _). hget (expose cfg) service = Some x) (nc_answers c))"

definition notify_line :: "'net ClientConfig \<Rightarrow> 'net NotifyClient \<Rightarrow> string" where
  "notify_line cfg c =
     (case nc_link c of
        NlConnecting \<Rightarrow> ''connecting''
      | NlUp transport \<Rightarrow>
          (let up = ''connected over '' @ map upper (via_to_string transport);
               answered = notify_answered cfg c; bound = length (filter (\<lambda>b. b) answered); all = length answered;
               noun = (if all = 1 then ''service'' else ''services'')
           in if all = 0 then up
              else if all = bound then up @ '', '' @ show_nat all @ '' '' @ noun @ '' bound''
              else up @ '', '' @ show_nat bound @ '' of '' @ show_nat all @ '' '' @ noun @ '' bound'')
      | NlDown why \<Rightarrow> ''disconnected: '' @ why @ '', retrying''
      | NlStopped why \<Rightarrow> ''stopped: '' @ why)"

text \<open>The line last sent, and what is sent: the first with the news that the service is ready.\<close>

definition notify_ready :: "string \<Rightarrow> string \<times> string" where
  "notify_ready line = (line, ''READY=1'' @ NL @ ''STATUS='' @ line)"

definition notify_show :: "string \<Rightarrow> string \<Rightarrow> string \<times> string option" where
  "notify_show line sent = (if line \<noteq> sent then (line, Some (''STATUS='' @ line)) else (sent, None))"

section \<open>Three views of one session\<close>

text \<open>
  What reaches the keepers: an event of the client, or a reload, which replaces the configuration
  in force and, when it starts a new client, its traffic.
\<close>

datatype 'net view_op = VEvent ClientEvent instant | VShown "'net ClientConfig" nat

record 'net Views =
  vw_shown :: "'net Shown"
  vw_panel :: "'net PanelShow"
  vw_keep :: StatusKeep
  vw_notify :: "'net NotifyClient"

definition notify_shown :: "'net Shown \<Rightarrow> nat \<Rightarrow> 'net NotifyClient \<Rightarrow> 'net NotifyClient" where
  "notify_shown shown traffic c = (if sn_traffic shown = traffic then c else new_notify)"

fun view_step :: "(bytes \<Rightarrow> string) \<Rightarrow> Term \<Rightarrow> Style \<Rightarrow> 'net view_op \<Rightarrow> 'net Views \<Rightarrow> 'net Views" where
  "view_step encode64 tm st (VEvent ev now) v =
     v\<lparr>vw_panel := fst (panel_turn encode64 tm st (vw_shown v) (ArmEvent ev) now (vw_panel v)),
       vw_keep := fst (keep_event ev now (vw_keep v)),
       vw_notify := notify_apply (sn_cfg (vw_shown v)) ev (vw_notify v)\<rparr>"
| "view_step encode64 tm st (VShown cfg traffic) v =
     (let shown = (vw_shown v)\<lparr>sn_cfg := cfg, sn_traffic := traffic\<rparr>
      in v\<lparr>vw_shown := shown, vw_panel := panel_top shown (vw_panel v), vw_keep := keep_shown shown (vw_keep v),
           vw_notify := notify_shown shown (sn_traffic (vw_shown v)) (vw_notify v)\<rparr>)"

definition new_views :: "'net ClientConfig \<Rightarrow> instant \<Rightarrow> 'net Views" where
  "new_views cfg now =
     \<lparr>vw_shown = \<lparr>sn_cfg = cfg, sn_traffic = 0, sn_carried = []\<rparr>,
      vw_panel = \<lparr>pw_state = new_panel, pw_traffic = 0, pw_stopped = False, pw_connects = 0, pw_ticking = False, pw_sampled = now\<rparr>,
      vw_keep = \<lparr>kp_traffic = 0, kp_model = new_model\<rparr>, vw_notify = new_notify\<rparr>"

fun is_up :: "Link \<Rightarrow> bool" where
  "is_up (LkUp _ _ _) = True"
| "is_up _ = False"

fun answer_of :: "PanelAnswer \<Rightarrow> Answer" where
  "answer_of (PaBound port) = AnBound (port_to_string port)"
| "answer_of (PaRefused why) = AnRefused (bind_failure_text why)"

fun row_answer :: "Row \<Rightarrow> Answer" where
  "row_answer (RowBound port _ _ _) = AnBound (port_to_string port)"
| "row_answer (RowRefused why) = AnRefused (bind_failure_text why)"

fun row_bound :: "Row \<Rightarrow> bool" where
  "row_bound (RowBound _ _ _ _) = True"
| "row_bound (RowRefused _) = False"

fun panel_bound :: "PanelAnswer \<Rightarrow> bool" where
  "panel_bound (PaBound _) = True"
| "panel_bound (PaRefused _) = False"

fun notify_link :: "Link \<Rightarrow> NotifyLink \<Rightarrow> bool" where
  "notify_link LkConnecting l = (l = NlConnecting)"
| "notify_link (LkUp transport _ _) l = (l = NlUp transport)"
| "notify_link (LkDown _ _) l = (\<exists>why. l = NlDown why)"
| "notify_link LkStopped l = (\<exists>why. l = NlStopped why)"

definition views_agree :: "'net Views \<Rightarrow> bool" where
  "views_agree v =
     (let p = pw_state (vw_panel v); m = kp_model (vw_keep v); c = vw_notify v
      in m_link m = ps_link p \<and> notify_link (ps_link p) (nc_link c) \<and>
         kp_traffic (vw_keep v) = sn_traffic (vw_shown v) \<and> pw_traffic (vw_panel v) = sn_traffic (vw_shown v) \<and>
         bt_ok (ps_answers p) \<and> bt_ok (m_answers m) \<and>
         (is_up (ps_link p) \<longrightarrow>
            (\<forall>service x a. hget (ps_answers p) service = Some (x, a) \<longrightarrow> hget (m_answers m) service = Some (answer_of a)) \<and>
            nc_answers c = map (apsnd (apsnd panel_bound)) (ps_answers p)))"

lemma bput_map: "map (apsnd f) (bput k v m) = bput k (f v) (map (apsnd f) m)"
  by (induction k v m rule: bput.induct) auto

text \<open>Answers to a bind name services that are exposed when they arrive.\<close>

fun answer_exposed :: "'net ClientConfig \<Rightarrow> ClientEvent \<Rightarrow> bool" where
  "answer_exposed cfg (CeBound service _) = (hget (expose cfg) service \<noteq> None)"
| "answer_exposed cfg (CeBindFailed service _) = (hget (expose cfg) service \<noteq> None)"
| "answer_exposed cfg _ = True"

fun answers_exposed :: "'net ClientConfig \<Rightarrow> 'net view_op list \<Rightarrow> bool" where
  "answers_exposed cfg [] = True"
| "answers_exposed cfg (VEvent ev _ # ops) = (answer_exposed cfg ev \<and> answers_exposed cfg ops)"
| "answers_exposed cfg (VShown cfg' _ # ops) = answers_exposed cfg' ops"

lemmas view_event_defs = views_agree_def Let_def panel_turn_def panel_apply_def repeats_def panel_answer_def keep_event_def
  model_apply_def notify_apply_def notify_answer_def

lemma event_agrees:
  assumes ok: "views_agree v" and known: "answer_exposed (sn_cfg (vw_shown v)) ev"
  shows "views_agree (view_step encode64 tm st (VEvent ev now) v)"
proof (cases ev)
  case (CeBound service port)
  with known ok show ?thesis by (auto simp: view_event_defs hmap_simps bput_map)
next
  case (CeBindFailed service why)
  with known ok show ?thesis by (auto simp: view_event_defs hmap_simps bput_map)
next
  case (CeRoundTrip latest)
  with ok show ?thesis by (cases "ps_link (pw_state (vw_panel v))") (simp_all add: view_event_defs)
next
  case (CeDisconnected cause retry_in)
  with ok show ?thesis by (cases retry_in) (auto simp: view_event_defs)
qed (use ok in \<open>auto simp: view_event_defs\<close>)

lemma shown_agrees: "views_agree v \<Longrightarrow> views_agree (view_step encode64 tm st (VShown cfg traffic) v)"
  by (auto simp: views_agree_def Let_def panel_top_def keep_shown_def notify_shown_def model_reset_def new_model_def new_notify_def)

lemma views_run_agree:
  "views_agree v \<Longrightarrow> answers_exposed (sn_cfg (vw_shown v)) ops \<Longrightarrow> views_agree (fold (view_step encode64 tm st) ops v)"
proof (induction ops arbitrary: v)
  case (Cons op ops)
  show ?case
  proof (cases op)
    case (VEvent ev now)
    with Cons.prems have "views_agree (view_step encode64 tm st op v)" by (simp only: event_agrees answers_exposed.simps)
    with Cons VEvent show ?thesis by simp
  next
    case (VShown cfg traffic)
    with Cons.prems have "views_agree (view_step encode64 tm st op v)" by (simp only: shown_agrees)
    with Cons VShown show ?thesis by (simp add: Let_def)
  qed
qed simp

lemma new_views_agree: "views_agree (new_views cfg now)" "sn_cfg (vw_shown (new_views cfg now)) = cfg"
  by (simp_all add: views_agree_def new_views_def new_panel_def new_model_def new_notify_def)

lemma hget_rows:
  assumes "hm_ok (ps_answers s)" "hget (panel_rows cfg s) service = Some row"
  shows "\<exists>x a. hget (ps_answers s) service = Some (x, a) \<and> hget (expose cfg) service = Some x \<and> row_answer row = answer_of a"
proof -
  from map_of_SomeD [OF assms(2)] obtain x a where
    xa: "(service, x, a) \<in> set (ps_answers s)" "hget (expose cfg) service = Some x" "row_answer row = answer_of a"
    by (auto simp: panel_rows_def Let_def split: PanelAnswer.splits)
  then have "hget (ps_answers s) service = Some (x, a)" using assms(1) by (simp add: hm_ok_def)
  with xa show ?thesis by blast
qed

lemma rows_bound: "map (row_bound \<circ> snd) (panel_rows cfg s) =
   map (snd \<circ> snd) (filter (\<lambda>(service, x, _). hget (expose cfg) service = Some x) (map (apsnd (apsnd panel_bound)) (ps_answers s)))"
proof -
  have "map (row_bound \<circ> snd) (map (\<lambda>(service, _, a). (service, case a of PaRefused why \<Rightarrow> RowRefused why
        | PaBound port \<Rightarrow> let c = counts_of figs service in RowBound port (n_open c) (n_down c) (n_up c)))
       (filter (\<lambda>(service, x, _). hget (expose cfg) service = Some x) l)) =
    map (snd \<circ> snd) (filter (\<lambda>(service, x, _). hget (expose cfg) service = Some x) (map (apsnd (apsnd panel_bound)) l))" for figs l
    by (induction l) (auto simp: Let_def split: PanelAnswer.splits)
  then show ?thesis by (simp only: panel_rows_def)
qed


text \<open>
  The client of \<open>web_config\<close> connects and its service is bound; then a reload asks for another port.
\<close>

definition web_events :: "nat view_op list" where
  "web_events = [VEvent (CeConnected (SocketV4 1 4433) ViaQuic ''web1'' ''hawse/1'' 5) 1,
     VEvent (CeBound ''web'' \<lparr>number = 8080, kind = Tcp\<rparr>) 2]"

definition moved_config :: "nat ClientConfig" where
  "moved_config = web_config\<lparr>expose :=
     [(''web'', \<lparr>x_local = ''127.0.0.1:80'', x_port = Any Udp, x_allow = [], x_proxy_protocol = False\<rparr>)]\<rparr>"

definition web_views :: "nat view_op list \<Rightarrow> nat Views" where
  "web_views ops = fold (view_step (\<lambda>_. []) plain_term plain_style) ops (new_views web_config 0)"

lemmas web_defs = web_views_def web_events_def new_views_def web_config_def moved_config_def new_panel_def new_model_def new_notify_def

lemma web_up: "is_up (ps_link (pw_state (vw_panel (web_views web_events))))" "sn_cfg (vw_shown (web_views web_events)) = web_config"
  "notify_answered web_config (vw_notify (web_views web_events)) = [True]"
  by (simp_all add: web_defs view_event_defs notify_answered_def)


text \<open>
  What the panel does and the reply does not: a service whose settings a reload changed is taken off
  the panel until the server answers again, while the reply still gives the old answer for it.
\<close>

lemma reply_keeps_replaced_answer:
  defines "v \<equiv> web_views (web_events @ [VShown moved_config 0])"
  shows "panel_rows moved_config (pw_state (vw_panel v)) = []"
    "map ss_answer (cs_services (model_snapshot ''1'' moved_config [] 0 3 (kp_model (vw_keep v)))) = [AnBound (port_to_string \<lparr>number = 8080, kind = Tcp\<rparr>)]"
  by (simp_all add: v_def web_defs view_event_defs panel_rows_def panel_top_def keep_shown_def model_snapshot_def service_status_def)

section \<open>A process and its clients\<close>

text \<open>
  The loop of \<open>run\<close>: one client after another, each with its own traffic, and the totals of the
  finished ones carried over. \<open>PhEnding\<close> is a client told to end by a reload, whose tasks still run
  until it has; \<open>PhFinished\<close> one whose totals have been carried over. A status reply reads what
  \<open>shown\<close> holds, from another task, at any moment.
\<close>

datatype proc_phase = PhRunning | PhEnding | PhFinished

record 'net Proc =
  pr_cfg :: "'net ClientConfig"
  pr_next :: "'net ClientConfig option"
  pr_phase :: proc_phase
  pr_traffic :: Traffic
  pr_carried :: "(string, Counts) hmap"
  pr_shown :: "'net Shown"

definition carry :: "(string, Counts) hmap \<Rightarrow> (string, Counts) hmap \<Rightarrow> (string, Counts) hmap" where
  "carry totals m = fold (\<lambda>(service, c) m. bput service (add_assign c (counts_of m service)) m) totals m"

definition new_proc :: "'net ClientConfig \<Rightarrow> 'net Proc" where
  "new_proc cfg = \<lparr>pr_cfg = cfg, pr_next = None, pr_phase = PhRunning, pr_traffic = new_traffic, pr_carried = [],
     pr_shown = \<lparr>sn_cfg = cfg, sn_traffic = 1, sn_carried = []\<rparr>\<rparr>"

text \<open>\<open>None\<close>: the file did not load, and the running configuration stays in force.\<close>

definition proc_reload :: "'net ClientConfig option \<Rightarrow> 'net Proc \<Rightarrow> 'net Proc" where
  "proc_reload loaded p =
     (if pr_phase p \<noteq> PhRunning then p
      else case loaded of
        None \<Rightarrow> p
      | Some new \<Rightarrow>
          (let p = p\<lparr>pr_shown := (pr_shown p)\<lparr>sn_cfg := new\<rparr>\<rparr>
           in if needs_reconnect (pr_cfg p) new then p\<lparr>pr_phase := PhEnding, pr_next := Some new\<rparr>
              else p\<lparr>pr_cfg := new\<rparr>))"

definition proc_finish :: "'net Proc \<Rightarrow> 'net Proc" where
  "proc_finish p =
     (if pr_phase p = PhFinished then p
      else p\<lparr>pr_phase := PhFinished, pr_carried := carry (traffic_snapshot (pr_traffic p)) (pr_carried p)\<rparr>)"

definition proc_start :: "'net Proc \<Rightarrow> 'net Proc" where
  "proc_start p =
     (case pr_next p of
        Some cfg \<Rightarrow>
          if pr_phase p = PhFinished
          then p\<lparr>pr_cfg := cfg, pr_next := None, pr_phase := PhRunning, pr_traffic := new_traffic,
                 pr_shown := (pr_shown p)\<lparr>sn_traffic := Suc (sn_traffic (pr_shown p)), sn_carried := pr_carried p\<rparr>\<rparr>
          else p
      | None \<Rightarrow> p)"

definition status_totals :: "'net Proc \<Rightarrow> (string, Counts) hmap" where
  "status_totals p = carry (traffic_snapshot (pr_traffic p)) (sn_carried (pr_shown p))"

text \<open>What happens, with the operations on a client's meters that were carried out so far.\<close>

datatype 'net proc_op = PrMove traffic_op | PrReload "'net ClientConfig option" | PrFinish | PrStart

fun proc_step :: "'net proc_op \<Rightarrow> 'net Proc \<times> traffic_op list \<Rightarrow> 'net Proc \<times> traffic_op list" where
  "proc_step (PrMove op) (p, ms) =
     (if pr_phase p = PhFinished then (p, ms) else (p\<lparr>pr_traffic := traffic_step op (pr_traffic p)\<rparr>, ms @ [op]))"
| "proc_step (PrReload loaded) (p, ms) = (proc_reload loaded p, ms)"
| "proc_step PrFinish (p, ms) = (proc_finish p, ms)"
| "proc_step PrStart (p, ms) = (proc_start p, ms)"

definition all_moved :: "string \<Rightarrow> traffic_op list \<Rightarrow> Counts" where
  "all_moved service ms = fold (\<lambda>op. add_assign (traffic_gain service op)) ms zero_counts"

definition proc_ok :: "'net Proc \<times> traffic_op list \<Rightarrow> bool" where
  "proc_ok = (\<lambda>(p, ms).
     hm_ok (meters (pr_traffic p)) \<and> bt_ok (pr_carried p) \<and> bt_ok (sn_carried (pr_shown p)) \<and>
     (pr_phase p \<noteq> PhFinished \<longrightarrow> sn_carried (pr_shown p) = pr_carried p) \<and>
     (pr_phase p = PhFinished \<longrightarrow> pr_carried p = status_totals p) \<and>
     (\<forall>service. counts_of (status_totals p) service = all_moved service ms))"

lemma hm_ok_traffic_step: "hm_ok (meters t) \<Longrightarrow> hm_ok (meters (traffic_step op t))"
  by (cases op) (simp_all add: traffic_defs on_meter_def hm_ok_hput)

lemma add_zero [simp]: "add_assign zero_counts c = c" "add_assign c zero_counts = c"
  by (simp_all add: add_assign_def zero_counts_def)

lemma add_assign_assoc: "add_assign (add_assign a b) c = add_assign a (add_assign b c)"
  by (simp add: add_assign_def algebra_simps)

lemma carry_ok: "bt_ok m \<Longrightarrow> bt_ok (carry totals m)"
  unfolding carry_def by (induction totals arbitrary: m) (auto simp: hmap_simps)

lemma counts_of_bput: "bt_ok m \<Longrightarrow> counts_of (bput k c m) service = (if service = k then c else counts_of m service)"
  by (simp add: counts_of_def hmap_simps)

lemma counts_of_carry: "hm_ok totals \<Longrightarrow> bt_ok m \<Longrightarrow>
    counts_of (carry totals m) service = add_assign (counts_of totals service) (counts_of m service)"
proof (induction totals arbitrary: m)
  case (Cons sc totals)
  obtain s c where sc: "sc = (s, c)" by force
  have new: "hget totals s = None" using Cons.prems(1) by (simp add: sc hm_ok_def map_of_eq_None_iff)
  from Cons.IH [of "bput s (add_assign c (counts_of m s)) m"] Cons.prems
  have "counts_of (carry (sc # totals) m) service =
      add_assign (counts_of totals service) (counts_of (bput s (add_assign c (counts_of m s)) m) service)"
    by (simp add: sc carry_def hm_ok_def hmap_simps)
  with new Cons.prems(2) show ?case by (simp add: counts_of_bput sc) (simp add: counts_of_def)
qed (simp add: carry_def counts_of_def)

lemma counts_of_meters: "counts_of (traffic_snapshot t) service = meter_counts service t"
  by (simp add: counts_of_def traffic_snapshot_def meter_counts_def)

lemma status_totals_counts:
  "hm_ok (meters (pr_traffic p)) \<Longrightarrow> bt_ok (sn_carried (pr_shown p)) \<Longrightarrow>
   counts_of (status_totals p) service = add_assign (meter_counts service (pr_traffic p)) (counts_of (sn_carried (pr_shown p)) service)"
  unfolding status_totals_def
  by (subst counts_of_carry) (simp_all add: counts_of_meters, simp add: traffic_snapshot_def)

lemma new_traffic_carry [simp]: "carry (traffic_snapshot new_traffic) m = m"
  by (simp add: carry_def traffic_snapshot_def new_traffic_def)

lemma proc_move_ok:
  assumes "proc_ok (p, ms)" "pr_phase p \<noteq> PhFinished"
  shows "proc_ok (p\<lparr>pr_traffic := traffic_step op (pr_traffic p)\<rparr>, ms @ [op])"
proof -
  let ?p = "p\<lparr>pr_traffic := traffic_step op (pr_traffic p)\<rparr>"
  have ok: "hm_ok (meters (pr_traffic p))" "bt_ok (sn_carried (pr_shown p))"
    using assms(1) by (simp_all add: proc_ok_def)
  then have "counts_of (status_totals ?p) service = add_assign (traffic_gain service op) (counts_of (status_totals p) service)" for service
    by (simp add: status_totals_counts hm_ok_traffic_step traffic_step_gain add_assign_assoc)
  then show ?thesis
    using assms by (simp add: proc_ok_def hm_ok_traffic_step all_moved_def)
qed

lemma proc_reload_keeps:
  "status_totals (proc_reload loaded p) = status_totals p" "pr_carried (proc_reload loaded p) = pr_carried p"
  "pr_traffic (proc_reload loaded p) = pr_traffic p" "sn_carried (pr_shown (proc_reload loaded p)) = sn_carried (pr_shown p)"
  "pr_phase (proc_reload loaded p) = PhFinished \<longleftrightarrow> pr_phase p = PhFinished"
  by (simp_all add: proc_reload_def status_totals_def Let_def split: option.split)

lemma proc_finish_ok: "proc_ok (p, ms) \<Longrightarrow> proc_ok (proc_finish p, ms)"
  by (cases "pr_phase p = PhFinished") (auto simp: proc_ok_def proc_finish_def status_totals_def carry_ok)

lemma proc_start_ok: "proc_ok (p, ms) \<Longrightarrow> proc_ok (proc_start p, ms)"
proof (cases "pr_phase p = PhFinished \<and> pr_next p \<noteq> None")
  case True
  assume ok: "proc_ok (p, ms)"
  with True have "counts_of (pr_carried p) service = all_moved service ms" "bt_ok (pr_carried p)" for service
    by (auto simp: proc_ok_def)
  then show ?thesis using True
    by (auto simp: proc_ok_def proc_start_def status_totals_def) (simp add: new_traffic_def hm_ok_def)
qed (auto simp: proc_start_def split: option.splits)

lemma proc_step_ok: "proc_ok st \<Longrightarrow> proc_ok (proc_step op st)"
proof -
  assume ok: "proc_ok st"
  obtain p ms where st: "st = (p, ms)" by force
  show ?thesis
  proof (cases op)
    case (PrMove m)
    with ok show ?thesis by (simp add: st proc_move_ok)
  next
    case (PrReload loaded)
    with ok show ?thesis by (simp add: st proc_ok_def proc_reload_keeps)
  qed (use ok in \<open>simp_all add: st proc_finish_ok proc_start_ok\<close>)
qed

interpretation processes: machine proc_step proc_ok
  by unfold_locales (rule proc_step_ok)



end
