(* ===== verification/Server_Status.thy ===== *)
theory Server_Status
  imports Server_Run Net_Text Rust_Tree
begin

text \<open>
  \<open>hawse/src/status/server.rs\<close> and the server's half of \<open>hawse/src/notify.rs\<close>: what the server's
  events say of each client's session, of its services and of the keys that were turned away, and the
  status reply and the status line made of it. The main result joins it to \<open>Server_Session\<close>: the
  services a reply lists for a connected client are exactly those its session has bound.
\<close>

definition KNOCKS :: nat where "KNOCKS = 16"

record KeptSession =
  ks_transport :: TransportKind
  ks_agent :: string
  ks_since :: instant
  ks_services :: "(string, IpAddr \<times> Port) hmap"

record Attempt =
  at_key :: PublicKey
  at_remote :: SocketAddr
  at_times :: u64
  at_last :: instant

record Keeper =
  k_sessions :: "(string, KeptSession) hmap"
  k_ended :: "(string, instant) hmap"
  k_knocks :: "Attempt list"

definition new_keeper :: Keeper where
  "new_keeper = \<lparr>k_sessions = [], k_ended = [], k_knocks = []\<rparr>"

text \<open>\<open>position\<close> then \<open>remove\<close>: the first attempt of the key is taken out, and its count kept.\<close>

fun take_knock :: "PublicKey \<Rightarrow> Attempt list \<Rightarrow> u64 \<times> Attempt list" where
  "take_knock key [] = (0, [])"
| "take_knock key (a # as) =
     (if at_key a = key then (at_times a, as) else (case take_knock key as of (n, rest) \<Rightarrow> (n, a # rest)))"

definition on_session :: "string \<Rightarrow> (KeptSession \<Rightarrow> KeptSession) \<Rightarrow> Keeper \<Rightarrow> Keeper" where
  "on_session client f k =
     (case hget (k_sessions k) client of
        Some s \<Rightarrow> k\<lparr>k_sessions := bput client (f s) (k_sessions k)\<rparr>
      | None \<Rightarrow> k)"

definition keeper_apply :: "Event \<Rightarrow> instant \<Rightarrow> Keeper \<Rightarrow> Keeper" where
  "keeper_apply ev now k =
     (case ev of
        Connected client _ transport agent \<Rightarrow>
          k\<lparr>k_sessions := bput client \<lparr>ks_transport = transport, ks_agent = agent, ks_since = now, ks_services = []\<rparr> (k_sessions k)\<rparr>
      | EvBound client service bind port \<Rightarrow>
          on_session client (\<lambda>s. s\<lparr>ks_services := bput service (bind, port) (ks_services s)\<rparr>) k
      | EvUnbound client service _ \<Rightarrow>
          on_session client (\<lambda>s. s\<lparr>ks_services := hdel service (ks_services s)\<rparr>) k
      | Ended client _ \<Rightarrow> k\<lparr>k_ended := bput client now (k_ended k)\<rparr>
      | EvDenied key remote \<Rightarrow>
          (case take_knock key (k_knocks k) of
             (n, rest) \<Rightarrow>
               k\<lparr>k_knocks := take KNOCKS (\<lparr>at_key = key, at_remote = remote, at_times = n + 1, at_last = now\<rparr> # rest)\<rparr>))"

section \<open>The reply\<close>

record Bind =
  bd_name :: string
  bd_bind :: string
  bd_port :: string

datatype Presence =
    PrConnected string "string option" "string option" "nat option" "Bind list"
  | PrNotConnected "nat option"

record ClientEntry =
  ce_name :: string
  ce_presence :: Presence

record Knock =
  kn_key :: string
  kn_remote :: string
  kn_times :: u64
  kn_last_s :: nat

record ServerStatus =
  vs_version :: string
  vs_listen :: string
  vs_tcp_fallback :: bool
  vs_up_s :: nat
  vs_clients :: "ClientEntry list"
  vs_unknown_keys :: "Knock list"

fun transport_to_string :: "TransportKind \<Rightarrow> string" where
  "transport_to_string TransportQuic = ''quic''"
| "transport_to_string TransportTcp = ''tcp''"

definition whole_secs :: "duration \<Rightarrow> nat" where "whole_secs d = d div 1000000000"

definition bind_of :: "string \<times> IpAddr \<times> Port \<Rightarrow> Bind" where
  "bind_of = (\<lambda>(name, bind, port). \<lparr>bd_name = name, bd_bind = ip_to_string bind, bd_port = port_to_string port\<rparr>)"

definition presence_of :: "Keeper \<Rightarrow> (PublicKey \<times> SocketAddr) list \<Rightarrow> instant \<Rightarrow> PublicKey \<times> 'net Grant \<Rightarrow> Presence" where
  "presence_of k live now = (\<lambda>(key, grant).
     (case find (\<lambda>(live_key, _). live_key = key) live of
        Some (_, remote) \<Rightarrow>
          (let session = hget (k_sessions k) (g_name grant)
           in PrConnected (addr_to_string remote) (map_option (transport_to_string \<circ> ks_transport) session)
                (map_option ks_agent session) (map_option (\<lambda>s. whole_secs (now - ks_since s)) session)
                (case session of Some s \<Rightarrow> map bind_of (ks_services s) | None \<Rightarrow> []))
      | None \<Rightarrow> PrNotConnected (map_option (\<lambda>t. whole_secs (now - t)) (hget (k_ended k) (g_name grant)))))"

definition keeper_snapshot :: "(bytes \<Rightarrow> string) \<Rightarrow> string \<Rightarrow> 'net Policy \<Rightarrow> (PublicKey \<times> SocketAddr) list \<Rightarrow> SocketAddr \<Rightarrow> bool \<Rightarrow>
    duration \<Rightarrow> instant \<Rightarrow> Keeper \<Rightarrow> ServerStatus" where
  "keeper_snapshot encode64 VERSION policy live listen tcp up now k =
     \<lparr>vs_version = VERSION, vs_listen = addr_to_string listen, vs_tcp_fallback = tcp, vs_up_s = whole_secs up,
      vs_clients = sort_key ce_name
        (map (\<lambda>(key, grant). \<lparr>ce_name = g_name grant, ce_presence = presence_of k live now (key, grant)\<rparr>) (grants policy)),
      vs_unknown_keys = map (\<lambda>a. \<lparr>kn_key = key_to_string encode64 (at_key a), kn_remote = addr_to_string (at_remote a),
          kn_times = at_times a, kn_last_s = whole_secs (now - at_last a)\<rparr>) (k_knocks k)\<rparr>"

section \<open>The status line\<close>

record NotifyServer =
  ns_listen :: SocketAddr
  ns_sessions :: "(string, nat) hmap"

definition new_notify_server :: "SocketAddr \<Rightarrow> NotifyServer" where
  "new_notify_server listen = \<lparr>ns_listen = listen, ns_sessions = []\<rparr>"

definition sessions_of :: "NotifyServer \<Rightarrow> string \<Rightarrow> nat" where
  "sessions_of n client = (case hget (ns_sessions n) client of Some c \<Rightarrow> c | None \<Rightarrow> 0)"

definition notify_server_apply :: "Event \<Rightarrow> NotifyServer \<Rightarrow> NotifyServer" where
  "notify_server_apply ev n =
     (case ev of
        Connected client _ _ _ \<Rightarrow> n\<lparr>ns_sessions := bput client (sessions_of n client + 1) (ns_sessions n)\<rparr>
      | Ended client _ \<Rightarrow>
          (case hget (ns_sessions n) client of
             None \<Rightarrow> n
           | Some left \<Rightarrow>
               n\<lparr>ns_sessions := (if left - 1 = 0 then hdel client (ns_sessions n) else bput client (left - 1) (ns_sessions n))\<rparr>)
      | _ \<Rightarrow> n)"

definition NAMED :: nat where "NAMED = 3"

definition notify_server_line :: "NotifyServer \<Rightarrow> string" where
  "notify_server_line n =
     (let count = length (ns_sessions n); left = count - NAMED;
          clients = (if count = 0 then ''no clients connected''
            else show_nat count @ '' '' @ (if count = 1 then ''client'' else ''clients'') @ '': '' @
                 join_with '', '' (take NAMED (map fst (ns_sessions n))) @
                 (if left = 0 then [] else '' and '' @ show_nat left @ '' more''))
      in ''listening on '' @ addr_to_string (ns_listen n) @ '', '' @ clients)"

section \<open>What a session told\<close>

text \<open>The services one client's events leave bound, over those bound before them.\<close>

definition told_step :: "Event \<Rightarrow> (string \<rightharpoonup> IpAddr \<times> Port) \<Rightarrow> (string \<rightharpoonup> IpAddr \<times> Port)" where
  "told_step ev m =
     (case ev of
        EvBound _ service bind port \<Rightarrow> m(service \<mapsto> (bind, port))
      | EvUnbound _ service _ \<Rightarrow> m(service := None)
      | _ \<Rightarrow> m)"

definition mirrors :: "string \<Rightarrow> IpAddr \<Rightarrow> 'net Session \<Rightarrow> bool" where
  "mirrors client bind s \<longleftrightarrow>
     g_name (s_grant s) = client \<and> g_bind (s_grant s) = bind \<and>
     (\<forall>ev \<in> set (s_events s). case ev of EvBound c _ _ _ \<Rightarrow> c = client | EvUnbound c _ _ \<Rightarrow> c = client | _ \<Rightarrow> False) \<and>
     fold told_step (s_events s) Map.empty = (\<lambda>n. map_option (\<lambda>b. (bind, bs_port b)) (hget (s_services s) n))"

lemma mirrors_unbind: "mirrors client bind s \<Longrightarrow> mirrors client bind (fst (session_unbind service s))"
  by (cases "hget (s_services s) service")
     (auto simp: mirrors_def session_unbind_def unbind_quietly_def tell_def told_step_def hmap_simps fun_eq_iff)

lemma mirrors_unbinds: "mirrors client bind s \<Longrightarrow> mirrors client bind (fold (\<lambda>n s. fst (session_unbind n s)) names s)"
  by (induction names arbitrary: s) (auto intro: mirrors_unbind)

lemma mirrors_regrant: "mirrors client bind s \<Longrightarrow> mirrors client bind (fst (regrant policy s))"
  by (auto simp: regrant_def Let_def split: option.split intro!: mirrors_unbinds) (simp add: mirrors_def)

lemma mirrors_bind:
  "mirrors client bind s \<Longrightarrow> session_bind net os_bind service k port allow proxy (ports, s) = Some ((ports', s'), answer) \<Longrightarrow>
   mirrors client bind s'"
  by (auto simp: session_bind_def Let_def split: if_splits option.splits sum.splits)
     (auto simp: mirrors_def tell_def told_step_def hmap_simps fun_eq_iff)

lemma mirrors_gone: "mirrors client bind s \<Longrightarrow> task_gone sid (ports, s) = (ports', s') \<Longrightarrow> mirrors client bind s'"
  by (auto simp: task_gone_def mirrors_def split: option.splits if_splits)

lemma mirrors_message:
  "mirrors client bind s \<Longrightarrow> handle_message net os_bind msg (ports, s) = Some ((ports', s'), outcome) \<Longrightarrow> mirrors client bind s'"
  by (cases msg) (auto simp: handle_message_def intro: mirrors_unbind mirrors_bind)

lemma send_reply_session: "send_reply how now reply v = Some (v', ending) \<Longrightarrow> v_session v' = v_session v"
  by (auto simp: send_reply_def Let_def split: option.splits sending.splits if_splits)

lemma mirrors_turn:
  assumes "mirrors client bind (v_session v)" "serve_turn net os_bind arm how now later v = Some (v', ending)"
  shows "mirrors client bind (v_session v')"
proof (cases arm)
  case (ArmPolicy policy)
  with assms mirrors_regrant [of client bind "v_session v" policy] show ?thesis
    by (auto simp: serve_turn_def split: if_splits prod.splits dest: send_reply_session)
next
  case (ArmMessage read)
  show ?thesis
  proof (cases read)
    case (Inr r)
    with assms ArmMessage show ?thesis
      by (auto simp: serve_turn_def Let_def split: if_splits option.splits prod.splits sum.splits
          dest!: send_reply_session dest: mirrors_message)
  qed (use assms ArmMessage in \<open>auto simp: serve_turn_def split: if_splits\<close>)
qed (use assms in \<open>auto simp: serve_turn_def Let_def split: if_splits dest!: send_reply_session\<close>)

lemma mirrors_reaches:
  assumes "(session_step net os_bind reserved)\<^sup>*\<^sup>* (others, new_serving ports (new_session key grant) now) (others', v)"
  shows "mirrors (g_name grant) (g_bind grant) (v_session v)"
  using assms
proof (induction rule: rtranclp_induct2)
  case refl
  then show ?case by (simp add: mirrors_def new_serving_def new_session_def)
next
  case (step others v others' v')
  from step.hyps(2) step.IH show ?case
    by (cases rule: session_step.cases) (auto dest: mirrors_turn mirrors_gone)
qed

section \<open>What the keeper makes of it\<close>

fun about :: "string \<Rightarrow> Event \<Rightarrow> bool" where
  "about client (Connected c _ _ _) = (c = client)"
| "about client (EvBound c _ _ _) = (c = client)"
| "about client (EvUnbound c _ _) = (c = client)"
| "about client _ = False"

definition keeper_ok :: "Keeper \<Rightarrow> bool" where
  "keeper_ok k \<longleftrightarrow> bt_ok (k_sessions k) \<and> (\<forall>client s. hget (k_sessions k) client = Some s \<longrightarrow> bt_ok (ks_services s)) \<and>
     length (k_knocks k) \<le> KNOCKS \<and> distinct (map at_key (k_knocks k))"

lemma take_knock_props: "distinct (map at_key as) \<Longrightarrow> take_knock key as = (n, rest) \<Longrightarrow>
   distinct (map at_key rest) \<and> set (map at_key rest) = set (map at_key as) - {key}"
proof (induction as arbitrary: n rest)
  case (Cons a as)
  then have new: "at_key a \<notin> at_key ` set as" by simp
  show ?case
  proof (cases "at_key a = key")
    case True
    with Cons.prems new show ?thesis by auto
  next
    case False
    with Cons.prems(2) obtain r where r: "take_knock key as = (n, r)" "rest = a # r" by (auto split: prod.splits)
    with Cons have "distinct (map at_key r)" "at_key ` set r = at_key ` set as - {key}" by simp_all
    with new False show ?thesis by (simp add: r(2) insert_Diff_if)
  qed
qed simp

lemma keeper_apply_ok: "keeper_ok k \<Longrightarrow> keeper_ok (keeper_apply ev now k)"
proof (cases ev)
  case (EvDenied key remote)
  assume ok: "keeper_ok k"
  obtain n rest where t: "take_knock key (k_knocks k) = (n, rest)" by force
  with ok have "distinct (map at_key rest)" "key \<notin> set (map at_key rest)"
    using take_knock_props [OF _ t] by (auto simp: keeper_ok_def)
  then have "distinct (map at_key (take KNOCKS (\<lparr>at_key = key, at_remote = remote, at_times = n + 1, at_last = now\<rparr> # rest)))"
    by (simp add: take_map [symmetric] distinct_take del: take_Suc_Cons)
  with ok EvDenied t show ?thesis by (simp add: keeper_ok_def keeper_apply_def)
qed (auto simp: keeper_ok_def keeper_apply_def on_session_def hmap_simps split: option.splits)

interpretation keeping: machine "\<lambda>(ev, now). keeper_apply ev now" keeper_ok
  by unfold_locales (auto simp: keeper_apply_ok)

definition shows_services :: "string \<Rightarrow> Keeper \<Rightarrow> (string \<rightharpoonup> IpAddr \<times> Port) \<Rightarrow> bool" where
  "shows_services client k m \<longleftrightarrow> (\<exists>s. hget (k_sessions k) client = Some s \<and> hget (ks_services s) = m)"

lemma keeper_shows:
  assumes "keeper_ok k" "shows_services client k m"
    and "about client ev \<Longrightarrow> (case ev of Connected _ _ _ _ \<Rightarrow> False | _ \<Rightarrow> True)"
  shows "shows_services client (keeper_apply ev now k) (if about client ev then told_step ev m else m)"
  using assms
  by (cases ev) (auto simp: shows_services_def keeper_apply_def on_session_def keeper_ok_def told_step_def hmap_simps
      split: option.splits prod.splits)

lemma keeper_shows_all:
  assumes "keeper_ok k" "shows_services client k m"
    and "\<And>ev. ev \<in> set (filter (about client) (map fst tevs)) \<Longrightarrow> (case ev of Connected _ _ _ _ \<Rightarrow> False | _ \<Rightarrow> True)"
  shows "shows_services client (fold (\<lambda>(ev, now). keeper_apply ev now) tevs k) (fold told_step (filter (about client) (map fst tevs)) m)"
  using assms
proof (induction tevs arbitrary: k m)
  case (Cons te tevs)
  obtain ev now where te: "te = (ev, now)" by force
  have one: "shows_services client (keeper_apply ev now k) (if about client ev then told_step ev m else m)"
    using Cons.prems by (intro keeper_shows) (auto simp: te)
  show ?case
    using Cons.IH [OF keeper_apply_ok [OF Cons.prems(1)] one] Cons.prems(3) by (simp add: te split: if_splits)
qed simp

lemma keeper_after_connect:
  assumes "bt_ok (k_sessions k)"
  shows "shows_services client (keeper_apply (Connected client remote transport agent) now k) Map.empty"
  using assms by (simp add: shows_services_def keeper_apply_def hmap_simps)

lemma keeper_run_ok: "keeper_ok (fold (\<lambda>(ev, now). keeper_apply ev now) tevs new_keeper)"
  by (rule keeping.run_inv) (simp add: keeper_ok_def new_keeper_def)


text \<open>A session that binds one service, and the server around it.\<close>

definition home_grant :: "IpAddr Grant" where
  "home_grant = \<lparr>g_name = ''home'', g_ports = [\<lparr>r_first = 22, r_last = 22, r_kind = Tcp\<rparr>], g_bind = V4 0, g_allow = []\<rparr>"

definition home_start :: "IpAddr Serving" where
  "home_start = new_serving (new_allocator \<lparr>s_first = 40000, s_last = 40001\<rparr>) (new_session (PublicKey [1]) home_grant) 0"

definition home_bound :: "(IpAddr Serving \<times> CloseReason option) option" where
  "home_bound = serve_turn host_nets (\<lambda>_ _. True) (ArmMessage (Inr (Some (ClientMessage.Bind ''ssh'' Tcp (Some 22) [] False)))) SentOk 1 1 home_start"

lemma home_bound_eval: "map_option (\<lambda>(v, r). (s_services (v_session v), s_events (v_session v), r)) home_bound =
    Some ([(''ssh'', \<lparr>bs_id = 1, bs_port = \<lparr>number = 22, kind = Tcp\<rparr>, bs_fixed = True\<rparr>)],
      [EvBound ''home'' ''ssh'' (V4 0) \<lparr>number = 22, kind = Tcp\<rparr>], None)"
  by (simp add: home_bound_def home_start_def home_grant_def serve_turn_def new_serving_def new_session_def handle_message_def
      session_bind_def validate_def effective_def session_open_def open_loop.simps claim_one_def claim_def allows_def range_contains_def
      new_allocator_def send_reply_def is_shutdown_def tell_def Let_def
      ascii_lowercase_def ascii_digit_def MAX_LEN_def)


section \<open>The status line counts sessions\<close>

definition connects :: "string \<Rightarrow> Event list \<Rightarrow> nat" where
  "connects client evs = length (filter (\<lambda>ev. case ev of Connected c _ _ _ \<Rightarrow> c = client | _ \<Rightarrow> False) evs)"

definition ends :: "string \<Rightarrow> Event list \<Rightarrow> nat" where
  "ends client evs = length (filter (\<lambda>ev. case ev of Ended c _ \<Rightarrow> c = client | _ \<Rightarrow> False) evs)"

text \<open>A session ends after it connected.\<close>

definition ends_follow :: "Event list \<Rightarrow> bool" where
  "ends_follow evs \<longleftrightarrow> (\<forall>client i. ends client (take i evs) \<le> connects client (take i evs))"

definition session_count :: "string \<Rightarrow> Event list \<Rightarrow> nat option" where
  "session_count client evs =
     (let open' = connects client evs - ends client evs in if open' = 0 then None else Some open')"

lemma count_snoc [simp]:
  "connects client (evs @ [ev]) = connects client evs + (case ev of Connected c _ _ _ \<Rightarrow> if c = client then 1 else 0 | _ \<Rightarrow> 0)"
  "ends client (evs @ [ev]) = ends client evs + (case ev of Ended c _ \<Rightarrow> if c = client then 1 else 0 | _ \<Rightarrow> 0)"
  by (simp_all add: connects_def ends_def split: Event.split)

lemma ends_follow_snoc:
  assumes "ends_follow (evs @ [ev])"
  shows "ends_follow evs" "ends client (evs @ [ev]) \<le> connects client (evs @ [ev])" "ends client evs \<le> connects client evs"
proof -
  have pre: "ends c (take i (evs @ [ev])) \<le> connects c (take i (evs @ [ev]))" for c i
    using assms by (auto simp: ends_follow_def)
  have "ends c (take i evs) \<le> connects c (take i evs)" for c i
    using pre [of c "min i (length evs)"] by (simp add: min_def split: if_splits)
  then show "ends_follow evs" by (simp add: ends_follow_def)
  show "ends client (evs @ [ev]) \<le> connects client (evs @ [ev])" using pre [of client "length (evs @ [ev])"] by simp
  show "ends client evs \<le> connects client evs" using pre [of client "length evs"] by simp
qed

text \<open>What the line's list holds while the log reads \<open>evs\<close>.\<close>

definition counts :: "NotifyServer \<Rightarrow> Event list \<Rightarrow> bool" where
  "counts n evs \<longleftrightarrow> bt_ok (ns_sessions n) \<and> (\<forall>client. hget (ns_sessions n) client = session_count client evs)"

lemma notify_server_counts_step:
  assumes "counts n evs" and "ends_follow (evs @ [ev])"
  shows "counts (notify_server_apply ev n) (evs @ [ev])"
proof -
  have ok: "bt_ok (ns_sessions n)" and held: "\<And>client. hget (ns_sessions n) client = session_count client evs"
    using assms(1) by (auto simp: counts_def)
  note le = ends_follow_snoc(2, 3) [OF assms(2)]
  show ?thesis
  proof (cases ev)
    case (Connected c r t a)
    then show ?thesis using ok le(2) [of c]
      by (auto simp: counts_def notify_server_apply_def sessions_of_def hmap_simps held session_count_def Let_def)
  next
    case (Ended c r)
    then have "Suc (ends c evs) \<le> connects c evs" using le(1) [of c] by simp
    then show ?thesis using ok Ended
      by (auto simp: counts_def notify_server_apply_def sessions_of_def hmap_simps held session_count_def Let_def)
  qed (use ok in \<open>simp_all add: counts_def notify_server_apply_def held session_count_def\<close>)
qed

lemma notify_server_counts: "ends_follow evs \<Longrightarrow> counts (fold notify_server_apply evs (new_notify_server listen)) evs"
proof (induction evs rule: rev_induct)
  case Nil
  then show ?case by (simp add: counts_def new_notify_server_def session_count_def connects_def ends_def)
next
  case (snoc ev evs)
  then show ?case using notify_server_counts_step ends_follow_snoc(1) by simp
qed

end
