(* ===== verification/Net_Parse.thy ===== *)
theory Net_Parse
  imports Net_Text Terminal
begin

text \<open>
  How \<open>std::net\<close> reads an address from text (\<open>core::net::parser\<close>): a parser takes what it can from the
  front of a text and gives the rest, and a text is an address if nothing is left. The text form an IPv4
  address is written in reads back.
\<close>

definition to_digit :: "nat \<Rightarrow> char \<Rightarrow> nat option" where
  "to_digit radix c =
     (let n = of_char c;
          d = (if 48 \<le> n \<and> n < 58 then n - 48 else if 97 \<le> n \<and> n < 123 then n - 87 else if 65 \<le> n \<and> n < 91 then n - 55 else radix)
      in if d < radix then Some d else None)"

fun digits_loop :: "nat \<Rightarrow> nat \<Rightarrow> nat option \<Rightarrow> nat \<Rightarrow> nat \<Rightarrow> string \<Rightarrow> (nat \<times> nat \<times> string) option" where
  "digits_loop radix bound most count n [] = Some (count, n, [])"
| "digits_loop radix bound most count n (c # cs) =
     (case to_digit radix c of
        None \<Rightarrow> Some (count, n, c # cs)
      | Some d \<Rightarrow>
          (let n = n * radix + d
           in if bound \<le> n then None
              else if (case most of Some m \<Rightarrow> m < Suc count | None \<Rightarrow> False) then None
              else digits_loop radix bound most (Suc count) n cs))"

definition read_number :: "nat \<Rightarrow> nat \<Rightarrow> nat option \<Rightarrow> bool \<Rightarrow> string \<Rightarrow> (nat \<times> string) option" where
  "read_number radix bound most allow_zero_prefix s =
     (case digits_loop radix bound most 0 0 s of
        None \<Rightarrow> None
      | Some (count, n, rest) \<Rightarrow>
          (if count = 0 then None
           else if \<not> allow_zero_prefix \<and> hd s = CHR ''0'' \<and> 1 < count then None
           else Some (n, rest)))"

fun read_given_char :: "char \<Rightarrow> string \<Rightarrow> string option" where
  "read_given_char c [] = None"
| "read_given_char c (x # xs) = (if x = c then Some xs else None)"

definition read_separator :: "char \<Rightarrow> nat \<Rightarrow> (string \<Rightarrow> ('a \<times> string) option) \<Rightarrow> string \<Rightarrow> ('a \<times> string) option" where
  "read_separator c i inner s = (if i = 0 then inner s else Option.bind (read_given_char c s) inner)"

fun read_octets :: "nat \<Rightarrow> nat \<Rightarrow> string \<Rightarrow> (nat list \<times> string) option" where
  "read_octets i 0 s = Some ([], s)"
| "read_octets i (Suc left) s =
     Option.bind (read_separator CHR ''.'' i (read_number 10 256 (Some 3) False) s) (\<lambda>(n, s).
       map_option (\<lambda>(ns, s). (n # ns, s)) (read_octets (Suc i) left s))"

definition read_ipv4 :: "string \<Rightarrow> (nat list \<times> string) option" where "read_ipv4 s = read_octets 0 4 s"

text \<open>The groups of an IPv6 address, \<open>left\<close> of them to go; the last two may be an IPv4 address.\<close>

fun read_groups :: "nat \<Rightarrow> nat \<Rightarrow> string \<Rightarrow> nat list \<times> bool \<times> string" where
  "read_groups i 0 s = ([], False, s)"
| "read_groups i (Suc left) s =
     (case (if 0 < left then read_separator CHR '':'' i read_ipv4 s else None) of
        Some (octets, rest) \<Rightarrow> ([octets ! 0 * 256 + octets ! 1, octets ! 2 * 256 + octets ! 3], True, rest)
      | None \<Rightarrow>
          (case read_separator CHR '':'' i (read_number 16 65536 (Some 4) True) s of
             None \<Rightarrow> ([], False, s)
           | Some (g, rest) \<Rightarrow> (case read_groups (Suc i) left rest of (gs, v4, rest) \<Rightarrow> (g # gs, v4, rest))))"

definition read_ipv6 :: "string \<Rightarrow> (nat list \<times> string) option" where
  "read_ipv6 s =
     (case read_groups 0 8 s of
        (head, head_ipv4, rest) \<Rightarrow>
          (if length head = 8 then Some (head, rest)
           else if head_ipv4 then None
           else Option.bind (read_given_char CHR '':'' rest) (\<lambda>rest.
                Option.bind (read_given_char CHR '':'' rest) (\<lambda>rest.
                case read_groups 0 (8 - (length head + 1)) rest of
                  (tail, _, rest) \<Rightarrow> Some (head @ replicate (8 - length head - length tail) 0 @ tail, rest)))))"

definition of_digits :: "nat \<Rightarrow> nat list \<Rightarrow> nat" where "of_digits base ns = fold (\<lambda>d n. n * base + d) ns 0"

definition read_ip :: "string \<Rightarrow> (IpAddr \<times> string) option" where
  "read_ip s =
     (case read_ipv4 s of
        Some (ns, rest) \<Rightarrow> Some (V4 (word_of_nat (of_digits 256 ns)), rest)
      | None \<Rightarrow> map_option (\<lambda>(gs, rest). (V6 (word_of_nat (of_digits 65536 gs)), rest)) (read_ipv6 s))"

definition read_port :: "string \<Rightarrow> (u16 \<times> string) option" where
  "read_port s = Option.bind (read_given_char CHR '':'' s) (\<lambda>s.
     map_option (\<lambda>(n, s). (word_of_nat n, s)) (read_number 10 65536 None True s))"

definition read_scope_id :: "string \<Rightarrow> (u32 \<times> string) option" where
  "read_scope_id s = Option.bind (read_given_char CHR ''%'' s) (\<lambda>s.
     map_option (\<lambda>(n, s). (word_of_nat n, s)) (read_number 10 4294967296 None True s))"

definition read_addr_v4 :: "string \<Rightarrow> (SocketAddr \<times> string) option" where
  "read_addr_v4 s = Option.bind (read_ipv4 s) (\<lambda>(ns, s).
     map_option (\<lambda>(p, s). (SocketV4 (word_of_nat (of_digits 256 ns)) p, s)) (read_port s))"

definition read_addr_v6 :: "string \<Rightarrow> (SocketAddr \<times> string) option" where
  "read_addr_v6 s = Option.bind (read_given_char CHR ''['' s) (\<lambda>s. Option.bind (read_ipv6 s) (\<lambda>(gs, s).
     case (case read_scope_id s of Some (scope, s) \<Rightarrow> (scope, s) | None \<Rightarrow> (0, s)) of
       (scope, s) \<Rightarrow> Option.bind (read_given_char CHR '']'' s) (\<lambda>s.
         map_option (\<lambda>(p, s). (SocketV6 (word_of_nat (of_digits 65536 gs)) p 0 scope, s)) (read_port s))))"

definition whole_text :: "('a \<times> string) option \<Rightarrow> 'a option" where
  "whole_text r = (case r of Some (x, []) \<Rightarrow> Some x | _ \<Rightarrow> None)"

definition parse_ip :: "string \<Rightarrow> IpAddr option" where "parse_ip s = whole_text (read_ip s)"

definition parse_addr :: "string \<Rightarrow> SocketAddr option" where
  "parse_addr s = whole_text (case read_addr_v4 s of Some r \<Rightarrow> Some r | None \<Rightarrow> read_addr_v6 s)"

section \<open>What is written reads back\<close>

definition value_from :: "nat \<Rightarrow> string \<Rightarrow> nat" where
  "value_from n ds = foldl (\<lambda>n c. 10 * n + (of_char c - 48)) n ds"

lemma value_from_simps [simp]: "value_from n [] = n" "value_from n (c # ds) = value_from (10 * n + (of_char c - 48)) ds"
  by (simp_all add: value_from_def)

lemma value_from_le: "n \<le> value_from n ds"
proof (induction ds arbitrary: n)
  case (Cons c ds)
  show ?case using Cons.IH [of "10 * n + (of_char c - 48)"] by simp
qed simp

lemma to_digit_10: "is_digit c \<Longrightarrow> to_digit 10 c = Some (of_char c - 48)" "\<not> is_digit c \<Longrightarrow> to_digit 10 c = None"
  by (auto simp: to_digit_def is_digit_def Let_def)

lemma digits_loop_digits:
  assumes "list_all is_digit ds" "value_from n ds < bound" "\<And>m. most = Some m \<Longrightarrow> k + length ds \<le> m" "rest = [] \<or> \<not> is_digit (hd rest)"
  shows "digits_loop 10 bound most k n (ds @ rest) = Some (k + length ds, value_from n ds, rest)"
  using assms
proof (induction ds arbitrary: k n)
  case Nil
  then show ?case by (cases rest) (auto simp: to_digit_10)
next
  case (Cons c ds)
  have "10 * n + (of_char c - 48) < bound" using Cons.prems(2) value_from_le [of _ ds] by (auto intro: order.strict_trans1)
  moreover have "\<not> (case most of Some m \<Rightarrow> m < Suc k | None \<Rightarrow> False)" using Cons.prems(3) by (cases most) auto
  ultimately show ?case using Cons by (simp add: to_digit_10 Let_def mult.commute)
qed

lemma value_from_show [simp]: "value_from 0 (show_nat n) = n"
  using digits_value_show [of n] by (simp add: digits_value_def value_from_def)

lemma hd_show_nat: "hd (show_nat n) = CHR ''0'' \<Longrightarrow> n = 0"
proof (induction n rule: show_nat.induct)
  case (1 n)
  have "show_nat (n div 10) \<noteq> []" by (subst show_nat.simps) simp
  with 1 show ?case
    by (cases "n < 10") (simp_all add: show_nat.simps [of n] digit_def char_of_eq_iff hd_append take_bit_eq_mod)
qed

lemma read_number_show:
  assumes "n < bound" "\<And>m. most = Some m \<Longrightarrow> length (show_nat n) \<le> m" "rest = [] \<or> \<not> is_digit (hd rest)"
  shows "read_number 10 bound most z (show_nat n @ rest) = Some (n, rest)"
proof -
  have ne: "show_nat n \<noteq> []" by (subst show_nat.simps) simp
  have "length (show_nat n) \<le> 1" if "hd (show_nat n) = CHR ''0''" using hd_show_nat [OF that] by (simp add: show_nat.simps)
  then show ?thesis
    using digits_loop_digits [of "show_nat n" 0 bound most 0 rest] assms ne by (auto simp: read_number_def show_nat_digits)
qed

lemma read_octets_show:
  assumes "list_all (\<lambda>n. n < 256) ns" "rest = [] \<or> \<not> is_digit (hd rest)"
  shows "read_octets i (length ns) (concat (map (\<lambda>(j, n). (if j = 0 then [] else ''.'') @ show_nat n) (enumerate i ns)) @ rest) = Some (ns, rest)"
  using assms
proof (induction ns arbitrary: i)
  case (Cons n ns)
  let ?more = "concat (map (\<lambda>(j, n). (if j = 0 then [] else ''.'') @ show_nat n) (enumerate (Suc i) ns)) @ rest"
  have stop: "?more = [] \<or> \<not> is_digit (hd ?more)" using Cons.prems(2) by (cases ns) (auto simp: is_digit_def)
  have "length (show_nat n) \<le> 3" using Cons.prems(1) length_show_nat [of n 3] by simp
  with Cons.prems(1) have "read_number 10 256 (Some 3) False (show_nat n @ ?more) = Some (n, ?more)"
    by (intro read_number_show stop) auto
  with Cons show ?case by (cases i) (simp_all add: read_separator_def)
qed simp

text \<open>An IPv4 socket address as it is written reads back, and so its address can be shown without the port.\<close>

lemma octets4_value: "of_digits 256 (map unat (octets4 a)) = unat a"
proof -
  have n: "unat a < 4294967296" by (rule unat_bounds)
  define n where "n = unat a"
  have d: "n div 256 div 256 = n div 65536" "n div 65536 div 256 = n div 16777216" by (simp_all add: div_mult2_eq [symmetric])
  have "n div 16777216 < 256" using n by (simp add: n_def div_less_iff_less_mult)
  moreover have "n = (n div 256) * 256 + n mod 256" "n div 256 = n div 65536 * 256 + n div 256 mod 256"
    "n div 65536 = n div 16777216 * 256 + n div 65536 mod 256"
    using div_mult_mod_eq [of n 256] div_mult_mod_eq [of "n div 256" 256] div_mult_mod_eq [of "n div 65536" 256] d by simp_all
  ultimately show ?thesis
    by (simp add: octets_eval of_digits_def unat_of_nat n_def [symmetric])
qed

lemma parse_addr_v4: "parse_addr (addr_to_string (SocketV4 a p)) = Some (SocketV4 a p)"
proof -
  obtain w x y z where o: "octets4 a = [w, x, y, z]" by (simp add: octets_eval)
  have b: "unat w < 256" "unat x < 256" "unat y < 256" "unat z < 256" using unat_bounds(1) by auto
  have "ipv4_to_string a @ '':'' @ show_nat (unat p) =
      concat (map (\<lambda>(j, n). (if j = 0 then [] else ''.'') @ show_nat n) (enumerate 0 (map unat (octets4 a)))) @ '':'' @ show_nat (unat p)"
    by (simp add: ipv4_to_string_def o)
  then have "read_ipv4 (ipv4_to_string a @ '':'' @ show_nat (unat p)) = Some (map unat (octets4 a), '':'' @ show_nat (unat p))"
    using read_octets_show [of "map unat (octets4 a)" "'':'' @ show_nat (unat p)" 0] b
    by (simp add: read_ipv4_def o is_digit_def eval_nat_numeral)
  moreover have "read_number 10 65536 None True (show_nat (unat p)) = Some (unat p, [])"
    using read_number_show [of "unat p" 65536 None "[]" True] unat_bounds(2) [of p] by simp
  ultimately show ?thesis by (simp add: parse_addr_def read_addr_v4_def read_port_def whole_text_def octets4_value)
qed

end
