(* ===== verification/Status_Lines.thy ===== *)
theory Status_Lines
  imports Client_Status Server_Status Net_Parse
begin

text \<open>
  \<open>hawse/src/terminal.rs\<close>, the rest of it: what \<open>hawse status\<close> prints of a reply, and what a server run by
  hand prints of its events. \<open>str::to_uppercase\<close> of a text that came from another process is an
  argument, as it goes by Unicode's tables; nothing is assumed of it. The results are that every line
  fits the terminal, and that a client's status has a row for every service that has an answer.
\<close>

section \<open>A client's status\<close>

definition of_secs :: "nat \<Rightarrow> duration" where "of_secs n = n * 1000000000"

definition mark_no :: "Style \<Rightarrow> string" where "mark_no st = red st (pick st 10007 ''x'')"
definition mark_again :: "Term \<Rightarrow> Style \<Rightarrow> string" where "mark_again tm st = accent tm st (pick st 8635 ''~'')"
definition mark_busy :: "Term \<Rightarrow> Style \<Rightarrow> string" where "mark_busy tm st = accent tm st (pick st 9679 ''*'')"
definition mark_idle :: "Term \<Rightarrow> Style \<Rightarrow> string" where "mark_idle tm st = accent tm st (pick st 9675 ''o'')"

definition client_status_header :: "(string \<Rightarrow> string) \<Rightarrow> Term \<Rightarrow> ClientStatus \<Rightarrow> Style \<Rightarrow> nat \<Rightarrow> string list" where
  "client_status_header to_uppercase tm status st room =
     (let server = dotted st (cs_server status)
      in case cs_link status of
           LsUp transport round_trip_ms up_s _ \<Rightarrow>
             [fit tm [mark_busy tm st @ '' hawse client  '' @ accent tm st ''connected'', server, dotted st (to_uppercase transport),
                dotted st (millis_text (unat round_trip_ms * 1000000)), dotted st (''up '' @ span_text (of_secs up_s))] room]
         | LsDown down_s retry_in_s cause \<Rightarrow>
             (let down = red st (''down '' @ span_text (of_secs down_s));
                  retry = (if retry_in_s = 0 then ''retrying now'' else ''retrying in '' @ show_nat retry_in_s @ '' s'')
              in [fit tm [mark_no st @ '' hawse client  '' @ down, server, dotted st retry] room,
                  fit tm [''  '' @ mark_no st @ '' '' @ cause] room])
         | LsConnecting \<Rightarrow> [fit tm [mark_again tm st @ '' hawse client  '' @ accent tm st ''connecting'', server] room])"

definition bound_port :: "ServiceStatus \<Rightarrow> Port option" where
  "bound_port service =
     (case ss_answer service of
        AnBound port \<Rightarrow> (case port_from_str port of Inr p \<Rightarrow> Some p | Inl _ \<Rightarrow> None)
      | AnPending \<Rightarrow> None
      | AnRefused _ \<Rightarrow> None)"

definition link_is_up :: "LinkStatus \<Rightarrow> bool" where
  "link_is_up l = (case l of LsUp _ _ _ _ \<Rightarrow> True | _ \<Rightarrow> False)"

type_synonym rates = "(string, u64 \<times> u64) hmap"

text \<open>The row of a service, if it has one.\<close>

definition status_row :: "Term \<Rightarrow> bool \<Rightarrow> rates option \<Rightarrow> string \<Rightarrow> Widths \<Rightarrow> nat \<Rightarrow> Style \<Rightarrow> ServiceStatus \<Rightarrow> string list option" where
  "status_row tm up rates host widths open_width st service =
     (case (ss_answer service, bound_port service) of
        (AnRefused why, _) \<Rightarrow> Some [''  '' @ mark_no st @ '' '' @ pad_right (w_names widths) (ss_name service) @ ''  '' @ why]
      | (_, Some port) \<Rightarrow>
          (let c = ss_counts service;
               per = map_option (\<lambda>rates. case hget rates (ss_name service) of Some r \<Rightarrow> r | None \<Rightarrow> (0, 0)) rates;
               busy_now = (case per of Some (down, sent) \<Rightarrow> 0 < down \<or> 0 < sent | None \<Rightarrow> 0 < n_open c);
               mark = (if \<not> up then mark_again tm st else if busy_now then mark_busy tm st else mark_idle tm st);
               figure = (\<lambda>text. ''  '' @ accent tm st text)
           in Some (service_fields mark (ss_name service) host port (ss_local service) widths st @
                (case per of
                   Some (down, sent) \<Rightarrow> if up then figures tm (n_open c) down sent open_width st else []
                 | None \<Rightarrow>
                     if up
                     then [figure (pad_left open_width (show_nat (unat (n_open c)))),
                           figure (pick st 8595 ''v'' @ '' '' @ pad_left 4 (bytes_text (n_down c))),
                           figure (pick st 8593 ''^'' @ '' '' @ pad_left 4 (bytes_text (n_up c)))]
                     else [])))
      | _ \<Rightarrow> None)"

definition status_widths :: "string \<Rightarrow> ServiceStatus list \<Rightarrow> Widths" where
  "status_widths host services =
     \<lparr>w_names = maxs 0 (map (length \<circ> ss_name) services),
      w_public = length host + 1 + maxs 0 (map (length \<circ> port_to_string) (List.map_filter bound_port services)),
      w_locals = maxs 0 (map (length \<circ> ss_local) services)\<rparr>"

definition client_status_lines :: "(string \<Rightarrow> string) \<Rightarrow> Term \<Rightarrow> ClientStatus \<Rightarrow> rates option \<Rightarrow> Style \<Rightarrow> nat \<Rightarrow> string list" where
  "client_status_lines to_uppercase tm status rates st room =
     (let host = server_host (cs_server status); services = cs_services status; widths = status_widths host services;
          open_width = maxs 1 (map (\<lambda>s. length (show_nat (unat (n_open (ss_counts s))))) (filter (\<lambda>s. bound_port s \<noteq> None) services));
          body = fit_rows tm (List.map_filter (status_row tm (link_is_up (cs_link status)) rates host widths open_width st) services) room
      in client_status_header to_uppercase tm status st room @ (if body = [] then [] else [] # body))"

section \<open>A server's status\<close>

definition remote_ip :: "string \<Rightarrow> string" where
  "remote_ip remote = (case parse_addr remote of Some addr \<Rightarrow> ip_to_string (sa_ip addr) | None \<Rightarrow> remote)"

definition is_connected :: "ClientEntry \<Rightarrow> bool" where
  "is_connected c = (case ce_presence c of PrConnected _ _ _ _ _ \<Rightarrow> True | PrNotConnected _ \<Rightarrow> False)"

definition server_status_header :: "Term \<Rightarrow> ServerStatus \<Rightarrow> Style \<Rightarrow> string list" where
  "server_status_header tm status st =
     (let clients = vs_clients status; connected = length (filter is_connected clients);
          count = show_nat connected @ '' of '' @ show_nat (length clients) @ '' clients'';
          mark_state = (if clients = [] then (dim st (pick st 9675 ''o''), dim st ''no clients are authorized'')
            else if connected = 0 then (mark_no st, red st count)
            else (mark_busy tm st, accent tm st count))
      in [fst mark_state @ '' hawse server  '' @ snd mark_state, dotted st (vs_listen status),
          dotted st (''up '' @ span_text (of_secs (vs_up_s status))), dotted st (vs_version status)])"

text \<open>A bound service under its client: the address only when it is not every address.\<close>

definition bind_at_text :: "string \<Rightarrow> string" where
  "bind_at_text bind =
     (case parse_ip bind of
        Some ip \<Rightarrow> if is_unspecified ip then [] else (case ip of V6 a \<Rightarrow> ''['' @ ipv6_to_string a @ '']'' | V4 _ \<Rightarrow> bind)
      | None \<Rightarrow> bind)"

definition optional :: "('a \<Rightarrow> string) \<Rightarrow> 'a option \<Rightarrow> string list" where
  "optional f x = (case x of Some y \<Rightarrow> [f y] | None \<Rightarrow> [])"

definition client_entry_lines :: "(string \<Rightarrow> string) \<Rightarrow> Term \<Rightarrow> nat \<Rightarrow> Style \<Rightarrow> nat \<Rightarrow> ClientEntry \<Rightarrow> string list" where
  "client_entry_lines to_uppercase tm names st room client =
     (let name = pad_right names (ce_name client)
      in case ce_presence client of
           PrConnected remote transport agent up_s services \<Rightarrow>
             (let width = maxs 0 (map (length \<circ> bd_name) services)
              in fit tm ([''  '' @ mark_busy tm st @ '' '' @ name @ ''  '' @ remote_ip remote] @
                   optional (\<lambda>t. dotted st (to_uppercase t)) transport @
                   optional (\<lambda>up. dotted st (''up '' @ span_text (of_secs up))) up_s @
                   optional (\<lambda>agent. dotted st (case strip_prefix ''hawse/'' agent of Some version \<Rightarrow> version | None \<Rightarrow> agent)) agent) room #
                 map (\<lambda>service. fit tm [''      '' @ pad_right width (bd_name service) @ ''  '' @ bind_at_text (bd_bind service) @ '':'' @ bd_port service] room)
                   services)
         | PrNotConnected last_s \<Rightarrow>
             (let seen = (case last_s of Some n \<Rightarrow> '', last seen '' @ span_text (of_secs n) @ '' ago'' | None \<Rightarrow> [])
              in [fit tm [''  '' @ dim st (pick st 9675 ''o'' @ '' '' @ name @ ''  not connected'' @ seen)] room]))"

definition knock_line :: "Term \<Rightarrow> Style \<Rightarrow> nat \<Rightarrow> Knock \<Rightarrow> string" where
  "knock_line tm st room knock =
     fit tm [''  '' @ mark_no st @ '' unknown key '' @ kn_key knock, '' from '' @ remote_ip (kn_remote knock),
       dotted st (show_nat (unat (kn_times knock)) @ '' '' @ (if kn_times knock = 1 then ''time'' else ''times'') @ '', last '' @
         span_text (of_secs (kn_last_s knock)) @ '' ago'')] room"

definition server_status_lines :: "(string \<Rightarrow> string) \<Rightarrow> Term \<Rightarrow> ServerStatus \<Rightarrow> Style \<Rightarrow> nat \<Rightarrow> string list" where
  "server_status_lines to_uppercase tm status st room =
     (let clients = vs_clients status; names = maxs 0 (map (length \<circ> ce_name) clients)
      in [fit tm (server_status_header tm status st) room] @
         (if clients = [] then [] else [[]]) @ concat (map (client_entry_lines to_uppercase tm names st room) clients) @
         (if vs_unknown_keys status = [] then [] else [[]]) @ map (knock_line tm st room) (vs_unknown_keys status))"

datatype Status = StClient ClientStatus | StServer ServerStatus

fun status_lines :: "(string \<Rightarrow> string) \<Rightarrow> Term \<Rightarrow> Status \<Rightarrow> rates option \<Rightarrow> Style \<Rightarrow> nat \<Rightarrow> string list" where
  "status_lines to_uppercase tm (StClient client) rates st width = client_status_lines to_uppercase tm client rates st (width - 1)"
| "status_lines to_uppercase tm (StServer server) rates st width = server_status_lines to_uppercase tm server st (width - 1)"

section \<open>A server's rows\<close>

definition server_header :: "(bytes \<Rightarrow> string) \<Rightarrow> SocketAddr \<Rightarrow> bool \<Rightarrow> PublicKey \<Rightarrow> bool \<Rightarrow> Style \<Rightarrow> string" where
  "server_header encode64 addr tcp key unused st =
     NL @ ''  hawse server  '' @ dot st @ ''  '' @ addr_to_string addr @ ''  '' @ dot st @ ''  '' @ (if tcp then ''QUIC + TCP'' else ''QUIC'') @ NL @
     ''  '' @ dim st ''key '' @ ''  '' @ key_to_string encode64 key @ NL @
     ''  '' @ dim st ''join'' @ ''  hawse join <this-host>:'' @ show_nat (unat (sa_port addr)) @ '' --server-key '' @ key_to_string encode64 key @ NL @
     (if unused then NL @ ''  no clients are authorized yet: one that joins is shown here with the table to add'' @ NL else [])"

definition served :: "(bytes \<Rightarrow> string) \<Rightarrow> Term \<Rightarrow> Event \<Rightarrow> nat \<Rightarrow> Style \<Rightarrow> string" where
  "served encode64 tm ev names st =
     (let done_mark = accent tm st (pick st 10003 ''+''); name = pad_right names
      in case ev of
           Connected client remote transport _ \<Rightarrow>
             ''  '' @ done_mark @ '' '' @ name client @ ''  connected from '' @ addr_to_string remote @ '' '' @ dot st @ '' '' @
             map upper (transport_to_string transport)
         | EvBound client service bind port \<Rightarrow>
             ''  '' @ done_mark @ '' '' @ name client @ ''  '' @ service @ ''  '' @ addr_to_string (socket_addr bind (number port)) @
             (if kind port = Udp then ''/udp'' else [])
         | EvUnbound client service port \<Rightarrow>
             ''  '' @ mark_again tm st @ '' '' @ name client @ ''  '' @ service @ ''  unbound from port '' @ port_to_string port
         | Ended client why \<Rightarrow> ''  '' @ mark_again tm st @ '' '' @ name client @ ''  session ended: '' @ why
         | EvDenied key remote \<Rightarrow>
             ''  '' @ mark_no st @ '' unknown key from '' @ addr_to_string remote @ ''. to authorize it, add to server.toml:'' @ NL @ NL @
             ''      [clients.NAME]'' @ NL @ ''      key = '' @ QUOTE @ key_to_string encode64 key @ QUOTE @ NL)"

definition knocks_again :: "PublicKey option \<Rightarrow> Event \<Rightarrow> PublicKey option \<times> bool" where
  "knocks_again shown ev =
     (case ev of
        EvDenied key _ \<Rightarrow> (Some key, shown = Some key)
      | Connected _ _ _ _ \<Rightarrow> (None, False)
      | _ \<Rightarrow> (shown, False))"

text \<open>\<open>show\<close> of \<open>commands/server.rs\<close>, one event: what is remembered, and the rows printed.\<close>

definition show_event :: "(bytes \<Rightarrow> string) \<Rightarrow> Term \<Rightarrow> Style \<Rightarrow> Event \<Rightarrow> PublicKey option \<times> nat \<times> string list \<Rightarrow> PublicKey option \<times> nat \<times> string list" where
  "show_event encode64 tm st ev = (\<lambda>(shown, names, printed).
     case knocks_again shown ev of
       (shown, True) \<Rightarrow> (shown, names, printed)
     | (shown, False) \<Rightarrow>
         (let names = (case ev of Connected client _ _ _ \<Rightarrow> max names (length client) | _ \<Rightarrow> names)
          in (shown, names, printed @ [served encode64 tm ev names st])))"

section \<open>Lines fit\<close>

lemma client_status_header_columns: "0 < room \<Longrightarrow> l \<in> set (client_status_header up tm status st room) \<Longrightarrow> columns tm l \<le> room"
  by (auto simp: client_status_header_def Let_def columns_fit split: LinkStatus.splits)

lemma client_entry_columns: "0 < room \<Longrightarrow> l \<in> set (client_entry_lines up tm names st room c) \<Longrightarrow> columns tm l \<le> room"
  by (auto simp: client_entry_lines_def Let_def columns_fit split: Presence.splits)

lemma status_lines_columns:
  assumes "1 < width" "l \<in> set (status_lines up tm status rates st width)"
  shows "columns tm l \<le> width - 1"
proof -
  have room: "0 < width - 1" using assms(1) by simp
  show ?thesis
  proof (cases status)
    case (StClient c)
    with assms(2) show ?thesis
      using client_status_header_columns [OF room] columns_fit_rows [OF room]
      by (auto simp: client_status_lines_def Let_def simp del: One_nat_def split: if_splits)
  next
    case (StServer s)
    with assms(2) show ?thesis
      using client_entry_columns [OF room] columns_fit [OF room]
      by (auto simp: server_status_lines_def knock_line_def Let_def simp del: One_nat_def split: if_splits)
  qed
qed

section \<open>Every answer has a row\<close>

lemma length_fit_rows [simp]: "length (fit_rows tm rows room) = length rows"
  by (simp add: fit_rows_def Let_def)

text \<open>The answers a model holds are those of the events it was told.\<close>

fun sound_answer :: "Answer \<Rightarrow> bool" where
  "sound_answer (AnBound port) \<longleftrightarrow> (\<exists>p. port_wf p \<and> port = port_to_string p)"
| "sound_answer (AnRefused _) \<longleftrightarrow> True"
| "sound_answer AnPending \<longleftrightarrow> False"

fun sound_event :: "ClientEvent \<Rightarrow> bool" where
  "sound_event (CeBound _ port) \<longleftrightarrow> port_wf port"
| "sound_event _ \<longleftrightarrow> True"

lemma model_answers_sound:
  assumes "list_all (sound_event \<circ> fst) tevs"
  shows "bt_ok (m_answers (fold (\<lambda>(ev, now). model_apply ev now) tevs new_model)) \<and>
    (\<forall>name a. hget (m_answers (fold (\<lambda>(ev, now). model_apply ev now) tevs new_model)) name = Some a \<longrightarrow> sound_answer a)"
  using assms
proof (induction tevs rule: rev_induct)
  case Nil
  then show ?case by (simp add: new_model_def)
next
  case (snoc te tevs)
  obtain ev now where te: "te = (ev, now)" by fastforce
  show ?case using snoc
    by (cases ev) (auto simp: te model_apply_def hmap_simps split: Link.splits)
qed

lemma status_row_answered:
  assumes "ss_answer s = AnPending \<or> sound_answer (ss_answer s)"
  shows "status_row tm up rates host widths n st s \<noteq> None \<longleftrightarrow> ss_answer s \<noteq> AnPending"
  using assms port_from_to by (cases "ss_answer s") (auto simp: status_row_def bound_port_def Let_def)

lemma length_map_filter: "length (List.map_filter f xs) = length (filter (\<lambda>x. f x \<noteq> None) xs)"
  by (induction xs) (auto simp: map_filter_simps split: option.split)

lemma client_status_lines_rows:
  "\<exists>rows u host widths n. rows = fit_rows tm (List.map_filter (status_row tm u rates host widths n st) (cs_services status)) room \<and>
     client_status_lines up tm status rates st room = client_status_header up tm status st room @ (if rows = [] then [] else [] # rows)"
  unfolding client_status_lines_def Let_def by blast

text \<open>
  What \<open>hawse status\<close> prints of a client fits the terminal and leaves no answer out. Whatever the client was told, of
  ports the server really granted: every line of its status leaves the last column free, and under the header
  and a blank line there is exactly one row for each service of the config the server has answered, bound or refused.
\<close>

theorem status_rows_every_answer:
  assumes "list_all (sound_event \<circ> fst) tevs" "m = fold (\<lambda>(ev, now). model_apply ev now) tevs new_model"
    and "status = model_snapshot VERSION cfg totals up now m" "1 < width"
  shows "(\<forall>l \<in> set (status_lines to_uppercase tm (StClient status) rates st width). columns tm l \<le> width - 1) \<and>
    (\<exists>rows. status_lines to_uppercase tm (StClient status) rates st width =
        client_status_header to_uppercase tm status st (width - 1) @ (if rows = [] then [] else [] # rows) \<and>
      length rows = length (filter (\<lambda>(name, _). hget (m_answers m) name \<noteq> None) (expose cfg)))"
proof -
  have sound: "hget (m_answers m) name = Some a \<Longrightarrow> sound_answer a" for name a
    using model_answers_sound [OF assms(1)] by (simp add: assms(2))
  have row: "status_row tm u rates host widths n st (service_status m totals x) \<noteq> None \<longleftrightarrow> hget (m_answers m) (fst x) \<noteq> None"
    for u host widths n x
  proof -
    have "ss_answer (service_status m totals x) = (case hget (m_answers m) (fst x) of Some a \<Rightarrow> a | None \<Rightarrow> AnPending)"
      by (simp add: service_status_def split: prod.split)
    then show ?thesis using sound [of "fst x"]
      by (subst status_row_answered) (auto split: option.splits)
  qed
  have "length (List.map_filter (status_row tm u rates host widths n st) (cs_services status)) =
      length (filter (\<lambda>(name, _). hget (m_answers m) name \<noteq> None) (expose cfg))" for u host widths n
    by (simp add: length_map_filter assms(3) model_snapshot_def filter_map o_def row [simplified] case_prod_unfold)
  then have rows: "\<exists>rows. status_lines to_uppercase tm (StClient status) rates st width =
        client_status_header to_uppercase tm status st (width - 1) @ (if rows = [] then [] else [] # rows) \<and>
      length rows = length (filter (\<lambda>(name, _). hget (m_answers m) name \<noteq> None) (expose cfg))"
    using client_status_lines_rows [of tm rates st status "width - 1" to_uppercase] by (auto simp del: One_nat_def split del: if_split)
  from status_lines_columns [OF assms(4)] rows show ?thesis by blast
qed

definition two_services :: "IpAddr ClientConfig" where
  "two_services =
     (let x = \<lparr>x_local = ''127.0.0.1:22'', x_port = Any Tcp, x_allow = [], x_proxy_protocol = False\<rparr>
      in \<lparr>cc_server = ''example.org'', cc_server_key = PublicKey [], cc_key = None, cc_name = None,
          expose = [(''ssh'', x), (''web'', x)], cc_transport = default_client_transport\<rparr>)"

definition ssh_bound :: Model where
  "ssh_bound = fold (\<lambda>(ev, now). model_apply ev now) [(CeBound ''ssh'' \<lparr>number = 40001, kind = Tcp\<rparr>, 3)] new_model"

theorem status_rows_every_answer_witness:
  "\<exists>rows. status_lines (map upper) plain_term (StClient (model_snapshot ''1'' two_services [] 0 9 ssh_bound)) None plain_style 80 =
     client_status_header (map upper) plain_term (model_snapshot ''1'' two_services [] 0 9 ssh_bound) plain_style 79 @
       (if rows = [] then [] else [] # rows) \<and> length rows = 1"
proof -
  have "list_all (sound_event \<circ> fst) [(CeBound ''ssh'' \<lparr>number = 40001, kind = Tcp\<rparr>, 3 :: nat)]" by (simp add: port_wf_def)
  from status_rows_every_answer [OF this ssh_bound_def refl, where width = 80, THEN conjunct2,
      of "map upper" plain_term "''1''" two_services "[]" 0 9 None plain_style]
  show ?thesis by (simp add: two_services_def Let_def ssh_bound_def model_apply_def new_model_def)
qed

end
