(* ===== verification/Cmd_Status.thy ===== *)
theory Cmd_Status
  imports Socket Status_Lines
begin

text \<open>
  \<open>hawse/src/commands/status.rs\<close>: asking the server and the client on this host how they stand, and printing
  what they say, once or every second. What came over a connection is an argument, and so is JSON. The
  results join it to the socket: a status asked of a process that bound its socket is the one the
  process gave, for every environment the process and the caller may have been started in.
\<close>

definition REPLY_LIMIT :: nat where "REPLY_LIMIT = 1048576"

section \<open>Asking\<close>

datatype AskError = AskNotFound | AskRefused | AskDenied | AskOther string

text \<open>
  One connection: how connecting or writing failed, or what came back before the read timed out. The request is
  one line. A read that times out is an error.
\<close>

definition request_line :: "'st Json \<Rightarrow> bytes" where "request_line js = bytes_of_text (js_request js @ NL)"

definition ask :: "(path \<Rightarrow> AskError + Incoming) \<Rightarrow> path \<Rightarrow> AskError + string" where
  "ask asked path =
     (case asked path of
        Inl e \<Rightarrow> Inl e
      | Inr i \<Rightarrow>
          (case read_line REPLY_LIMIT i of
             TimedOut \<Rightarrow> Inl (AskOther ''timed out'')
           | ReadFailed e \<Rightarrow> Inl (AskOther e)
           | ReadText line \<Rightarrow> if line = [] then Inl (AskOther ''unexpected end of file'') else Inr (trim_end line)))"

text \<open>The paths of one role: the first answer, and whether one before it refused permission.\<close>

fun ask_paths :: "(path \<Rightarrow> AskError + string) \<Rightarrow> path list \<Rightarrow> string option \<times> bool" where
  "ask_paths asks [] = (None, False)"
| "ask_paths asks (p # ps) =
     (case asks p of
        Inr line \<Rightarrow> (Some line, False)
      | Inl e \<Rightarrow> (case ask_paths asks ps of (line, refused) \<Rightarrow> (line, refused \<or> e = AskDenied)))"

fun ask_roles :: "(path \<Rightarrow> AskError + string) \<Rightarrow> Env \<Rightarrow> Role list \<Rightarrow> (Role \<times> string) list \<times> Role list" where
  "ask_roles asks env [] = ([], [])"
| "ask_roles asks env (role # roles) =
     (case ask_roles asks env roles of
        (replies, refusers) \<Rightarrow>
          (case ask_paths asks (candidates role env) of
             (Some line, _) \<Rightarrow> ((role, line) # replies, refusers)
           | (None, refused) \<Rightarrow> (replies, if refused then role # refusers else refusers)))"

definition ask_each :: "(path \<Rightarrow> AskError + string) \<Rightarrow> Env \<Rightarrow> Role option \<Rightarrow> (Role \<times> string) list \<times> Role list" where
  "ask_each asks env role = ask_roles asks env (case role of Some r \<Rightarrow> [r] | None \<Rightarrow> [RoleServer, RoleClient])"

section \<open>Printing\<close>

datatype Reply = RefusedReply string | StatusReply Status

definition nothing_answered :: "bool \<Rightarrow> string" where
  "nothing_answered refusers =
     ''no hawse server or client answered here'' @ NL @
     (if refusers then ''run it as root, or as the user the service runs as''
      else ''one started from a unit hawse 0.10.0 wrote has no socket until `sudo hawse service install` is run again, with the --config and --user it was installed with'')"

definition denied_alongside_answer :: "Role \<Rightarrow> string" where
  "denied_alongside_answer role = ''the hawse '' @ role_name role @ '' here: permission denied; run it as root, or as the user the service runs as''"

definition draw :: "(string \<Rightarrow> string) \<Rightarrow> Term \<Rightarrow> string \<Rightarrow> (string \<Rightarrow> string + Reply) \<Rightarrow> Role \<Rightarrow> string \<Rightarrow> rates option \<Rightarrow> Style \<Rightarrow> nat \<Rightarrow> string" where
  "draw to_uppercase tm VERSION read_reply role line rates st width =
     (case (case read_reply line of Inr r \<Rightarrow> r | Inl e \<Rightarrow> RefusedReply (''its reply does not read as a status: '' @ e)) of
        StatusReply status \<Rightarrow> join_lines (status_lines to_uppercase tm status rates st width)
      | RefusedReply error \<Rightarrow>
          ''the '' @ role_name role @ '' cannot answer this hawse: '' @ error @ NL @
          ''restart the '' @ role_name role @ '' after an upgrade, so that it runs hawse '' @ VERSION @ '' as this does'')"

text \<open>What goes to standard output and to standard error, and whether the exit is a success.\<close>

definition status_run :: "(string \<Rightarrow> string) \<Rightarrow> Term \<Rightarrow> string \<Rightarrow> (string \<Rightarrow> string + Reply) \<Rightarrow> (path \<Rightarrow> AskError + string) \<Rightarrow> Env \<Rightarrow>
    Role option \<Rightarrow> bool \<Rightarrow> Style \<Rightarrow> bool \<Rightarrow> nat \<Rightarrow> string \<times> string list \<times> bool" where
  "status_run to_uppercase tm VERSION read_reply asks env role json st stdout_is_terminal width =
     (let st = st\<lparr>st_links := stdout_is_terminal\<rparr>
      in case ask_each asks env role of
           (answers, refusers) \<Rightarrow>
             (let replies = map (\<lambda>(role, line). if json then line else draw to_uppercase tm VERSION read_reply role line None st width) answers
              in if replies = [] then ([], [nothing_answered (refusers \<noteq> [])], False)
                 else (join_with (if json then NL else NL @ NL) replies @ NL, map denied_alongside_answer refusers, True)))"

section \<open>Watching\<close>

text \<open>Collected into a \<open>BTreeMap\<close>, in the order of the services.\<close>

definition status_rates :: "ClientStatus \<Rightarrow> ClientStatus \<Rightarrow> duration \<Rightarrow> rates" where
  "status_rates before now elapsed =
     fold (\<lambda>(name, r). bput name r)
       (List.map_filter (\<lambda>service.
          case find (\<lambda>s. ss_name s = ss_name service) (cs_services before) of
            None \<Rightarrow> None
          | Some b \<Rightarrow>
              Some (ss_name service,
                (per_second (n_down (ss_counts service)) (n_down (ss_counts b)) elapsed,
                 per_second (n_up (ss_counts service)) (n_up (ss_counts b)) elapsed)))
          (filter (\<lambda>_. cs_up_s before \<le> cs_up_s now) (cs_services now))) []"

type_synonym sampled = "(instant \<times> ClientStatus) option"

definition watch_reply :: "(string \<Rightarrow> string) \<Rightarrow> Term \<Rightarrow> string \<Rightarrow> (string \<Rightarrow> string + Reply) \<Rightarrow> Style \<Rightarrow> nat \<Rightarrow> instant \<Rightarrow>
    Role \<times> string \<Rightarrow> sampled \<times> string list \<Rightarrow> sampled \<times> string list" where
  "watch_reply to_uppercase tm VERSION read_reply st width asked = (\<lambda>(role, line) (sampled, blocks).
     (case read_reply line of
        Inr (StatusReply (StClient now)) \<Rightarrow>
          (let rates = (case sampled of Some (at', before) \<Rightarrow> status_rates before now (asked - at') | None \<Rightarrow> [])
           in (Some (asked, now), blocks @ [draw to_uppercase tm VERSION read_reply role line (Some rates) st width]))
      | _ \<Rightarrow> (sampled, blocks @ [draw to_uppercase tm VERSION read_reply role line None st width])))"

text \<open>One tick: what is asked, and the rows drawn in place on a terminal of \<open>width\<close> and \<open>height\<close>.\<close>

definition watch_tick :: "(string \<Rightarrow> string) \<Rightarrow> Term \<Rightarrow> string \<Rightarrow> (string \<Rightarrow> string + Reply) \<Rightarrow> (path \<Rightarrow> AskError + string) \<Rightarrow> Env \<Rightarrow>
    Role option \<Rightarrow> Style \<Rightarrow> instant \<Rightarrow> nat \<times> nat \<Rightarrow> sampled \<Rightarrow> sampled \<times> string list" where
  "watch_tick to_uppercase tm VERSION read_reply asks env role st asked = (\<lambda>(width, height) sampled.
     case ask_each asks env role of
       (answers, refusers) \<Rightarrow>
         (case fold (watch_reply to_uppercase tm VERSION read_reply st width asked) answers (sampled, []) of
            (sampled, blocks) \<Rightarrow>
              (let blocks = (if blocks = [] then [nothing_answered (refusers \<noteq> [])] else blocks) @ map denied_alongside_answer refusers
               in (sampled, fold_lines tm (splits_at CHR 0x0A (join_with (NL @ NL) blocks)) height st (width - 1)))))"

section \<open>What is asked is what was answered\<close>

lemma valid_append: "valid_utf8 a \<Longrightarrow> valid_utf8 (a @ b) = valid_utf8 b"
proof (induction a rule: valid_utf8.induct)
  case (2 x bs)
  show ?case
  proof (cases "x < 0x80")
    case False
    then have n: "0 < needs x" "continued x bs = needs x" "valid_utf8 (drop (needs x) bs)" using 2(3) by auto
    have "continued x (bs @ b) = needs x"
      using continued_take [OF n(1,2), of "drop (needs x) bs @ b"] by (simp flip: append_assoc)
    then show ?thesis using False n 2(2) continued_bytes(1) [OF n(1,2)] by simp
  qed (use 2 in simp)
qed simp

lemma newline_byte: "10 \<in> set (bytes_of_text s) \<longleftrightarrow> CHR 0x0A \<in> set s"
proof -
  have "word_of_nat (of_char c) = (10 :: u8) \<longleftrightarrow> c = CHR 0x0A" for c
  proof -
    have "word_of_nat (of_char c) = (10 :: u8) \<longleftrightarrow> of_char c = (10 :: nat)"
      by (simp add: word_unat_eq_iff byte_of_char)
    also have "\<dots> \<longleftrightarrow> of_char c = (of_char CHR 0x0A :: nat)" by simp
    finally show ?thesis by (simp only: of_char_eq_iff)
  qed
  then show ?thesis by (auto simp: bytes_of_text_def image_iff)
qed

lemma trim_end_line:
  assumes "s = of_chars cs" "list_all (\<lambda>c. c < 2097152) cs" "cs \<noteq> []" "\<not> is_whitespace (last cs)"
  shows "trim_end (s @ NL) = s"
proof -
  have "s @ NL = of_chars (cs @ [10])" by (simp add: assms(1) of_chars_def utf8_def NL_def char_of_def bit_0)
  moreover have "chars (of_chars (cs @ [10])) = cs @ [10]" using assms(2) by (intro chars_of_chars) simp
  moreover have "is_whitespace 10" by (simp add: is_whitespace_def)
  moreover have "dropWhile is_whitespace (rev cs) = rev cs" using assms(3,4) by (cases cs rule: rev_cases) auto
  ultimately show ?thesis by (simp add: trim_end_def assms(1))
qed

text \<open>A line that is all there is read whole.\<close>

lemma read_line_whole:
  assumes "in_bytes i = bytes_of_text (s @ NL)" "CHR 0x0A \<notin> set s" "valid_utf8 (bytes_of_text s)" "length s < limit"
  shows "read_line limit i = ReadText (s @ NL)"
proof -
  have b: "bytes_of_text (s @ NL) = bytes_of_text s @ [10]" by (simp add: bytes_of_text_def NL_def)
  have l: "length (bytes_of_text s) = length s" by (simp add: bytes_of_text_def)
  have no: "10 \<notin> set (bytes_of_text s)" using assms(2) by (simp add: newline_byte)
  then have "takeWhile (\<lambda>x. x \<noteq> 10) (bytes_of_text s @ [10]) = bytes_of_text s"
    by (subst takeWhile_append2) auto
  moreover have "valid_utf8 (bytes_of_text s @ [10])" using assms(3) by (simp add: valid_append)
  moreover have "text_of_bytes (bytes_of_text s @ [10]) = s @ NL"
    using text_of_bytes_of_text [of "s @ NL"] by (simp add: b)
  ultimately show ?thesis using assms(4) by (simp add: read_line_def assms(1) b l Let_def)
qed

text \<open>One line of text, as serde writes a request or a reply: a JSON object, with no newline in it.\<close>

definition json_line :: "nat \<Rightarrow> string \<Rightarrow> bool" where
  "json_line limit s \<longleftrightarrow>
     CHR 0x0A \<notin> set s \<and> valid_utf8 (bytes_of_text s) \<and> length s < limit \<and>
     (\<exists>cs. s = of_chars cs \<and> list_all (\<lambda>c. c < 2097152) cs \<and> cs \<noteq> [] \<and> \<not> is_whitespace (last cs))"

lemma answer_status:
  assumes "json_line REQUEST_LIMIT (js_request js)" "js_read_request js (js_request js @ NL) = Inr ()" "js_status js status = Inr reply"
    and "in_bytes i = request_line js"
  shows "answer VERSION js status i = (Some (bytes_of_text (reply @ NL)), False)"
proof -
  have "read_line REQUEST_LIMIT i = ReadText (js_request js @ NL)"
    using assms(1,4) by (intro read_line_whole) (auto simp: json_line_def request_line_def)
  then show ?thesis using assms(2,3) by (simp add: answer_def Let_def NL_def)
qed

lemma ask_reply:
  assumes "asked p = Inr i" "in_bytes i = bytes_of_text (reply @ NL)" "json_line REPLY_LIMIT reply"
  shows "ask asked p = Inr reply"
proof -
  have "read_line REPLY_LIMIT i = ReadText (reply @ NL)"
    using assms(2,3) by (intro read_line_whole) (auto simp: json_line_def)
  moreover have "trim_end (reply @ NL) = reply" using assms(3) trim_end_line by (auto simp: json_line_def)
  ultimately show ?thesis using assms(1) by (simp add: ask_def NL_def)
qed

lemma ask_paths_first:
  assumes "p \<in> set ps" "asks p = Inr line" "\<And>q. q \<in> set (takeWhile (\<lambda>q. q \<noteq> p) ps) \<Longrightarrow> \<exists>e. asks q = Inl e"
  shows "fst (ask_paths asks ps) = Some line"
  using assms
proof (induction ps)
  case (Cons q ps)
  show ?case
  proof (cases "q = p")
    case False
    then obtain e where "asks q = Inl e" using Cons.prems(3) by force
    with False Cons show ?thesis by (auto split: prod.split)
  qed (use Cons.prems(2) in simp)
qed simp

text \<open>
  C34: \<open>hawse status\<close> reaches the process and says what it said. A process started from a unit, by root or by a user binds
  its socket at some path; a caller on that host, with the same user's directories unless the path is the
  system's, tries that path. Given that serde reads back the request it writes and writes one line, and
  that nothing answers on a path tried before, the caller gets exactly the status the process gave, in one request
  within the limits of both ends, and reports no role as refused.
\<close>

theorem status_says_what_was_answered:
  assumes "place role env = PlaceAt p" "en_linux caller = en_linux env"
    and "en_runtime_directory env = None \<or> en_runtime_directory env = en_runtime_directory caller \<or>
      en_linux env \<and> en_runtime_directory env = Some (unit_runtime role)"
    and "en_runtime_directory env = None \<Longrightarrow> \<not> (en_root env \<and> en_linux env) \<Longrightarrow> en_xdg_runtime_dir caller = en_xdg_runtime_dir env \<and> en_state_dir caller = en_state_dir env"
    and json: "json_line REQUEST_LIMIT (js_request js)" "js_read_request js (js_request js @ NL) = Inr ()"
      "js_status js status = Inr reply" "json_line REPLY_LIMIT reply"
    and conn: "asked p = Inr i" "fst (answer VERSION js status \<lparr>in_bytes = request_line js, in_ended = shut, in_error = None\<rparr>) = Some (in_bytes i)"
    and before: "\<And>q. q \<in> set (takeWhile (\<lambda>q. q \<noteq> p) (candidates role caller)) \<Longrightarrow> \<exists>e. asked q = Inl e"
  shows "ask_each (ask asked) caller (Some role) = ([(role, reply)], []) \<and>
    (role, reply) \<in> set (fst (ask_each (ask asked) caller None)) \<and> role \<notin> set (snd (ask_each (ask asked) caller None))"
proof -
  have "p \<in> set (candidates role caller)" using assms(1-4) by (rule caller_finds_process)
  moreover have "in_bytes i = bytes_of_text (reply @ NL)" using conn(2) answer_status [OF json(1,2,3)] by simp
  then have "ask asked p = Inr reply" using conn(1) json(4) by (intro ask_reply)
  moreover have "\<exists>e. ask asked q = Inl e" if "q \<in> set (takeWhile (\<lambda>q. q \<noteq> p) (candidates role caller))" for q
    using before [OF that] by (auto simp: ask_def)
  ultimately have "fst (ask_paths (ask asked) (candidates role caller)) = Some reply" by (rule ask_paths_first)
  then obtain r where "ask_paths (ask asked) (candidates role caller) = (Some reply, r)" by (cases "ask_paths (ask asked) (candidates role caller)") auto
  then show ?thesis by (cases role) (auto simp: ask_each_def split: prod.split option.split)
qed

definition tiny_json :: "string Json" where
  "tiny_json = \<lparr>js_request = ''{}'', js_read_request = (\<lambda>_. Inr ()), js_refusal = (\<lambda>e. e), js_status = Inr\<rparr>"

definition unit_env :: Env where
  "unit_env = \<lparr>en_notify = True, en_runtime_directory = Some (unit_runtime RoleServer), en_root = False, en_linux = True, en_xdg_runtime_dir = None, en_state_dir = None\<rparr>"

definition at_system_path :: "path \<Rightarrow> AskError + Incoming" where
  "at_system_path q = (if q = system_path RoleServer then Inr \<lparr>in_bytes = bytes_of_text (''{up}'' @ NL), in_ended = True, in_error = None\<rparr> else Inl AskNotFound)"

lemma json_lineI:
  "CHR 0x0A \<notin> set s \<Longrightarrow> valid_utf8 (bytes_of_text s) \<Longrightarrow> length s < limit \<Longrightarrow> s = of_chars (cs @ [c]) \<Longrightarrow>
   list_all (\<lambda>c. c < 2097152) (cs @ [c]) \<Longrightarrow> \<not> is_whitespace c \<Longrightarrow> json_line limit s"
  unfolding json_line_def by (intro conjI exI [of _ "cs @ [c]"]) simp_all

lemma tiny_lines: "json_line REQUEST_LIMIT ''{}''" "json_line REPLY_LIMIT ''{up}''"
proof -
  have e: "''{}'' = of_chars ([123] @ [125])" "''{up}'' = of_chars ([123, 117, 112] @ [125])" by code_simp+
  have v: "valid_utf8 (bytes_of_text ''{}'')" "valid_utf8 (bytes_of_text ''{up}'')" by code_simp+
  have w: "\<not> is_whitespace 125" by (simp add: is_whitespace_def)
  show "json_line REQUEST_LIMIT ''{}''" by (rule json_lineI [OF _ v(1) _ e(1) _ w]) (simp_all add: REQUEST_LIMIT_def)
  show "json_line REPLY_LIMIT ''{up}''" by (rule json_lineI [OF _ v(2) _ e(2) _ w]) (simp_all add: REPLY_LIMIT_def)
qed

theorem status_says_what_was_answered_witness:
  "ask_each (ask at_system_path) user_env (Some RoleServer) = ([(RoleServer, ''{up}'')], [])"
proof -
  have p: "place RoleServer unit_env = PlaceAt (system_path RoleServer)"
    by (simp add: place_def unit_env_def unit_runtime_def system_path_def)
  have t: "json_line REQUEST_LIMIT (js_request tiny_json)" "js_status tiny_json ''{up}'' = Inr ''{up}''"
      "js_read_request tiny_json (js_request tiny_json @ NL) = Inr ()"
    using tiny_lines(1) by (simp_all add: tiny_json_def)
  have a: "fst (answer ''1'' tiny_json ''{up}'' \<lparr>in_bytes = request_line tiny_json, in_ended = True, in_error = None\<rparr>) =
      Some (in_bytes \<lparr>in_bytes = bytes_of_text (''{up}'' @ NL), in_ended = True, in_error = None\<rparr>)"
    by (subst answer_status [OF t(1,3,2)]) simp_all
  show ?thesis
    by (rule status_says_what_was_answered [OF p _ _ _ t(1,3,2) tiny_lines(2) _ a, THEN conjunct1])
      (auto simp: unit_env_def user_env_def at_system_path_def candidates_def map_filter_simps)
qed

end
