(* ===== verification/Identity.thy ===== *)
theory Identity
  imports Host_Files Proto_Key
begin

text \<open>
  \<open>hawse-core/src/identity.rs\<close>: the key a server or a client is known by, read from its file or made
  and written there. Key pairs are the \<open>rcgen\<close> crate's: how one is generated, written as PEM, read
  from it, and what its algorithm and public key are, are arguments.
\<close>

record ('kp, 'rc) Rcgen =
  rc_generate :: "'rc + 'kp"
  rc_from_pem :: "string \<Rightarrow> 'rc + 'kp"
  rc_serialize_pem :: "'kp \<Rightarrow> string"
  rc_is_ed25519 :: "'kp \<Rightarrow> bool"
  rc_algorithm :: "'kp \<Rightarrow> string"
  rc_public_key_raw :: "'kp \<Rightarrow> bytes"

record 'kp Identity =
  id_key_pair :: 'kp
  id_public :: PublicKey

datatype 'rc IdentityError =
    IdRead path IoError
  | IdWrite path IoError
  | IdParse 'rc
  | IdWrongAlgorithm string
  | IdGenerate 'rc
  | IdCertificate 'rc
  | IdPanicked string

fun identity_error_text :: "'rc IdentityError \<Rightarrow> string" where
  "identity_error_text (IdRead path _) = ''cannot read key file '' @ path_text path"
| "identity_error_text (IdWrite path _) = ''cannot write key file '' @ path_text path"
| "identity_error_text (IdParse _) = ''key file is not a PKCS#8 PEM private key''"
| "identity_error_text (IdWrongAlgorithm a) = ''key is '' @ a @ ''; only Ed25519 is supported''"
| "identity_error_text (IdGenerate _) = ''key generation failed''"
| "identity_error_text (IdCertificate _) = ''certificate generation failed''"
| "identity_error_text (IdPanicked m) = m"

definition from_key_pair :: "('kp, 'rc) Rcgen \<Rightarrow> 'kp \<Rightarrow> 'rc IdentityError + 'kp Identity" where
  "from_key_pair rc kp =
     (if \<not> rc_is_ed25519 rc kp then Inl (IdWrongAlgorithm (rc_algorithm rc kp))
      else case from_slice (rc_public_key_raw rc kp) of
             Inl _ \<Rightarrow> Inl (IdPanicked ''an Ed25519 public key is 32 bytes'')
           | Inr public \<Rightarrow> Inr \<lparr>id_key_pair = kp, id_public = public\<rparr>)"

definition identity_generate :: "('kp, 'rc) Rcgen \<Rightarrow> 'rc IdentityError + 'kp Identity" where
  "identity_generate rc = (case rc_generate rc of Inl e \<Rightarrow> Inl (IdGenerate e) | Inr kp \<Rightarrow> from_key_pair rc kp)"

definition identity_from_pem :: "('kp, 'rc) Rcgen \<Rightarrow> string \<Rightarrow> 'rc IdentityError + 'kp Identity" where
  "identity_from_pem rc pem = (case rc_from_pem rc pem of Inl e \<Rightarrow> Inl (IdParse e) | Inr kp \<Rightarrow> from_key_pair rc kp)"

definition to_pem :: "('kp, 'rc) Rcgen \<Rightarrow> 'kp Identity \<Rightarrow> string" where
  "to_pem rc i = rc_serialize_pem rc (id_key_pair i)"

text \<open>
  \<open>Identity::certificate\<close>: self-signed, with the key pair's own private key beside it. What \<open>rcgen\<close> needs
  for it (parameters with no names, signing, the key as DER) are further arguments.
\<close>

definition certificate ::
  "'rc + 'params \<Rightarrow> ('params \<Rightarrow> 'kp \<Rightarrow> 'rc + bytes) \<Rightarrow> ('kp \<Rightarrow> bytes) \<Rightarrow> 'kp Identity \<Rightarrow> 'rc IdentityError + bytes \<times> bytes" where
  "certificate new_params self_signed serialize_der i =
     (case new_params of
        Inl e \<Rightarrow> Inl (IdCertificate e)
      | Inr params \<Rightarrow>
          (case self_signed params (id_key_pair i) of
             Inl e \<Rightarrow> Inl (IdCertificate e)
           | Inr cert \<Rightarrow> Inr (cert, serialize_der (id_key_pair i))))"

definition lift_result :: "'e + 'a \<Rightarrow> ('e, 'a) io" where
  "lift_result r = (case r of Inl e \<Rightarrow> fail e | Inr x \<Rightarrow> ok x)"

text \<open>A new file, the directories above it made first: opened with \<open>create_new\<close>, then written.\<close>

definition new_file :: "Host \<Rightarrow> u32 \<Rightarrow> path \<Rightarrow> bytes \<Rightarrow> (IoError, unit) io" where
  "new_file h mode path bytes =
     bind (case parent path of Some dir \<Rightarrow> fs_create_dir_all h dir | None \<Rightarrow> ok ()) (\<lambda>_.
     bind (fs_create_new h mode path) (\<lambda>_.
     fs_write h path bytes))"

definition write_private :: "Host \<Rightarrow> path \<Rightarrow> bytes \<Rightarrow> (IoError, unit) io" where
  "write_private h path bytes = new_file h 0x180 path bytes"

definition load_or_create :: "('kp, 'rc) Rcgen \<Rightarrow> Host \<Rightarrow> path \<Rightarrow> ('rc IdentityError, 'kp Identity \<times> bool) io" where
  "load_or_create rc h path =
     bind (attempt (fs_read_to_string h path)) (\<lambda>r.
       case r of
         Inr pem \<Rightarrow> bind (lift_result (identity_from_pem rc pem)) (\<lambda>i. ok (i, False))
       | Inl NotFound \<Rightarrow>
           bind (lift_result (identity_generate rc)) (\<lambda>identity.
           bind (map_err (IdWrite path) (write_private h path (bytes_of_text (to_pem rc identity)))) (\<lambda>_.
           ok (identity, True)))
       | Inl source \<Rightarrow> fail (IdRead path source))"

section \<open>Reading and making a key\<close>

lemma real_path_file: "fs p = Some (File b m) \<Longrightarrow> real_path fs p = Some p" "fs p = Some (Directory m) \<Longrightarrow> real_path fs p = Some p"
  by (simp_all add: real_path_def)

lemma stat_file: "fs p = Some (File b m) \<Longrightarrow> stat fs p = Some (File b m)"
  by (simp add: stat_def real_path_file)

lemma fs_create_new_eval: "fs_create_new h mode p w =
  (case h_fails h (CreateNew p) (w_files w) of
     Some e \<Rightarrow> (Inl e, w)
   | None \<Rightarrow>
       (if w_files w p = None then (Inr (), w\<lparr>w_files := (w_files w)(p \<mapsto> File [] (fresh_meta h mode))\<rparr>) else (Inl AlreadyExists, w)))"
  by (simp add: fs_create_new_def allowed_def bind_get_files io_return split: option.split)

lemma fs_write_eval: "w_files w p = Some (File c m) \<Longrightarrow> fs_write h p b w =
  (case h_fails h (WriteFile p) (w_files w) of
     Some e \<Rightarrow> (Inl e, w)
   | None \<Rightarrow> (Inr (), w\<lparr>w_files := (w_files w)(p \<mapsto> File b m)\<rparr>))"
  by (simp add: fs_write_def allowed_def bind_get_files io_return written_def real_path_file split: option.split)

lemma new_file_new:
  assumes "new_file h mode p b w = (r, w')"
  shows "only_adds (w_files w) (w_files w')"
    and "r = Inr x \<Longrightarrow> w_files w p = None \<and> w_files w' p = Some (File b (fresh_meta h mode))"
proof -
  define dirs :: "(IoError, unit) io" where "dirs = (case parent p of Some dir \<Rightarrow> fs_create_dir_all h dir | None \<Rightarrow> ok ())"
  have dirs: "only_adds.keeps dirs" by (auto simp: dirs_def create_adds only_adds.keeps_pure split: option.split)
  obtain r1 w1 where 1: "dirs w = (r1, w1)" by fastforce
  have a1: "only_adds (w_files w) (w_files w1)" by (rule only_adds.keepsD [OF dirs 1])
  have go: "new_file h mode p b w = (case r1 of Inl e \<Rightarrow> (Inl e, w1) | Inr _ \<Rightarrow> bind (fs_create_new h mode p) (\<lambda>_. fs_write h p b) w1)"
    by (simp add: new_file_def dirs_def [symmetric] bind_def 1)
  obtain r2 w2 where 2: "fs_create_new h mode p w1 = (r2, w2)" by fastforce
  have "only_adds (w_files w1) (w_files w') \<and> (r = Inr x \<longrightarrow> w_files w1 p = None \<and> w_files w' p = Some (File b (fresh_meta h mode)))"
  proof (cases r1)
    case (Inl e)
    then show ?thesis using go assms by (auto simp: only_adds.refl)
  next
    case (Inr u)
    with go assms 2 have rest: "(case r2 of Inl e \<Rightarrow> (Inl e, w2) | Inr _ \<Rightarrow> fs_write h p b w2) = (r, w')" by (simp add: bind_def)
    show ?thesis
    proof (cases "h_fails h (CreateNew p) (w_files w1) = None \<and> w_files w1 p = None")
      case False
      then have "r2 \<noteq> Inr ()" "w2 = w1" using 2 by (auto simp: fs_create_new_eval split: option.splits if_splits)
      then show ?thesis using rest by (auto simp: only_adds.refl split: sum.splits)
    next
      case True
      then have r2: "r2 = Inr ()" and w2: "w2 = w1\<lparr>w_files := (w_files w1)(p \<mapsto> File [] (fresh_meta h mode))\<rparr>"
        using 2 by (simp_all add: fs_create_new_eval)
      have "w_files w2 p = Some (File [] (fresh_meta h mode))" using w2 by simp
      from fs_write_eval [OF this, of h b] rest r2 True w2 show ?thesis
        by (auto simp: only_adds_def split: option.splits)
    qed
  qed
  then show "only_adds (w_files w) (w_files w')" "r = Inr x \<Longrightarrow> w_files w p = None \<and> w_files w' p = Some (File b (fresh_meta h mode))"
    using a1 only_adds.trans by (auto simp: only_adds_def)
qed

lemma ancestors_prefix: "q \<in> set (ancestors p) \<Longrightarrow> prefix q p"
  by (auto simp: ancestors_def take_is_prefix)

lemma fs_create_dir_all_outside: "outside.keeps {q. prefix q p} (fs_create_dir_all h p)"
  unfolding fs_create_dir_all_def
proof (rule outside.keeps_put)
  fix w :: World
  have "fs' q = w_files w q"
    if "make_dirs h (filter (\<lambda>d. d \<noteq> []) (rev (ancestors p))) (w_files w) = Inr fs'" "\<not> prefix q p" for fs' q
    using make_dirs_adds [OF that(1)] that(2) ancestors_prefix [of q p] by auto
  then show "outside {q. prefix q p} (w_files w) (w_files (snd
      ((case make_dirs h (filter (\<lambda>d. d \<noteq> []) (rev (ancestors p))) (w_files w) of Inl e \<Rightarrow> fail e | Inr fs' \<Rightarrow> put_files fs') w)))"
    by (auto simp: io_return outside_def split: sum.split)
qed

lemma new_file_outside: "outside.keeps {q. prefix q p} (new_file h mode p b)"
proof -
  have 1: "outside.keeps {q. prefix q p} (case parent p of Some dir \<Rightarrow> fs_create_dir_all h dir | None \<Rightarrow> ok ())"
  proof (cases "parent p")
    case (Some dir)
    then have "prefix dir p" by (auto simp: parent_def prefixeq_butlast split: if_splits)
    then have "{q. prefix q dir} \<subseteq> {q. prefix q p}" by (auto intro: prefix_order.trans)
    then show ?thesis using Some fs_create_dir_all_outside [of dir h]
      unfolding outside.keeps_def by (auto simp: outside_def)
  qed (simp add: outside.keeps_pure)
  have 2: "outside.keeps {q. prefix q p} (fs_create_new h mode p)"
    unfolding outside.keeps_def by (auto simp: fs_create_new_eval outside_def split: option.split)
  have "outside {q. prefix q p} (w_files w) (w_files (snd (bind (fs_create_new h mode p) (\<lambda>_. fs_write h p b) w)))" for w
    by (auto simp: bind_def fs_create_new_eval fs_write_eval [of _ p "[]"] outside_def split: option.split sum.split prod.split)
  then show ?thesis unfolding new_file_def by (intro outside.keeps_bind [OF 1]) (simp add: outside.keeps_def)
qed

lemmas write_private_new = new_file_new [of h "0x180" for h, folded write_private_def]

lemma fs_read_to_string_pure: "fs_read_to_string h p w = (r, w') \<Longrightarrow> w' = w"
  by (auto simp: fs_read_to_string_def fs_read_def allowed_def bind_def io_return split: option.splits Node.splits if_splits)

lemma lift_result_pure: "lift_result x w = (x, w)"
  by (simp add: lift_result_def io_return split: sum.split)

lemma load_or_create_cases:
  assumes "load_or_create rc h p w = (r, w')"
  obtains (old) "w' = w" "\<And>i. r \<noteq> Inr (i, True)"
  | (failed) identity e where "write_private h p (bytes_of_text (to_pem rc identity)) w = (Inl e, w')" "r = Inl (IdWrite p e)"
  | (new) identity where "identity_generate rc = Inr identity"
      "write_private h p (bytes_of_text (to_pem rc identity)) w = (Inr (), w')" "r = Inr (identity, True)"
proof -
  obtain r1 w1 where 1: "fs_read_to_string h p w = (r1, w1)" by fastforce
  then have w1: "w1 = w" by (rule fs_read_to_string_pure)
  note go = assms [unfolded load_or_create_def bind_def attempt_def 1 w1]
  show ?thesis
  proof (cases r1)
    case (Inr pem)
    with go show ?thesis by (intro old) (auto simp: lift_result_pure io_return split: sum.splits)
  next
    case (Inl e)
    show ?thesis
    proof (cases "e = NotFound")
      case False
      with go Inl show ?thesis by (intro old) (auto simp: io_return split: IoError.splits)
    next
      case True
      show ?thesis
      proof (cases "identity_generate rc")
        case (Inl e')
        with go \<open>r1 = Inl e\<close> True show ?thesis by (intro old) (auto simp: lift_result_pure)
      next
        case (Inr i)
        obtain r2 w2 where 2: "write_private h p (bytes_of_text (to_pem rc i)) w = (r2, w2)" by fastforce
        show ?thesis
        proof (cases r2)
          case (Inl e')
          with go \<open>r1 = Inl e\<close> True Inr 2 show ?thesis by (intro failed [of i e']) (auto simp: lift_result_pure map_err_def)
        next
          case (Inr u)
          with go \<open>r1 = Inl e\<close> True \<open>identity_generate rc = Inr i\<close> 2 show ?thesis
            by (intro new [of i]) (auto simp: lift_result_pure map_err_def io_return)
        qed
      qed
    qed
  qed
qed

lemma from_key_pair_kept: "from_key_pair rc kp = Inr i \<Longrightarrow> id_key_pair i = kp"
  by (auto simp: from_key_pair_def split: if_splits sum.splits)

text \<open>
  C27: a key is made once and read from then on. Whatever the host refuses, no file that was there is
  changed, a key file least of all; when a key is made, nothing was at its path, and the file holds its
  PEM and lets no account but its owner read it; and whoever loads it next gets the very key that was
  made, and makes none.
\<close>

theorem key_made_once:
  assumes "load_or_create rc h path w = (r, w')"
    and "\<And>kp. rc_from_pem rc (rc_serialize_pem rc kp) = Inr kp"
    and "\<And>kp. valid_utf8 (bytes_of_text (rc_serialize_pem rc kp))"
  shows "(\<forall>p. w_files w p \<noteq> None \<longrightarrow> w_files w' p = w_files w p) \<and>
    (\<forall>i. r = Inr (i, True) \<longrightarrow> w_files w path = None \<and>
      (\<exists>m. w_files w' path = Some (File (bytes_of_text (to_pem rc i)) m) \<and> and (m_mode m) 0x3F = 0) \<and>
      (\<forall>h' w''. w_files w'' path = w_files w' path \<and> h_fails h' (ReadFile path) (w_files w'') = None \<longrightarrow>
        load_or_create rc h' path w'' = (Inr (i, False), w'')))"
  using assms(1)
proof (cases rule: load_or_create_cases)
  case old
  then show ?thesis by simp
next
  case (failed i e)
  from write_private_new(1) [OF failed(1)] show ?thesis by (simp add: failed(2) only_adds_def)
next
  case (new i)
  have adds: "only_adds (w_files w) (w_files w')" by (rule write_private_new(1) [OF new(2)])
  have at: "w_files w path = None" "w_files w' path = Some (File (bytes_of_text (to_pem rc i)) (fresh_meta h 0x180))"
    using write_private_new(2) [OF new(2)] by simp_all
  have closed: "and (m_mode (fresh_meta h 0x180)) 0x3F = 0"
  proof -
    have "and (and 0x180 (not (h_umask h))) 0x3F = and (and 0x180 0x3F) (not (h_umask h))" by (simp only: ac_simps)
    then show ?thesis by (simp add: fresh_meta_def)
  qed
  obtain kp where kp: "from_key_pair rc kp = Inr i" using new(1) by (auto simp: identity_generate_def split: sum.splits)
  have again: "identity_from_pem rc (to_pem rc i) = Inr i"
    using kp from_key_pair_kept [OF kp] by (simp add: identity_from_pem_def to_pem_def assms(2))
  have "load_or_create rc h' path w'' = (Inr (i, False), w'')"
    if "w_files w'' path = w_files w' path" "h_fails h' (ReadFile path) (w_files w'') = None" for h' w''
    using that at(2) assms(3) [of "id_key_pair i"] again
    by (simp add: load_or_create_def fs_read_to_string_def fs_read_def bind_def attempt_def allowed_def get_files_def
        stat_file io_return lift_result_pure to_pem_def)
  with adds at closed show ?thesis by (auto simp: new(3) only_adds_def)
qed

definition small_rcgen :: "(bool, unit) Rcgen" where
  "small_rcgen = \<lparr>rc_generate = Inr True, rc_from_pem = (\<lambda>pem. Inr (pem = ''key'')), rc_serialize_pem = (\<lambda>k. if k then ''key'' else ''none''),
     rc_is_ed25519 = (\<lambda>_. True), rc_algorithm = (\<lambda>_. []), rc_public_key_raw = (\<lambda>_. replicate 32 7)\<rparr>"

definition small_key :: path where "small_key = [RootDir, Normal ''var'', Normal ''client.key'']"

lemma small_key_made: "fst (load_or_create small_rcgen small_host small_key small_world) = Inr (\<lparr>id_key_pair = True, id_public = PublicKey (replicate 32 7)\<rparr>, True)"
  by (simp add: load_or_create_def fs_read_to_string_def fs_read_def bind_def attempt_def allowed_def get_files_def io_return
      small_host_def small_world_def small_key_def small_rcgen_def stat_def real_path_def lift_result_def identity_generate_def
      from_key_pair_def from_slice_def map_err_def write_private_def new_file_def parent_def fs_create_dir_all_def ancestors_def is_absolute_def
      upt_rec is_dir_def fs_create_new_def fs_write_def written_def to_pem_def)

theorem key_made_once_witness:
  "load_or_create small_rcgen small_host small_key (snd (load_or_create small_rcgen small_host small_key small_world)) =
    (Inr (\<lparr>id_key_pair = True, id_public = PublicKey (replicate 32 7)\<rparr>, False), snd (load_or_create small_rcgen small_host small_key small_world))"
proof -
  have pem: "rc_from_pem small_rcgen (rc_serialize_pem small_rcgen kp) = Inr kp"
    "valid_utf8 (bytes_of_text (rc_serialize_pem small_rcgen kp))" for kp
    by (cases kp; simp add: small_rcgen_def bytes_of_text_def)+
  have "h_fails small_host (ReadFile small_key) fs = None" for fs by (simp add: small_host_def)
  with key_made_once [where rc = small_rcgen and h = small_host and path = small_key and w = small_world, OF prod.collapse [symmetric] pem] small_key_made
  show ?thesis by blast
qed

end
