(* ===== verification/Cmd_Config.thy ===== *)
theory Cmd_Config
  imports Cmd_Paths Identity Client_Session
begin

text \<open>
  \<open>hawse/src/config_file.rs\<close> and the commands that read or write a config: \<open>check\<close>, \<open>keygen\<close> and \<open>join\<close>
  (\<open>hawse/src/commands\<close>). TOML is the \<open>toml\<close> crate's: what a text parses to, and how a string is
  written, are arguments; so is the distance of two words, the \<open>strsim\<close> crate's. Log lines are left
  out, what goes to standard output is kept.
\<close>

section \<open>Loading a config\<close>

record TomlError =
  te_message :: string
  te_span :: "(nat \<times> nat) option"

datatype 'net LoadError =
    LoadRead path IoError
  | LoadParse string "path \<times> string" "(nat \<times> nat) option"
  | LoadInvalid "'net ConfigError"
  | LoadMissingClient path
  | LoadNothing path path

datatype ('net, 'rc) Failure = Reported Report | NotLoaded "'net LoadError" | NoIdentity string "'rc IdentityError"

definition CLIENT_ONLY :: "string list" where "CLIENT_ONLY = [''server'', ''server_key'', ''name'', ''expose'']"

definition SERVER_ONLY :: "string list" where
  "SERVER_ONLY = [''listen'', ''bind'', ''dynamic_ports'', ''quic_retry'', ''limits'', ''clients'']"

definition parse_config :: "(string \<Rightarrow> TomlError + 'cfg) \<Rightarrow> path \<Rightarrow> string \<Rightarrow> 'net LoadError + 'cfg" where
  "parse_config from_str path text =
     (case from_str text of Inl e \<Rightarrow> Inl (LoadParse (te_message e) (path, text) (te_span e)) | Inr cfg \<Rightarrow> Inr cfg)"

text \<open>Every second piece, from the second: what stands between quotes.\<close>

fun odd_pieces :: "'a list \<Rightarrow> 'a list" where
  "odd_pieces (_ # b # rest) = b # odd_pieces rest"
| "odd_pieces _ = []"

text \<open>\<open>min_by_key\<close>: the first of the least.\<close>

fun first_least :: "(nat \<times> 'a) option \<Rightarrow> (nat \<times> 'a) list \<Rightarrow> (nat \<times> 'a) option" where
  "first_least best [] = best"
| "first_least best (x # xs) =
     first_least (case best of None \<Rightarrow> Some x | Some b \<Rightarrow> if fst x < fst b then Some x else Some b) xs"

definition suggest :: "(string \<Rightarrow> string \<Rightarrow> nat) \<Rightarrow> string \<Rightarrow> string option" where
  "suggest osa_distance message =
     (case strip_prefix ''unknown '' message of
        None \<Rightarrow> None
      | Some rest \<Rightarrow>
          (case odd_pieces (splits_at CHR ''`'' rest) of
             [] \<Rightarrow> None
           | unknown' # expected \<Rightarrow>
               (let other = (if ''listen'' \<in> set expected then Some (''client'', CLIENT_ONLY)
                             else if ''server_key'' \<in> set expected then Some (''server'', SERVER_ONLY) else None);
                    belongs = (case other of Some (role, keys) \<Rightarrow> if unknown' \<in> set keys then Some role else None | None \<Rightarrow> None);
                    limit = max (length (chars unknown') div 3) 1
                in case belongs of
                     Some role \<Rightarrow> Some (''`'' @ unknown' @ ''` belongs in a '' @ role @ [CHR 0x27] @ ''s config, read by `hawse '' @ role @ ''`'')
                   | None \<Rightarrow>
                       map_option (\<lambda>(_, name). ''did you mean `'' @ name @ ''`?'')
                         (first_least None (filter (\<lambda>(d, _). d \<le> limit) (map (\<lambda>name. (osa_distance unknown' name, name)) expected))))))"

definition config_help :: "(string \<Rightarrow> string \<Rightarrow> nat) \<Rightarrow> string \<Rightarrow> string" where
  "config_help osa_distance message =
     (case suggest osa_distance message of Some s \<Rightarrow> s | None \<Rightarrow> ''fix the highlighted value and start hawse again'')"

definition read_config :: "Host \<Rightarrow> path \<Rightarrow> ('net LoadError, string) io" where
  "read_config h path = map_err (LoadRead path) (fs_read_to_string h path)"

definition locate_io :: "Host \<Rightarrow> path option \<Rightarrow> Role \<Rightarrow> path option \<Rightarrow> ('e, Located) io" where
  "locate_io h user_dir role explicit = bind get_files (\<lambda>fs. ok (locate fs user_dir (is_root h) role explicit))"

definition load_server :: "('net, 'x) ipnet_scheme \<Rightarrow> (string \<Rightarrow> TomlError + 'net ServerConfig) \<Rightarrow> Host \<Rightarrow> path option \<Rightarrow> path option \<Rightarrow>
    ('net LoadError, 'net ServerConfig \<times> Located) io" where
  "load_server net from_str h user_dir explicit =
     bind (locate_io h user_dir RoleServer explicit) (\<lambda>located.
     bind (if lc_exists located
           then bind (read_config h (lc_file located)) (\<lambda>text. lift_result (parse_config from_str (lc_file located) text))
           else ok default_server_config) (\<lambda>cfg.
     bind (map_err LoadInvalid (lift_result (server_validate net cfg))) (\<lambda>_.
     ok (cfg, located))))"

definition load_client :: "('net, 'x) ipnet_scheme \<Rightarrow> (string \<Rightarrow> TomlError + 'net ClientConfig) \<Rightarrow> Host \<Rightarrow> path option \<Rightarrow> path option \<Rightarrow>
    ('net LoadError, 'net ClientConfig \<times> Located) io" where
  "load_client net from_str h user_dir explicit =
     bind (locate_io h user_dir RoleClient explicit) (\<lambda>located.
     if \<not> lc_exists located then fail (LoadMissingClient (lc_file located))
     else
       bind (read_config h (lc_file located)) (\<lambda>text.
       bind (lift_result (parse_config from_str (lc_file located) text)) (\<lambda>cfg.
       bind (map_err LoadInvalid (lift_result (client_validate net cfg))) (\<lambda>_.
       ok (cfg, located)))))"

definition roles :: "(string \<Rightarrow> TomlError + string list) \<Rightarrow> Host \<Rightarrow> path option \<Rightarrow> path option \<Rightarrow> ('net LoadError, Role list) io" where
  "roles table_keys h user_dir explicit =
     (case explicit of
        Some path \<Rightarrow>
          bind (read_config h path) (\<lambda>text.
          bind (lift_result (parse_config table_keys path text)) (\<lambda>keys.
          ok [if list_ex (\<lambda>key. key \<in> set keys) CLIENT_ONLY then RoleClient else RoleServer]))
      | None \<Rightarrow>
          bind (locate_io h user_dir RoleServer None) (\<lambda>server.
          bind (locate_io h user_dir RoleClient None) (\<lambda>client.
            let found = map fst (filter (\<lambda>(_, located). lc_exists located) [(RoleServer, server), (RoleClient, client)])
            in if found = [] then fail (LoadNothing (lc_file server) (lc_file client)) else ok found)))"

definition key_path_io :: "Host \<Rightarrow> Role \<Rightarrow> Located \<Rightarrow> string option \<Rightarrow> ('e, path) io" where
  "key_path_io h role located key = bind get_files (\<lambda>fs. ok (key_path h fs role located (map_option components key)))"

definition client_key_path :: "(string \<Rightarrow> TomlError + 'net ClientConfig) \<Rightarrow> Host \<Rightarrow> path option \<Rightarrow> path option \<Rightarrow> ('net LoadError, path) io" where
  "client_key_path from_str h user_dir explicit =
     bind (locate_io h user_dir RoleClient explicit) (\<lambda>located.
     bind (if lc_exists located
           then bind (read_config h (lc_file located)) (\<lambda>text.
                map_err id (bind (lift_result (parse_config from_str (lc_file located) text)) (\<lambda>cfg. ok (cc_key cfg))))
           else ok None) (\<lambda>key.
     key_path_io h RoleClient located key))"

section \<open>\<open>hawse keygen\<close> and \<open>hawse check\<close>\<close>

definition keygen_run :: "(bytes \<Rightarrow> string) \<Rightarrow> ('kp, 'rc) Rcgen \<Rightarrow> (string \<Rightarrow> TomlError + 'net ClientConfig) \<Rightarrow> Host \<Rightarrow> path option \<Rightarrow>
    path option \<Rightarrow> path option \<Rightarrow> (('net, 'rc) Failure, unit) io" where
  "keygen_run encode64 rc from_str h user_dir config out =
     bind (case out of Some path \<Rightarrow> ok path | None \<Rightarrow> map_err NotLoaded (client_key_path from_str h user_dir config)) (\<lambda>path.
     bind (map_err (NoIdentity (''cannot create a key at '' @ path_text path)) (load_or_create rc h path)) (\<lambda>(identity, created).
     println (key_to_string encode64 (id_public identity))))"

definition load_key :: "('kp, 'rc) Rcgen \<Rightarrow> Host \<Rightarrow> path \<Rightarrow> (('net, 'rc) Failure, 'kp Identity option) io" where
  "load_key rc h path =
     (let what = ''cannot load the key at '' @ path_text path
      in bind (attempt (fs_read_to_string h path)) (\<lambda>r.
           case r of
             Inl NotFound \<Rightarrow> ok None
           | Inl e \<Rightarrow> fail (Reported (Wrapped what (Io e)))
           | Inr pem \<Rightarrow> map_err (NoIdentity what) (bind (lift_result (identity_from_pem rc pem)) (\<lambda>i. ok (Some i)))))"

text \<open>What \<open>check\<close> keeps of a client's config: with \<open>--connect\<close>, what it connects with.\<close>

type_synonym ('net, 'kp) checked = "('net ClientConfig \<times> 'kp Identity option \<times> path) option"

record 'net Toml =
  tm_server :: "string \<Rightarrow> TomlError + 'net ServerConfig"
  tm_client :: "string \<Rightarrow> TomlError + 'net ClientConfig"
  tm_table :: "string \<Rightarrow> TomlError + string list"
  tm_value :: "string \<Rightarrow> string"

definition check_role :: "('net, 'x) ipnet_scheme \<Rightarrow> 'net Toml \<Rightarrow> ('kp, 'rc) Rcgen \<Rightarrow> Host \<Rightarrow> path option \<Rightarrow> path option \<Rightarrow> Role \<Rightarrow>
    ('net, 'kp) checked \<Rightarrow> (('net, 'rc) Failure, ('net, 'kp) checked) io" where
  "check_role net toml rc h user_dir config role client =
     bind (case role of
             RoleServer \<Rightarrow> bind (map_err NotLoaded (load_server net (tm_server toml) h user_dir config)) (\<lambda>(cfg, located). ok (located, sc_key cfg, None))
           | RoleClient \<Rightarrow> bind (map_err NotLoaded (load_client net (tm_client toml) h user_dir config)) (\<lambda>(cfg, located). ok (located, cc_key cfg, Some cfg)))
       (\<lambda>(located, key, cfg).
     bind (key_path_io h role located key) (\<lambda>key_path.
     bind (load_key rc h key_path) (\<lambda>identity.
     ok (case cfg of Some cfg \<Rightarrow> Some (cfg, identity, key_path) | None \<Rightarrow> client))))"

fun check_roles :: "('net, 'x) ipnet_scheme \<Rightarrow> 'net Toml \<Rightarrow> ('kp, 'rc) Rcgen \<Rightarrow> Host \<Rightarrow> path option \<Rightarrow> path option \<Rightarrow> Role list \<Rightarrow>
    ('net, 'kp) checked \<Rightarrow> (('net, 'rc) Failure, ('net, 'kp) checked) io" where
  "check_roles net toml rc h user_dir config [] client = ok client"
| "check_roles net toml rc h user_dir config (role # rs) client =
     bind (check_role net toml rc h user_dir config role client) (check_roles net toml rc h user_dir config rs)"

definition check_run :: "('net, 'x) ipnet_scheme \<Rightarrow> 'net Toml \<Rightarrow> ('kp, 'rc) Rcgen \<Rightarrow> ('net ClientConfig \<Rightarrow> 'kp Identity \<Rightarrow> Report option) \<Rightarrow> Host \<Rightarrow>
    path option \<Rightarrow> path option \<Rightarrow> bool \<Rightarrow> (('net, 'rc) Failure, unit) io" where
  "check_run net toml rc probe h user_dir config connecting =
     bind (map_err NotLoaded (roles (tm_table toml) h user_dir config)) (\<lambda>rs.
     bind (check_roles net toml rc h user_dir config rs None) (\<lambda>client.
       if \<not> connecting then ok ()
       else case client of
         None \<Rightarrow> bind (locate_io h user_dir RoleClient config) (\<lambda>located. fail (NotLoaded (LoadMissingClient (lc_file located))))
       | Some (_, None, missing) \<Rightarrow>
           fail (Reported (Bail (''no client key at '' @ path_text missing @ '' to connect with; `hawse keygen` creates it'')))
       | Some (cfg, Some identity, _) \<Rightarrow>
           (case probe cfg identity of
              Some e \<Rightarrow> fail (Reported (Wrapped (''cannot connect to '' @ cc_server cfg) e))
            | None \<Rightarrow> ok ())))"

section \<open>\<open>hawse join\<close>\<close>

definition write_new :: "Host \<Rightarrow> path \<Rightarrow> string \<Rightarrow> (IoError, unit) io" where
  "write_new h path text = new_file h 0x1B6 path (bytes_of_text text)"

record Join =
  j_written :: bool
  j_joined :: bool
  j_failed :: "string option"
  j_cancelled :: bool

fun is_answer :: "ClientEvent \<Rightarrow> bool" where
  "is_answer (CeConnected _ _ _ _ _) = True"
| "is_answer (CeDenied _) = True"
| "is_answer _ = False"

definition join_event :: "Host \<Rightarrow> path \<Rightarrow> string \<Rightarrow> Join \<Rightarrow> ClientEvent \<Rightarrow> (Report, Join) io" where
  "join_event h file text j event =
     bind (if is_answer event \<and> \<not> j_written j
           then bind (wrap_err (''cannot write '' @ path_text file) (write_new h file text)) (\<lambda>_. ok (j\<lparr>j_written := True\<rparr>))
           else ok j) (\<lambda>j.
       ok (case event of
             CeConnected _ _ _ _ _ \<Rightarrow> j\<lparr>j_joined := True, j_cancelled := True\<rparr>
           | CeDisconnected cause _ \<Rightarrow>
               (if \<not> j_written j \<or> cause \<noteq> DcDenied
                then if j_written j then j else j\<lparr>j_failed := Some (reason cause), j_cancelled := True\<rparr>
                else j)
           | _ \<Rightarrow> j))"

fun join_loop :: "Host \<Rightarrow> path \<Rightarrow> string \<Rightarrow> Join \<Rightarrow> ClientEvent list \<Rightarrow> (Report, Join) io" where
  "join_loop h file text j [] = ok j"
| "join_loop h file text j (event # events) = bind (join_event h file text j event) (\<lambda>j. join_loop h file text j events)"

definition join_text :: "(bytes \<Rightarrow> string) \<Rightarrow> (string \<Rightarrow> string) \<Rightarrow> string \<Rightarrow> PublicKey \<Rightarrow> string" where
  "join_text encode64 value server server_key =
     ''server = '' @ value server @ NL @ ''server_key = '' @ QUOTE @ key_to_string encode64 server_key @ QUOTE @ NL"

text \<open>The events are those the client reports until it ends; true is the exit code of success.\<close>

definition join_run :: "(bytes \<Rightarrow> string) \<Rightarrow> ('net, 'x) ipnet_scheme \<Rightarrow> 'net Toml \<Rightarrow> ('kp, 'rc) Rcgen \<Rightarrow> Host \<Rightarrow> path option \<Rightarrow> string \<Rightarrow>
    PublicKey \<Rightarrow> path option \<Rightarrow> ClientEvent list \<Rightarrow> (('net, 'rc) Failure, bool) io" where
  "join_run encode64 net toml rc h user_dir server server_key config events =
     bind (locate_io h user_dir RoleClient config) (\<lambda>located.
       let file = lc_file located; text = join_text encode64 (tm_value toml) server server_key
       in if lc_exists located
          then fail (Reported (Bail (''a client config is already at '' @ path_text file @ '', and `hawse client` runs it'')))
          else
            bind (map_err NotLoaded (lift_result (parse_config (tm_client toml) file text))) (\<lambda>cfg.
            bind (map_err (\<lambda>e. NotLoaded (LoadInvalid e)) (lift_result (client_validate net cfg))) (\<lambda>_.
            bind (key_path_io h RoleClient located (cc_key cfg)) (\<lambda>key_path.
            bind (map_err (NoIdentity (''cannot load the client key at '' @ path_text key_path)) (load_or_create rc h key_path)) (\<lambda>(identity, created).
            bind (map_err Reported (join_loop h file text \<lparr>j_written = False, j_joined = False, j_failed = None, j_cancelled = False\<rparr> events)) (\<lambda>j.
              case j_failed j of
                Some why \<Rightarrow> fail (Reported (Bail (''cannot join '' @ server @ '', and no config was written: '' @ why)))
              | None \<Rightarrow> ok (j_joined j)))))))"

section \<open>What joining leaves behind\<close>

fun is_connected :: "ClientEvent \<Rightarrow> bool" where
  "is_connected (CeConnected _ _ _ _ _) = True"
| "is_connected _ = False"

definition holds_text :: "path \<Rightarrow> string \<Rightarrow> files \<Rightarrow> bool" where
  "holds_text file text fs \<longleftrightarrow> (\<exists>m. fs file = Some (File (bytes_of_text text) m))"

lemma join_event_props:
  assumes "join_event h file text j ev w = (r, w')"
  shows "only_adds (w_files w) (w_files w')"
    and "\<not> is_answer ev \<or> j_written j \<Longrightarrow> w' = w"
    and "r = Inr j' \<Longrightarrow> j_written j' = (j_written j \<or> is_answer ev) \<and> j_joined j' = (j_joined j \<or> is_connected ev) \<and>
      (is_answer ev \<and> \<not> j_written j \<longrightarrow> holds_text file text (w_files w'))"
proof -
  obtain r1 w1 where 1: "write_new h file text w = (r1, w1)" by fastforce
  have new: "only_adds (w_files w) (w_files w1)" "r1 = Inr () \<Longrightarrow> holds_text file text (w_files w1)"
    using new_file_new [OF 1 [unfolded write_new_def]] by (auto simp: holds_text_def)
  show "only_adds (w_files w) (w_files w')"
    using assms 1 new(1) by (auto simp: join_event_def bind_def map_err_def io_return only_adds.refl split: if_splits sum.splits)
  show "\<not> is_answer ev \<or> j_written j \<Longrightarrow> w' = w"
    using assms by (auto simp: join_event_def bind_def io_return)
  show "r = Inr j' \<Longrightarrow> j_written j' = (j_written j \<or> is_answer ev) \<and> j_joined j' = (j_joined j \<or> is_connected ev) \<and>
      (is_answer ev \<and> \<not> j_written j \<longrightarrow> holds_text file text (w_files w'))"
    using assms 1 new(2) by (cases ev; cases "j_written j") (auto simp: join_event_def bind_def map_err_def io_return split: if_splits sum.splits)
qed

lemma join_loop_props:
  assumes "join_loop h file text j events w = (r, w')"
  shows "only_adds (w_files w) (w_files w') \<and>
    (list_ex is_answer events \<or> w' = w) \<and>
    (\<forall>j'. r = Inr j' \<longrightarrow> j_joined j' = (j_joined j \<or> list_ex is_connected events) \<and>
      (if j_written j then w' = w else list_ex is_answer events \<longrightarrow> holds_text file text (w_files w')))"
  using assms
proof (induction events arbitrary: j w)
  case Nil
  then show ?case by (auto simp: io_return only_adds.refl)
next
  case (Cons ev events)
  obtain r1 w1 where 1: "join_event h file text j ev w = (r1, w1)" by fastforce
  note ev = join_event_props [OF 1]
  show ?case
  proof (cases r1)
    case (Inl e)
    with Cons.prems 1 have "w' = w1" "r = Inl e" by (auto simp: bind_def)
    then show ?thesis using ev by auto
  next
    case (Inr j1)
    with Cons.prems 1 have rest: "join_loop h file text j1 events w1 = (r, w')" by (simp add: bind_def)
    note IH = Cons.IH [OF rest]
    have "only_adds (w_files w) (w_files w')" using ev(1) IH only_adds.trans by blast
    moreover have "list_ex is_answer (ev # events) \<or> w' = w" using ev(2) IH by auto
    moreover have "\<forall>j'. r = Inr j' \<longrightarrow> j_joined j' = (j_joined j \<or> list_ex is_connected (ev # events)) \<and>
      (if j_written j then w' = w else list_ex is_answer (ev # events) \<longrightarrow> holds_text file text (w_files w'))"
      using ev(2) ev(3) [OF Inr] IH by (auto split: if_splits)
    ultimately show ?thesis by blast
  qed
qed

lemma load_or_create_only: "load_or_create rc h p w = (r, w') \<Longrightarrow> only_adds (w_files w) (w_files w') \<and> outside {q. prefix q p} (w_files w) (w_files w')"
proof (erule load_or_create_cases)
  show "w' = w \<Longrightarrow> only_adds (w_files w) (w_files w') \<and> outside {q. prefix q p} (w_files w) (w_files w')"
    by (simp add: only_adds.refl outside.refl)
qed (auto simp: write_private_def dest: new_file_new(1) outside.keepsD [OF new_file_outside])

lemma join_run_steps:
  assumes "join_run encode64 net toml rc h user_dir server server_key config events w = (r, w')"
    and "located = locate (w_files w) user_dir (is_root h) RoleClient config"
    and "text = join_text encode64 (tm_value toml) server server_key"
  obtains (refused) "w' = w" "\<And>b. r \<noteq> Inr b"
  | (no_key) cfg e where "tm_client toml text = Inr cfg"
      "load_or_create rc h (key_path h (w_files w) RoleClient located (map_option components (cc_key cfg))) w = (Inl e, w')" "\<And>b. r \<noteq> Inr b"
  | (ran) cfg i w1 r2 where "tm_client toml text = Inr cfg" "client_validate net cfg = Inr ()"
      "load_or_create rc h (key_path h (w_files w) RoleClient located (map_option components (cc_key cfg))) w = (Inr i, w1)"
      "join_loop h (lc_file located) text \<lparr>j_written = False, j_joined = False, j_failed = None, j_cancelled = False\<rparr> events w1 = (r2, w')"
      "\<And>b. r = Inr b \<Longrightarrow> \<exists>j. r2 = Inr j \<and> b = j_joined j"
proof -
  note simps = join_run_def locate_io_def bind_def io_return key_path_io_def lift_result_pure map_err_def parse_config_def assms(2,3) [symmetric] Let_def
  note go = assms(1) [unfolded join_run_def locate_io_def bind_get_files bind_def io_return, simplified, folded assms(2,3), unfolded Let_def]
  show ?thesis
  proof (cases "lc_exists located")
    case True
    then show ?thesis using go by (intro refused) (auto simp: io_return)
  next
    case ex: False
    show ?thesis
    proof (cases "tm_client toml text")
      case (Inl e)
      then show ?thesis using go ex by (intro refused) (auto simp: simps)
    next
      case cfg: (Inr cfg)
      show ?thesis
      proof (cases "client_validate net cfg")
        case (Inl e)
        then show ?thesis using go ex cfg by (intro refused) (auto simp: simps)
      next
        case valid: (Inr u)
        obtain r1 w1 where 1: "load_or_create rc h (key_path h (w_files w) RoleClient located (map_option components (cc_key cfg))) w = (r1, w1)"
          by fastforce
        show ?thesis
        proof (cases r1)
          case (Inl e)
          then show ?thesis using go ex cfg valid 1 by (intro no_key [of cfg e]) (auto simp: simps)
        next
          case (Inr i)
          obtain r2 w2 where 2: "join_loop h (lc_file located) text \<lparr>j_written = False, j_joined = False, j_failed = None, j_cancelled = False\<rparr> events w1 = (r2, w2)"
            by fastforce
          show ?thesis using go ex cfg valid 1 Inr 2
            by (intro ran [of cfg i w1 r2]) (auto simp: simps split: sum.splits option.splits)
        qed
      qed
    qed
  qed
qed

text \<open>
  C28: joining a server leaves a config behind only once the server has answered, and only one that
  loads. Whatever the host refuses and whatever the client reports: no file that was there is changed;
  the config's path changes only if a welcome or a denial came; and when the command ends without an
  error it says success exactly if a welcome came, and after any answer the config holds the text that
  parsed as a valid client config before anything was dialed.
\<close>

theorem join_config_after_answer:
  assumes "join_run encode64 net toml rc h user_dir server server_key config events w = (r, w')"
    and "located = locate (w_files w) user_dir (is_root h) RoleClient config"
    and "text = join_text encode64 (tm_value toml) server server_key"
    and "\<And>cfg. tm_client toml text = Inr cfg \<Longrightarrow>
      \<not> prefix (lc_file located) (key_path h (w_files w) RoleClient located (map_option components (cc_key cfg)))"
  shows "(\<forall>p. w_files w p \<noteq> None \<longrightarrow> w_files w' p = w_files w p) \<and>
    (w_files w' (lc_file located) \<noteq> w_files w (lc_file located) \<longrightarrow> list_ex is_answer events) \<and>
    (\<forall>b. r = Inr b \<longrightarrow> b = list_ex is_connected events \<and>
      (list_ex is_answer events \<longrightarrow> (\<exists>m cfg. w_files w' (lc_file located) = Some (File (bytes_of_text text) m) \<and>
        tm_client toml text = Inr cfg \<and> client_validate net cfg = Inr ())))"
  using assms(1-3)
proof (cases rule: join_run_steps)
  case refused
  then show ?thesis by simp
next
  case (no_key cfg e)
  from load_or_create_only [OF no_key(2)] assms(4) [OF no_key(1)] no_key(3)
  show ?thesis by (auto simp: only_adds_def outside_def)
next
  case (ran cfg i w1 r2)
  from load_or_create_only [OF ran(3)] assms(4) [OF ran(1)]
  have 1: "only_adds (w_files w) (w_files w1)" "w_files w1 (lc_file located) = w_files w (lc_file located)"
    by (auto simp: outside_def)
  note loop = join_loop_props [OF ran(4)]
  have "only_adds (w_files w) (w_files w')" using 1(1) loop only_adds.trans by blast
  moreover have "w_files w' (lc_file located) \<noteq> w_files w (lc_file located) \<longrightarrow> list_ex is_answer events" using 1(2) loop by auto
  ultimately show ?thesis using loop ran(1,2,5) by (auto simp: only_adds_def holds_text_def)
qed

definition joined_config :: "IpAddr ClientConfig" where
  "joined_config = \<lparr>cc_server = ''example.org'', cc_server_key = PublicKey [], cc_key = None, cc_name = None, expose = [],
     cc_transport = default_client_transport\<rparr>"

definition small_toml :: "IpAddr Toml" where
  "small_toml = \<lparr>tm_server = (\<lambda>_. Inr default_server_config), tm_client = (\<lambda>_. Inr joined_config), tm_table = (\<lambda>_. Inr []), tm_value = (\<lambda>s. s)\<rparr>"

definition small_join :: "((IpAddr, unit) Failure + bool) \<times> World" where
  "small_join = join_run (\<lambda>_. []) host_nets small_toml small_rcgen small_host None ''example.org'' (PublicKey [])
     (Some [RootDir, Normal ''client.toml'']) [CeDenied (PublicKey [])] small_world"

lemma joined_config_valid: "client_validate host_nets joined_config = Inr ()"
proof -
  have "split_host_port ''example.org'' = Some (''example.org'', None)"
    by (simp add: split_host_port_def parse_port_def parse_uint_def digits_value_def is_digit_def)
  then show ?thesis
    by (simp add: client_validate_def joined_config_def first_error.simps refuse_def transport_ok_def default_client_transport_def Let_def)
qed

lemma joined_key: "cc_key joined_config = None" by (simp add: joined_config_def)

lemma small_join_run: "fst small_join = Inr False"
  by (simp add: small_join_def join_run_def locate_io_def bind_def io_return locate_def parent_def is_file_def stat_def real_path_def
      small_world_def small_host_def Let_def parse_config_def small_toml_def lift_result_def map_err_def joined_config_valid
      key_path_io_def key_path_def default_key_def joined_key is_root_def join_path_def is_absolute_def
      components_def splits_at_def component_def
      load_or_create_def attempt_def fs_read_to_string_def fs_read_def allowed_def get_files_def small_rcgen_def identity_generate_def
      from_key_pair_def from_slice_def write_private_def write_new_def new_file_def fs_create_dir_all_def ancestors_def upt_rec is_dir_def
      fs_create_new_def fs_write_def written_def join_event_def)

theorem join_config_after_answer_witness:
  "\<exists>m. w_files (snd small_join) [RootDir, Normal ''client.toml''] =
     Some (File (bytes_of_text (join_text (\<lambda>_. []) (tm_value small_toml) ''example.org'' (PublicKey []))) m)"
proof -
  let ?text = "join_text (\<lambda>_. []) (tm_value small_toml) ''example.org'' (PublicKey [])"
  define located where "located = locate (w_files small_world) None (is_root small_host) RoleClient (Some [RootDir, Normal ''client.toml''])"
  have place: "lc_file located = [RootDir, Normal ''client.toml'']" "lc_dir located = [RootDir]"
    by (simp_all add: located_def locate_def parent_def)
  have key: "\<not> prefix (lc_file located) (key_path small_host (w_files small_world) RoleClient located (map_option components (cc_key cfg)))"
    if "tm_client small_toml ?text = Inr cfg" for cfg
    using that by (auto simp: place small_toml_def joined_key key_path_def default_key_def small_host_def is_root_def join_path_def
        is_absolute_def components_def splits_at_def component_def Let_def)
  have ran: "join_run (\<lambda>_. []) host_nets small_toml small_rcgen small_host None ''example.org'' (PublicKey [])
     (Some [RootDir, Normal ''client.toml'']) [CeDenied (PublicKey [])] small_world = (Inr False, snd small_join)"
    using small_join_run by (simp add: small_join_def prod_eq_iff)
  show ?thesis using join_config_after_answer [OF ran located_def refl key] by (auto simp: place)
qed

end
