(* ===== verification/Cmd_Server.thy ===== *)
theory Cmd_Server
  imports Cmd_Config Server_Policy
begin

text \<open>
  \<open>hawse/src/commands/mod.rs\<close> (when a config is read again) and \<open>hawse/src/commands/server.rs\<close> (what a
  server does with it). Watching a directory is the \<open>notify\<close> crate's: whether a watch could be set is
  an argument, and its events reach the code through a channel of one. Signals are the host's; log
  lines are left out.
\<close>

section \<open>Which directories are watched\<close>

definition on_a_terminal :: "bool \<Rightarrow> bool \<Rightarrow> bool" where
  "on_a_terminal stdin_is_terminal stderr_is_terminal \<longleftrightarrow> stdin_is_terminal \<and> stderr_is_terminal"

definition linked_dir :: "Host \<Rightarrow> files \<Rightarrow> path \<Rightarrow> path \<Rightarrow> path option" where
  "linked_dir h fs path dir =
     (case h_canonicalize h fs path of
        Inl _ \<Rightarrow> None
      | Inr target \<Rightarrow>
          (case parent target of
             None \<Rightarrow> None
           | Some target \<Rightarrow>
               (case h_canonicalize h fs dir of
                  Inl _ \<Rightarrow> None
                | Inr dir \<Rightarrow> if dir \<noteq> target then Some target else None)))"

definition watched_dir :: "path \<Rightarrow> path" where
  "watched_dir path = (case parent path of Some dir \<Rightarrow> if dir \<noteq> [] then dir else [CurDir] | None \<Rightarrow> [CurDir])"

text \<open>The directories the watcher of \<open>Reloads::new\<close> watches; none if it, or its first watch, could not be made.\<close>

definition watching :: "Host \<Rightarrow> files \<Rightarrow> bool \<Rightarrow> (path \<Rightarrow> bool) \<Rightarrow> path \<Rightarrow> path list option" where
  "watching h fs watcher_made can_watch path =
     (let dir = watched_dir path
      in if \<not> watcher_made \<or> \<not> can_watch dir then None
         else case linked_dir h fs path dir of
                Some target \<Rightarrow> Some (if can_watch target then [dir, target] else [dir])
              | None \<Rightarrow> Some [dir])"

section \<open>When to read the config again\<close>

definition SETTLE :: duration where "SETTLE = 250000000"

type_synonym Stamp = "nat \<times> u64"

text \<open>
  \<open>Reloads\<close> with what it looks at. The config is what it holds and its stamp, or nothing while there is no such file;
  \<open>rl_queued\<close>: the watcher's thread has an event it has yet to hand on; \<open>rl_events\<close>: the channel of one is
  full. \<open>rl_look\<close> is \<open>look\<close> of \<open>next\<close>; \<open>rl_loading\<close>: \<open>next\<close> returned, or \<open>new\<close> did, and the caller is about to read the
  config; \<open>rl_loaded\<close> is what it read last.
\<close>

record 'c Reloads =
  rl_config :: "(Stamp \<times> 'c) option"
  rl_queued :: bool
  rl_now :: instant
  rl_hup :: bool
  rl_read :: "Stamp option"
  rl_events :: bool
  rl_look :: "(instant \<times> Stamp option) option"
  rl_loading :: bool
  rl_loaded :: "'c option"

definition stamp :: "'c Reloads \<Rightarrow> Stamp option" where "stamp s = map_option fst (rl_config s)"

definition reloads_new :: "bool \<Rightarrow> instant \<Rightarrow> bool \<Rightarrow> (Stamp \<times> 'c) option \<Rightarrow> 'c Reloads" where
  "reloads_new terminal now queued config =
     \<lparr>rl_config = config, rl_queued = queued, rl_now = now, rl_hup = (\<not> terminal), rl_read = map_option fst config,
      rl_events = False, rl_look = None, rl_loading = True, rl_loaded = None\<rparr>"

text \<open>The end of \<open>next\<close>, and the two arms of its loop that do not always end it.\<close>

definition next_return :: "'c Reloads \<Rightarrow> 'c Reloads" where
  "next_return s = s\<lparr>rl_look := None, rl_read := stamp s, rl_loading := True\<rparr>"

definition next_event :: "'c Reloads \<Rightarrow> 'c Reloads" where
  "next_event s = s\<lparr>rl_events := False, rl_look := Some (rl_now s + SETTLE, stamp s)\<rparr>"

definition next_look :: "'c Reloads \<Rightarrow> 'c Reloads" where
  "next_look s =
     (let now = stamp s
      in if now = None \<or> now = rl_read s then s\<lparr>rl_look := None\<rparr>
         else if (case rl_look s of Some (_, last_look) \<Rightarrow> last_look = now | None \<Rightarrow> False) then next_return s
         else s\<lparr>rl_look := Some (rl_now s + SETTLE, now)\<rparr>)"

text \<open>
  What can happen: someone saves, replaces or removes the config; something else goes on in a watched directory; the
  watcher hands an event on; time passes; and the arms of \<open>next\<close>, and the caller reading the config.
\<close>

datatype 'c Happening =
    Saved "(Stamp \<times> 'c) option"
  | Noise
  | Handed_On
  | Passes duration
  | Hangup
  | Woken
  | Looked
  | Loads

inductive reloads_step :: "'c Reloads \<Rightarrow> 'c Happening \<Rightarrow> 'c Reloads \<Rightarrow> bool" where
  saved: "reloads_step s (Saved c) (s\<lparr>rl_config := c, rl_queued := True\<rparr>)"
| noise: "reloads_step s Noise (s\<lparr>rl_queued := True\<rparr>)"
| handed_on: "rl_queued s \<Longrightarrow> reloads_step s Handed_On (s\<lparr>rl_queued := False, rl_events := True\<rparr>)"
| passes: "reloads_step s (Passes d) (s\<lparr>rl_now := rl_now s + d\<rparr>)"
| hangup: "\<not> rl_loading s \<Longrightarrow> rl_hup s \<Longrightarrow> reloads_step s Hangup (next_return s)"
| woken: "\<not> rl_loading s \<Longrightarrow> rl_events s \<Longrightarrow> rl_look s = None \<Longrightarrow> reloads_step s Woken (next_event s)"
| looked: "\<not> rl_loading s \<Longrightarrow> rl_look s = Some (due, l) \<Longrightarrow> due \<le> rl_now s \<Longrightarrow> reloads_step s Looked (next_look s)"
| loads: "rl_loading s \<Longrightarrow> reloads_step s Loads (s\<lparr>rl_loading := False, rl_loaded := map_option snd (rl_config s)\<rparr>)"

inductive_cases reloads_stepE: "reloads_step s e s'"

inductive reloads_run :: "'c Reloads \<Rightarrow> 'c Happening list \<Rightarrow> 'c Reloads \<Rightarrow> bool" where
  at_first: "reloads_run s [] s"
| and_then: "reloads_run s es s' \<Longrightarrow> reloads_step s' e s'' \<Longrightarrow> reloads_run s (es @ [e]) s''"

fun stamps_of :: "'c Happening list \<Rightarrow> Stamp list" where
  "stamps_of [] = []"
| "stamps_of (Saved (Some (st, _)) # es) = st # stamps_of es"
| "stamps_of (_ # es) = stamps_of es"

section \<open>Reading it again on a server\<close>

definition server_load :: "('net, 'x) ipnet_scheme \<Rightarrow> (string \<Rightarrow> TomlError + 'net ServerConfig) \<Rightarrow> Host \<Rightarrow> path option \<Rightarrow>
    path \<Rightarrow> SocketAddr option \<Rightarrow> ('net LoadError, 'net ServerConfig \<times> Located) io" where
  "server_load net from_str h user_dir file_path listen =
     bind (load_server net from_str h user_dir (Some file_path)) (\<lambda>(cfg, located).
     ok (case listen of Some l \<Rightarrow> cfg\<lparr>sc_listen := l\<rparr> | None \<Rightarrow> cfg, located))"

definition in_force :: "'net ServerConfig \<Rightarrow> 'net ServerConfig \<Rightarrow> 'net ServerConfig" where
  "in_force started new = started\<lparr>clients := clients new, sc_bind := sc_bind new\<rparr>"

definition reloaded :: "('net, 'x) ipnet_scheme \<Rightarrow> 'net ServerConfig \<Rightarrow> 'net ServerConfig \<Rightarrow> 'net ConfigError + 'net Policy" where
  "reloaded net started new =
     (case server_validate net (in_force started new) of
        Inl e \<Rightarrow> Inl e
      | Inr _ \<Rightarrow> Inr (from_config (in_force started new)))"

text \<open>One turn of \<open>reload\<close> once \<open>next\<close> returned, and the turns that find the host as it is each time.\<close>

definition reload_turn :: "('net, 'x) ipnet_scheme \<Rightarrow> (string \<Rightarrow> TomlError + 'net ServerConfig) \<Rightarrow> Host \<Rightarrow> path option \<Rightarrow>
    SocketAddr option \<Rightarrow> 'net ServerConfig \<Rightarrow> Located \<Rightarrow> World \<Rightarrow> 'net Policy \<Rightarrow> 'net Policy" where
  "reload_turn net from_str h user_dir listen started located w policy =
     (case fst (server_load net from_str h user_dir (lc_file located) listen w) of
        Inl _ \<Rightarrow> policy
      | Inr (cfg, found) \<Rightarrow>
          (if lc_exists located \<and> \<not> lc_exists found then policy
           else case reloaded net started cfg of Inr new \<Rightarrow> new | Inl _ \<Rightarrow> policy))"

definition reload :: "('net, 'x) ipnet_scheme \<Rightarrow> (string \<Rightarrow> TomlError + 'net ServerConfig) \<Rightarrow> Host \<Rightarrow> path option \<Rightarrow>
    SocketAddr option \<Rightarrow> 'net ServerConfig \<Rightarrow> Located \<Rightarrow> World list \<Rightarrow> 'net Policy" where
  "reload net from_str h user_dir listen started located ws =
     fold (reload_turn net from_str h user_dir listen started located) ws (from_config started)"

section \<open>Descriptors\<close>

record Rlimit =
  rlim_current :: "u64 option"
  rlim_maximum :: "u64 option"

definition OPEN_MAX :: u64 where "OPEN_MAX = 10240"

definition raised :: "bool \<Rightarrow> Rlimit \<Rightarrow> Rlimit option" where
  "raised macos limit =
     (let ceiling = (if macos then Some (case rlim_maximum limit of Some m \<Rightarrow> min m OPEN_MAX | None \<Rightarrow> OPEN_MAX) else rlim_maximum limit);
          most = (\<lambda>v. case v of Some n \<Rightarrow> n | None \<Rightarrow> (- 1 :: u64))
      in if most (rlim_current limit) < most ceiling then Some \<lparr>rlim_current = ceiling, rlim_maximum = rlim_maximum limit\<rparr> else None)"

section \<open>No change is missed\<close>

lemma stamps_of_append [simp]: "stamps_of (es @ es') = stamps_of es @ stamps_of es'"
  by (induction es rule: stamps_of.induct) auto

lemmas next_defs = next_return_def next_event_def next_look_def stamp_def

text \<open>A config that differs from what was read has an event on its way, or a look that is due.\<close>

definition attended :: "'c Reloads \<Rightarrow> bool" where
  "attended s \<longleftrightarrow> stamp s = None \<or> stamp s = rl_read s \<or> rl_queued s \<or> rl_events s \<or> rl_look s \<noteq> None"

lemma attended_step:
  assumes "reloads_step s e s'" "attended s"
  shows "attended s'"
  using assms by (cases rule: reloads_step.cases) (auto simp: attended_def next_defs Let_def)

text \<open>A look is due soon.\<close>

definition look_soon :: "'c Reloads \<Rightarrow> bool" where
  "look_soon s \<longleftrightarrow> (case rl_look s of Some (due, _) \<Rightarrow> due \<le> rl_now s + SETTLE | None \<Rightarrow> True)"

lemma look_soon_step:
  assumes "reloads_step s e s'" "look_soon s"
  shows "look_soon s'"
  using assms by (cases rule: reloads_step.cases) (auto simp: look_soon_def next_defs Let_def split: option.splits)

text \<open>What was read last is what the config with that stamp holds, and it was a stamp of the config.\<close>

definition loaded_as_read :: "Stamp set \<Rightarrow> 'c Reloads \<Rightarrow> bool" where
  "loaded_as_read seen s \<longleftrightarrow>
     set_option (stamp s) \<subseteq> seen \<and> set_option (rl_read s) \<subseteq> seen \<and>
     (\<not> rl_loading s \<longrightarrow> (\<forall>st c. rl_config s = Some (st, c) \<and> rl_read s = Some st \<longrightarrow> rl_loaded s = Some c))"

lemma loaded_as_read_step:
  assumes "reloads_step s e s'" "loaded_as_read seen s" "set (stamps_of [e]) \<inter> seen = {}"
  shows "loaded_as_read (seen \<union> set (stamps_of [e])) s'"
  using assms
proof (cases rule: reloads_step.cases)
  case (saved c)
  then show ?thesis using assms(2,3) by (cases c) (auto simp: loaded_as_read_def stamp_def)
qed (auto simp: loaded_as_read_def next_defs Let_def)

lemma reloads_run_attended:
  assumes "reloads_run s es s'" "attended s" "look_soon s"
  shows "attended s'" "look_soon s'"
  using assms by (induction rule: reloads_run.induct) (auto dest: attended_step look_soon_step)

lemma reloads_run_as_read:
  assumes "reloads_run s es s'" "loaded_as_read seen s" "distinct (stamps_of es)" "set (stamps_of es) \<inter> seen = {}"
  shows "loaded_as_read (seen \<union> set (stamps_of es)) s'"
  using assms
proof (induction rule: reloads_run.induct)
  case (and_then s es s' e s'')
  then have "loaded_as_read (seen \<union> set (stamps_of es)) s'" by auto
  from loaded_as_read_step [OF and_then.hyps(2) this] and_then.prems show ?case by (auto simp: Un_assoc)
qed simp

lemma reloads_new_invariant:
  "attended (reloads_new terminal now queued config)" "look_soon (reloads_new terminal now queued config)"
  "loaded_as_read (set (stamps_of [Saved config])) (reloads_new terminal now queued config)"
  by (cases config; force simp: reloads_new_def attended_def look_soon_def loaded_as_read_def stamp_def)+

text \<open>
  C20: no change to the config goes unread. However saves, other events in the directory, hangups, the looks at the file
  and the readings of it interleave, as long as each save gives the file a stamp it has not had: whenever nothing is on its way
  and no look is due, the config that is there is the one that was read last.
\<close>

theorem no_change_missed:
  assumes "reloads_run (reloads_new terminal now queued config) es s" "distinct (stamps_of (Saved config # es))"
    and "\<not> rl_loading s" "rl_look s = None" "\<not> rl_events s" "\<not> rl_queued s" "rl_config s = Some (st, c)"
  shows "rl_read s = Some st \<and> rl_loaded s = Some c"
proof -
  note inv = reloads_run_attended [OF assms(1) reloads_new_invariant(1,2)]
  have "distinct (stamps_of es)" "set (stamps_of es) \<inter> set (stamps_of [Saved config]) = {}"
    using assms(2) stamps_of_append [of "[Saved config]" es] by (auto simp del: stamps_of_append)
  from reloads_run_as_read [OF assms(1) reloads_new_invariant(3) this] inv(1) assms(3-7) show ?thesis by (auto simp: attended_def loaded_as_read_def stamp_def)
qed

text \<open>The steps as a function, for the evaluation of a run.\<close>

fun happen :: "'c Happening \<Rightarrow> 'c Reloads \<Rightarrow> 'c Reloads option" where
  "happen (Saved c) s = Some (s\<lparr>rl_config := c, rl_queued := True\<rparr>)"
| "happen Noise s = Some (s\<lparr>rl_queued := True\<rparr>)"
| "happen Handed_On s = (if rl_queued s then Some (s\<lparr>rl_queued := False, rl_events := True\<rparr>) else None)"
| "happen (Passes d) s = Some (s\<lparr>rl_now := rl_now s + d\<rparr>)"
| "happen Hangup s = (if \<not> rl_loading s \<and> rl_hup s then Some (next_return s) else None)"
| "happen Woken s = (if \<not> rl_loading s \<and> rl_events s \<and> rl_look s = None then Some (next_event s) else None)"
| "happen Looked s =
     (case rl_look s of
        Some (due, _) \<Rightarrow> if \<not> rl_loading s \<and> due \<le> rl_now s then Some (next_look s) else None
      | None \<Rightarrow> None)"
| "happen Loads s = (if rl_loading s then Some (s\<lparr>rl_loading := False, rl_loaded := map_option snd (rl_config s)\<rparr>) else None)"

fun happens :: "'c Happening list \<Rightarrow> 'c Reloads \<Rightarrow> 'c Reloads option" where
  "happens [] s = Some s"
| "happens (e # es) s = Option.bind (happen e s) (happens es)"

lemma happen_iff: "happen e s = Some s' \<longleftrightarrow> reloads_step s e s'"
  by (cases e) (auto intro: reloads_step.intros elim: reloads_stepE split: if_splits option.splits)

lemma run_before: "reloads_step s e s' \<Longrightarrow> reloads_run s' es s'' \<Longrightarrow> reloads_run s (e # es) s''"
proof (rotate_tac, induction rule: reloads_run.induct)
  case (at_first s')
  then show ?case using reloads_run.and_then [OF reloads_run.at_first, of s e s'] by simp
next
  case (and_then s' es t e' t')
  then show ?case using reloads_run.and_then [of s "e # es" t e' t'] by simp
qed

lemma happens_run: "happens es s = Some s' \<Longrightarrow> reloads_run s es s'"
  by (induction es arbitrary: s) (auto simp: bind_eq_Some_conv happen_iff intro: at_first run_before)

text \<open>A save while a look at an earlier one is due: the second is the one read.\<close>

definition edited_twice :: "nat Happening list" where
  "edited_twice = [Loads, Saved (Some ((5, 20), 7)), Handed_On, Woken, Saved (Some ((6, 30), 2)), Passes SETTLE, Looked,
     Handed_On, Passes SETTLE, Looked, Loads, Woken, Passes SETTLE, Looked]"

theorem no_change_missed_witness:
  "\<exists>s. happens edited_twice (reloads_new False 0 False (Some ((4, 10), 0))) = Some s \<and> rl_loaded s = Some 2"
proof -
  let ?s = "the (happens edited_twice (reloads_new False 0 False (Some ((4, 10), 0))))"
  have ev: "happens edited_twice (reloads_new False 0 False (Some ((4, 10), 0))) =
      Some \<lparr>rl_config = Some ((6, 30), 2), rl_queued = False, rl_now = 3 * SETTLE, rl_hup = True, rl_read = Some (6, 30), rl_events = False,
        rl_look = None, rl_loading = False, rl_loaded = Some 2\<rparr>"
    by (simp add: edited_twice_def reloads_new_def next_defs SETTLE_def Let_def)
  have run: "reloads_run (reloads_new False 0 False (Some ((4, 10), 0))) edited_twice ?s" using ev by (intro happens_run) simp
  have "rl_read ?s = Some (6, 30) \<and> rl_loaded ?s = Some 2"
    by (rule no_change_missed [OF run]) (simp_all add: ev, simp add: edited_twice_def)
  then show ?thesis unfolding ev by simp
qed

section \<open>A change that holds still is read soon\<close>

text \<open>The arms of \<open>next\<close>, other than a hangup.\<close>

fun is_arm :: "'c Happening \<Rightarrow> bool" where
  "is_arm Woken = True"
| "is_arm Looked = True"
| "is_arm _ = False"

fun is_saved :: "'c Happening \<Rightarrow> bool" where
  "is_saved (Saved _) = True"
| "is_saved _ = False"

text \<open>How many more arms it takes at most.\<close>

definition arms_left :: "'c Reloads \<Rightarrow> nat" where
  "arms_left s = (if rl_loading s then 0 else case rl_look s of Some (_, l) \<Rightarrow> if l = stamp s then 1 else 2 | None \<Rightarrow> 2)"

definition differs_from_read :: "'c Reloads \<Rightarrow> bool" where
  "differs_from_read s \<longleftrightarrow> stamp s \<noteq> None \<and> (rl_loading s \<or> stamp s \<noteq> rl_read s)"

lemma arms_left_step:
  assumes "reloads_step s e s'" "differs_from_read s" "\<not> is_saved e" "e \<noteq> Loads"
  shows "differs_from_read s' \<and> arms_left s' + (if is_arm e then 1 else 0) \<le> arms_left s"
  using assms
  by (cases rule: reloads_step.cases) (auto simp: differs_from_read_def arms_left_def next_defs Let_def split: option.splits)

lemma arms_left_run:
  assumes "reloads_run s es s'" "differs_from_read s" "\<not> list_ex is_saved es" "Loads \<notin> set es"
  shows "differs_from_read s' \<and> arms_left s' + length (filter is_arm es) \<le> arms_left s"
  using assms
proof (induction rule: reloads_run.induct)
  case (and_then s es s' e s'')
  then have "differs_from_read s'" "arms_left s' + length (filter is_arm es) \<le> arms_left s" by simp_all
  with arms_left_step [OF and_then.hyps(2)] and_then.prems show ?case by auto
qed simp

text \<open>
  C24: a change that holds still is read, whatever else goes on in the directory. From any state a run can be in where the
  config there differs from what was read, until it is read or saved again: \<open>next\<close> takes at most one
  arm without returning, so its second returns, and once no event is left with the watcher an arm is ready within \<open>SETTLE\<close>. So
  the config is read within two such waits, and noise in the directory cannot hold it back.
\<close>

theorem still_config_is_read:
  assumes "reloads_run (reloads_new terminal now queued config) es0 s" "\<not> rl_loading s" "stamp s \<noteq> None" "stamp s \<noteq> rl_read s"
    and "reloads_run s es s'" "\<not> list_ex is_saved es" "Loads \<notin> set es"
  shows "length (filter is_arm es) \<le> 2 \<and> (\<not> rl_loading s' \<longrightarrow> length (filter is_arm es) \<le> 1) \<and>
    (\<not> rl_loading s' \<and> \<not> rl_queued s' \<longrightarrow>
      (\<exists>d e s''. d \<le> SETTLE \<and> is_arm e \<and> happens [Passes d, e] s' = Some s'' \<and> arms_left s'' < arms_left s'))"
proof -
  have d: "differs_from_read s" using assms(2-4) by (simp add: differs_from_read_def)
  note a = arms_left_run [OF assms(5) d assms(6,7)]
  have "arms_left s \<le> 2" "\<not> rl_loading s' \<Longrightarrow> 1 \<le> arms_left s'" by (auto simp: arms_left_def split: option.split)
  with a have few: "length (filter is_arm es) \<le> 2" "\<not> rl_loading s' \<Longrightarrow> length (filter is_arm es) \<le> 1" by fastforce+
  note inv = reloads_run_attended [OF assms(1) reloads_new_invariant(1,2)]
  note inv' = reloads_run_attended [OF assms(5) inv(1,2)]
  have "\<exists>d e s''. d \<le> SETTLE \<and> is_arm e \<and> happens [Passes d, e] s' = Some s'' \<and> arms_left s'' < arms_left s'"
    if s': "\<not> rl_loading s'" "\<not> rl_queued s'"
  proof (cases "rl_look s'")
    case None
    then have e: "rl_events s'" using inv'(1) a s' by (auto simp: attended_def differs_from_read_def)
    show ?thesis by (intro exI [of _ 0] exI [of _ Woken]) (use None e s' a in \<open>auto simp: arms_left_def next_defs\<close>)
  next
    case (Some look)
    obtain due l where look: "look = (due, l)" by fastforce
    have "due - rl_now s' \<le> SETTLE" using inv'(2) Some look by (simp add: look_soon_def)
    then show ?thesis using Some look s' a
      by (intro exI [of _ "due - rl_now s'"] exI [of _ Looked])
        (auto simp: arms_left_def next_defs differs_from_read_def Let_def)
  qed
  with few show ?thesis by blast
qed

definition edited_once :: "nat Happening list" where
  "edited_once = [Loads, Saved (Some ((5, 20), 7))]"

theorem still_config_is_read_witness:
  "\<exists>s s'. happens edited_once (reloads_new False 0 False (Some ((4, 10), 0))) = Some s \<and>
     happens [Noise, Handed_On, Woken, Noise] s = Some s' \<and> \<not> rl_loading s' \<and>
     length (filter is_arm [Noise, Handed_On, Woken, Noise :: nat Happening]) \<le> 1"
proof -
  define s where "s = the (happens edited_once (reloads_new False 0 False (Some ((4, 10), 0))))"
  define s' where "s' = the (happens [Noise, Handed_On, Woken, Noise] s)"
  have ev: "happens edited_once (reloads_new False 0 False (Some ((4, 10), 0))) = Some s"
    by (simp add: s_def edited_once_def reloads_new_def)
  have s: "\<not> rl_loading s" "stamp s \<noteq> None" "stamp s \<noteq> rl_read s"
    by (simp_all add: s_def edited_once_def reloads_new_def stamp_def)
  have ev': "happens [Noise, Handed_On, Woken, Noise] s = Some s'" and l: "\<not> rl_loading s'"
    by (simp_all add: s'_def s_def edited_once_def reloads_new_def next_defs)
  from still_config_is_read [OF happens_run [OF ev] s happens_run [OF ev']] ev ev' l show ?thesis by auto
qed

section \<open>The policy in force\<close>

text \<open>What a turn may put in force: what it found, checked with the rest of what the server runs on.\<close>

definition may_enter :: "('net, 'x) ipnet_scheme \<Rightarrow> (string \<Rightarrow> TomlError + 'net ServerConfig) \<Rightarrow> Host \<Rightarrow> path option \<Rightarrow>
    SocketAddr option \<Rightarrow> 'net ServerConfig \<Rightarrow> Located \<Rightarrow> World \<Rightarrow> 'net ServerConfig option" where
  "may_enter net from_str h user_dir listen started located w =
     (case fst (server_load net from_str h user_dir (lc_file located) listen w) of
        Inr (cfg, found) \<Rightarrow>
          if (lc_exists located \<longrightarrow> lc_exists found) \<and> server_validate net (in_force started cfg) = Inr ()
          then Some (in_force started cfg) else None
      | Inl _ \<Rightarrow> None)"

lemma reload_turn_may_enter:
  "reload_turn net from_str h user_dir listen started located w policy =
     (case may_enter net from_str h user_dir listen started located w of Some cfg \<Rightarrow> from_config cfg | None \<Rightarrow> policy)"
  by (auto simp: reload_turn_def may_enter_def reloaded_def split: sum.splits prod.splits)

lemma may_enter_valid: "may_enter net from_str h user_dir listen started located w = Some cfg \<Longrightarrow>
  server_validate net cfg = Inr () \<and> sc_listen cfg = sc_listen started \<and> dynamic_ports cfg = dynamic_ports started"
  by (auto simp: may_enter_def in_force_def split: sum.splits prod.splits if_splits)


text \<open>A file tree with a server's config in it, and a parser that takes one text for one client.\<close>

definition one_client :: "IpAddr ServerConfig" where
  "one_client = default_server_config\<lparr>clients := [(''home'', \<lparr>cp_key = PublicKey [1],
     cp_ports = [\<lparr>r_first = 443, r_last = 444, r_kind = Tcp\<rparr>], cp_bind = None, cp_allow = []\<rparr>)]\<rparr>"

definition one_client_text :: "string \<Rightarrow> TomlError + IpAddr ServerConfig" where
  "one_client_text t = (if t = ''home'' then Inr one_client else Inl \<lparr>te_message = ''expected a table'', te_span = None\<rparr>)"

definition server_toml :: path where "server_toml = [RootDir, Normal ''server.toml'']"

definition holding :: "string \<Rightarrow> World" where
  "holding t = small_world\<lparr>w_files := [server_toml \<mapsto> File (bytes_of_text t) \<lparr>m_mode = 0x180, m_uid = 0, m_gid = 0\<rparr>]\<rparr>"

lemma one_client_valid: "server_validate host_nets one_client = Inr ()"
proof -
  have name: "validate ''home'' = Inr ()" by code_simp
  show ?thesis
    by (simp add: one_client_def server_validate_def default_server_config_def default_server_transport_def default_limits_def
        check_grants_def first_error.simps refuse_def contains_number_def DEFAULT_PORT_def name Let_def)
qed

lemma load_holding:
  assumes "valid_utf8 (bytes_of_text t)"
  shows "fst (server_load host_nets one_client_text small_host None server_toml listen (holding t)) =
    (case parse_config one_client_text server_toml t of
       Inl e \<Rightarrow> Inl e
     | Inr cfg \<Rightarrow>
         (case server_validate host_nets cfg of
            Inl e \<Rightarrow> Inl (LoadInvalid e)
          | Inr _ \<Rightarrow> Inr (case listen of Some l \<Rightarrow> cfg\<lparr>sc_listen := l\<rparr> | None \<Rightarrow> cfg,
                          \<lparr>lc_file = server_toml, lc_dir = [RootDir], lc_exists = True\<rparr>)))"
  using assms
  by (simp add: server_load_def load_server_def locate_io_def bind_def io_return locate_def parent_def is_file_def stat_def real_path_def
      server_toml_def holding_def read_config_def map_err_def fs_read_to_string_def fs_read_def allowed_def small_host_def lift_result_def split: sum.split)

lemma load_gone:
  "fst (server_load host_nets one_client_text small_host None server_toml listen small_world) = Inr (cfg, found) \<Longrightarrow> \<not> lc_exists found"
  by (auto simp: server_load_def load_server_def locate_io_def bind_def io_return locate_def parent_def is_file_def stat_def real_path_def
      server_toml_def small_world_def map_err_def lift_result_def split: sum.splits option.splits)


text \<open>
  An address given on the command line replaces \<open>listen\<close> after the config was checked, so the server starts on a port of 0, or on
  one of its own pool; but a reload checks the config with that address in it, and is then refused, whatever the config says.
\<close>

lemma listen_override_stops_reloads:
  assumes "sa_port (sc_listen started) = 0 \<or> contains_number (dynamic_ports started) (sa_port (sc_listen started))"
  shows "reload net from_str h user_dir listen started located ws = from_config started"
proof -
  have "server_validate net (in_force started cfg) \<noteq> Inr ()" for cfg
    using assms by (auto simp: server_validate_def in_force_def refuse_def Let_def first_error.simps)
  then have "reload_turn net from_str h user_dir listen started located w p = p" for w p
    by (auto simp: reload_turn_may_enter may_enter_def split: sum.split)
  then have "fold (reload_turn net from_str h user_dir listen started located) ws p = p" for p
    by (induction ws) auto
  then show ?thesis by (simp add: reload_def)
qed

lemma port_0_starts:
  "fst (server_load host_nets one_client_text small_host None server_toml (Some (SocketV4 0 0)) (holding ''home'')) =
     Inr (one_client\<lparr>sc_listen := SocketV4 0 0\<rparr>, \<lparr>lc_file = server_toml, lc_dir = [RootDir], lc_exists = True\<rparr>)"
proof -
  have "valid_utf8 (bytes_of_text ''home'')" by code_simp
  then show ?thesis by (simp add: load_holding parse_config_def one_client_text_def one_client_valid)
qed

section \<open>Descriptors\<close>

text \<open>A limit that is set is higher than the one it replaces, within the hard one, which stays.\<close>

lemma raised_higher:
  assumes "raised macos l = Some l'"
  shows "rlim_maximum l' = rlim_maximum l"
    and "rlim_current l' = Some m \<Longrightarrow> rlim_maximum l = Some top \<Longrightarrow> m \<le> top"
    and "rlim_current l = Some n \<Longrightarrow> rlim_current l' = Some m \<Longrightarrow> n < m"
    and "rlim_current l \<noteq> None"
  using assms word_order.extremum_strict by (auto simp: raised_def Let_def split: if_splits option.splits)

end
