(* ===== verification/Service.thy ===== *)
theory Service
  imports Cmd_Config Utf8_Ascii
begin

text \<open>
  \<open>hawse service\<close> (\<open>hawse/src/commands/service.rs\<close>, \<open>systemd.rs\<close>, \<open>launchd.rs\<close>): the unit or the agent it
  writes, how it knows its own, the checks before anything is written, and the two commands. The
  contrib units the binary carries are an argument, the text of each role's unit.
\<close>

section \<open>systemd\<close>

definition MARKER :: string where "MARKER = ''Written by hawse service install.''"

definition STATE :: string where "STATE = ''/var/lib/hawse''"

definition is_ours :: "string \<Rightarrow> bool" where
  "is_ours text = list_ex (contains MARKER) (take 2 (lines text))"

record Account =
  ac_name :: string
  ac_key_dir :: string

definition unit_file :: "Role \<Rightarrow> path" where
  "unit_file role = components (''/etc/systemd/system/hawse-'' @ role_name role @ ''.service'')"

definition can_execute :: "string \<Rightarrow> bool" where
  "can_execute path \<longleftrightarrow>
     \<not> list_ex (\<lambda>c. c \<in> {CHR 0x22, CHR 0x27, CHR 0x5C}) path \<and> \<not> list_ex is_control (chars path)"

definition unit_word :: "string \<Rightarrow> string" where
  "unit_word arg =
     (let arg = replace_char CHR ''%'' ''%%'' arg
      in if list_ex (\<lambda>c. is_whitespace c \<or> c \<in> {0x22, 0x27, 0x5C}) (chars arg)
         then QUOTE @ replace_char CHR 0x22 [CHR 0x5C, CHR 0x22] (replace_char CHR 0x5C [CHR 0x5C, CHR 0x5C] arg) @ QUOTE
         else arg)"

definition has_prefix :: "string \<Rightarrow> string \<Rightarrow> bool" where
  "has_prefix p s \<longleftrightarrow> strip_prefix p s \<noteq> None"

text \<open>
  One line of the contrib unit: what it becomes, and whether it was the line of the command, and of
  the throwaway account.
\<close>

definition unit_line :: "Role \<Rightarrow> string \<Rightarrow> string \<Rightarrow> Account option \<Rightarrow> string \<Rightarrow> string \<times> bool \<times> bool" where
  "unit_line role exe config account line =
     (let directory = (has_prefix ''ConfigurationDirectory='' line \<or> has_prefix ''StateDirectory='' line)
      in if has_prefix ''ExecStart='' line
         then (''ExecStart=:'' @ unit_word exe @ '' '' @ role_name role @ '' --config '' @ unit_word config @ '' --log pretty'' @ NL, True, False)
         else case account of
           Some account \<Rightarrow>
             (if line = ''DynamicUser=yes''
              then (''User='' @ ac_name account @ NL @ ''ReadWritePaths='' @ unit_word (ac_key_dir account) @ NL, False, True)
              else if directory then ([], False, False)
              else (line @ NL, False, False))
         | None \<Rightarrow> (line @ NL, False, False))"

definition unit_head :: "Role \<Rightarrow> string" where
  "unit_head role =
     ''# '' @ MARKER @ '' Run it again to update this file, and put changes in a drop-in (systemctl edit hawse-'' @ role_name role @ '').'' @ NL"

text \<open>The two assertions at its end panic, which is \<open>None\<close>.\<close>

definition unit_text :: "(Role \<Rightarrow> string) \<Rightarrow> Role \<Rightarrow> string \<Rightarrow> string \<Rightarrow> Account option \<Rightarrow> string option" where
  "unit_text contrib role exe config account =
     (let done' = map (unit_line role exe config account) (lines (contrib role));
          text = unit_head role @ concat (map fst done');
          exec = list_ex (fst \<circ> snd) done';
          user = (account = None \<or> list_ex (snd \<circ> snd) done')
      in if exec \<and> user then Some text else None)"

section \<open>launchd\<close>

definition SUBSYSTEM :: string where "SUBSYSTEM = ''io.github.andriykohut.hawse''"

definition label :: "Role \<Rightarrow> string" where "label role = SUBSYSTEM @ ''.'' @ role_name role"

definition agent_file :: "path \<Rightarrow> Role \<Rightarrow> path" where
  "agent_file home role = in_dir (in_dir home ''Library/LaunchAgents'') (label role @ ''.plist'')"

definition log_file :: "path \<Rightarrow> Role \<Rightarrow> path" where
  "log_file home role = in_dir (in_dir home ''Library/Logs/hawse'') (role_name role @ ''.log'')"

definition escape :: "string \<Rightarrow> string" where
  "escape text = replace_char CHR ''>'' ''&gt;'' (replace_char CHR ''<'' ''&lt;'' (replace_char CHR ''&'' ''&amp;'' text))"

abbreviation TAB :: string where "TAB \<equiv> [CHR 0x09]"

abbreviation quoted :: "string \<Rightarrow> string" where "quoted s \<equiv> QUOTE @ s @ QUOTE"

definition plist_string :: "nat \<Rightarrow> string \<Rightarrow> string" where
  "plist_string depth s = concat (replicate depth TAB) @ ''<string>'' @ s @ ''</string>''"

definition plist_key :: "string \<Rightarrow> string" where "plist_key s = TAB @ ''<key>'' @ s @ ''</key>''"

definition plist :: "Role \<Rightarrow> string \<Rightarrow> string \<Rightarrow> string \<Rightarrow> string" where
  "plist role exe config log' =
     (let label = escape (label role); exe = escape exe; config = escape config; log' = escape log'
      in concat (map (\<lambda>l. l @ NL)
           [''<?xml version='' @ quoted ''1.0'' @ '' encoding='' @ quoted ''UTF-8'' @ ''?>'',
            ''<!-- '' @ MARKER @ '' Run it again to update this file. -->'',
            ''<!DOCTYPE plist PUBLIC '' @ quoted ''-//Apple//DTD PLIST 1.0//EN'' @ '' '' @ quoted ''http://www.apple.com/DTDs/PropertyList-1.0.dtd'' @ ''>'',
            ''<plist version='' @ quoted ''1.0'' @ ''>'',
            ''<dict>'',
            plist_key ''Label'', plist_string 1 label,
            plist_key ''ProgramArguments'',
            TAB @ ''<array>'',
            plist_string 2 exe, plist_string 2 (role_name role), plist_string 2 ''--config'', plist_string 2 config,
            plist_string 2 ''--log'', plist_string 2 ''oslog'',
            TAB @ ''</array>'',
            plist_key ''RunAtLoad'', TAB @ ''<true/>'',
            plist_key ''KeepAlive'', TAB @ ''<true/>'',
            plist_key ''ThrottleInterval'', TAB @ ''<integer>5</integer>'',
            plist_key ''StandardOutPath'', plist_string 1 log',
            plist_key ''StandardErrorPath'', plist_string 1 log',
            ''</dict>'',
            ''</plist>'']))"

section \<open>The checks\<close>

datatype Manager = Systemd | Launchd

definition manager :: "string \<Rightarrow> bool \<Rightarrow> bool \<Rightarrow> Report + Manager" where
  "manager os as_root systemd_running =
     (if os = ''linux'' \<and> \<not> as_root then Inl (Bail ''run it with sudo: a systemd unit is installed as root'')
      else if os = ''linux'' \<and> \<not> systemd_running then Inl (Bail ''this system is not running systemd'')
      else if os = ''linux'' then Inr Systemd
      else if os = ''macos'' \<and> as_root then Inl (Bail ''run it without sudo: the agent starts when you log in'')
      else if os = ''macos'' then Inr Launchd
      else Inl (Bail ''hawse service supports systemd on Linux and launchd on macOS''))"

definition account_char :: "nat \<Rightarrow> bool" where
  "account_char c \<longleftrightarrow> 48 \<le> c \<and> c \<le> 57 \<or> 65 \<le> c \<and> c \<le> 90 \<or> 97 \<le> c \<and> c \<le> 122 \<or> c \<in> {0x5F, 0x2D, 0x2E}"

definition account :: "string \<Rightarrow> Report + string" where
  "account name =
     (if name = [] \<or> hd name = CHR ''-'' \<or> \<not> list_all account_char (chars name) then Inl (Bail (''`'' @ name @ ''` is not an account name''))
      else if name = ''root''
      then Inl (Bail ''--user root would run the tunnel as root; drop --user for a throwaway account, or name the account that owns the config'')
      else Inr name)"

definition HIDDEN :: "string list" where "HIDDEN = [''/home'', ''/root'', ''/run/user'', ''/tmp'', ''/var/tmp'']"

definition hidden :: "Host \<Rightarrow> files \<Rightarrow> path \<Rightarrow> string option" where
  "hidden h fs path =
     find (\<lambda>dir. starts_with path (components dir) \<or>
         (case h_canonicalize h fs path of Inr r \<Rightarrow> starts_with r (components dir) | Inl _ \<Rightarrow> False)) HIDDEN"

definition unit_key :: "files \<Rightarrow> Role \<Rightarrow> Located \<Rightarrow> path option \<Rightarrow> string option \<Rightarrow> Report + path" where
  "unit_key fs role located configured user =
     (let key = (case configured of
                   Some key \<Rightarrow> join_path (lc_dir located) key
                 | None \<Rightarrow>
                     if user \<noteq> None then default_key fs role (lc_dir located) None False
                     else default_key fs role (lc_dir located) (Some STATE) False)
      in case user of
           Some name \<Rightarrow>
             (let dir = (case parent key of Some dir \<Rightarrow> dir | None \<Rightarrow> components ''/'')
              in if \<not> is_dir fs dir
                 then Inl (Bail (path_text dir @ '' is not there, and the unit can write a key only to a directory that is; sudo install -d -o '' @ name @ '' '' @ path_text dir @ '' and run this again''))
                 else Inr key)
         | None \<Rightarrow>
             (if starts_with key (components STATE) then Inr key
              else if configured \<noteq> None
              then Inl (Bail (''the unit can keep its key only under '' @ STATE @ ''; drop `key` from the config or point it there''))
              else Inl (Bail (path_text key @ '' is root'' @ [CHR 0x27] @ ''s, and the unit'' @ [CHR 0x27] @ ''s throwaway account cannot read it; sudo mv '' @ path_text key @ '' '' @ STATE @ ''/ and run this again''))))"

text \<open>The first of the directories that lets no other account through, the nearest first.\<close>

fun closed_dirs :: "Host \<Rightarrow> path list \<Rightarrow> (IoError, (path \<times> string) option) io" where
  "closed_dirs h [] = ok None"
| "closed_dirs h (dir # dirs) =
     (if dir = [] then closed_dirs h dirs
      else bind (fs_metadata h dir) (\<lambda>meta. if and (m_mode meta) 1 = 0 then ok (Some (dir, ''o+x'')) else closed_dirs h dirs))"

fun interleave :: "'a list \<Rightarrow> 'a list \<Rightarrow> 'a list" where
  "interleave (x # xs) (y # ys) = x # y # interleave xs ys"
| "interleave [] ys = ys"
| "interleave xs [] = xs"

definition closed_to_others :: "Host \<Rightarrow> path \<Rightarrow> (IoError, (path \<times> string) option) io" where
  "closed_to_others h file =
     bind (canonicalize h file) (\<lambda>real'.
     bind (fs_metadata h real') (\<lambda>meta.
       if and (m_mode meta) 4 = 0 then ok (Some (real', ''o+r''))
       else closed_dirs h (interleave (tl (ancestors file)) (tl (ancestors real')))))"

fun root_only :: "Host \<Rightarrow> path \<Rightarrow> path list \<Rightarrow> (Report, unit) io" where
  "root_only h exe [] = ok ()"
| "root_only h exe (path # paths) =
     bind (wrap_err (''cannot read '' @ path_text path) (fs_metadata h path)) (\<lambda>meta.
       let why = (if m_uid meta \<noteq> 0 then Some (''is not root'' @ [CHR 0x27] @ ''s'')
                  else if and (m_mode meta) 0x12 \<noteq> 0 then Some ''is writable by its group or by others'' else None)
       in case why of
            None \<Rightarrow> root_only h exe paths
          | Some why \<Rightarrow> bail (path_text path @ '' '' @ why @ '', so another account could replace '' @ path_text exe @ '', which root runs; move hawse to a directory only root can write, such as /usr/local/bin''))"

definition only_root_writes :: "Host \<Rightarrow> path \<Rightarrow> (Report, unit) io" where
  "only_root_writes h exe = root_only h exe (ancestors exe)"

definition file_stem :: "string \<Rightarrow> string" where
  "file_stem name = (let pieces = splits_at CHR ''.'' name in
     if length pieces < 2 \<or> butlast pieces = [[]] then name else join_with ''.'' (butlast pieces))"

definition remedy :: "path \<Rightarrow> string" where
  "remedy file =
     (case file_name file of
        Some name \<Rightarrow>
          (if strip_suffix ''.service'' name \<notin> {None, Some []}
           then ''move any changes to a drop-in (systemctl edit '' @ file_stem name @ '') and remove it'' else ''remove it'')
      | None \<Rightarrow> ''remove it'')"

definition installed :: "Host \<Rightarrow> path \<Rightarrow> (Report, bool) io" where
  "installed h file =
     bind (attempt (fs_read_to_string h file)) (\<lambda>r.
       case r of
         Inl NotFound \<Rightarrow> ok False
       | Inl e \<Rightarrow> fail (Wrapped (''cannot read '' @ path_text file) (Io e))
       | Inr text \<Rightarrow>
           if is_ours text then ok True
           else bail (path_text file @ '' was not written by hawse service install; '' @ remedy file))"

definition service_text :: "path \<Rightarrow> Report + string" where
  "service_text path =
     (let text = path_text path
      in if \<not> valid_utf8 (bytes_of_text text) then Inl (Bail (text @ '' is not UTF-8, which a unit or a plist cannot hold''))
         else if list_ex is_control (chars text) then Inl (Bail (text @ '' holds a control character, which a unit or a plist cannot hold''))
         else Inr text)"

definition run_program :: "Host \<Rightarrow> string \<Rightarrow> string list \<Rightarrow> (Report, unit) io" where
  "run_program h program args =
     bind (wrap_err (''cannot run '' @ program) (command_output h program args)) (\<lambda>out.
       if o_success out then ok () else bail (program @ '' '' @ join_with '' '' args @ '' failed''))"

definition resolve_located :: "Host \<Rightarrow> Located \<Rightarrow> (Report, Located) io" where
  "resolve_located h located =
     bind (map_err Io (lift_result (absolute h (lc_dir located)))) (\<lambda>dir.
     bind (attempt (canonicalize h dir)) (\<lambda>r.
       let dir = (case r of Inr d \<Rightarrow> d | Inl _ \<Rightarrow> dir)
       in case file_name (lc_file located) of
            None \<Rightarrow> bail (path_text (lc_file located) @ '' names no file'')
          | Some name \<Rightarrow> ok \<lparr>lc_file = join_path dir [Normal name], lc_dir = dir, lc_exists = lc_exists located\<rparr>))"

definition install_report :: "(bytes \<Rightarrow> string) \<Rightarrow> Role \<Rightarrow> path \<Rightarrow> PublicKey \<Rightarrow> bool \<Rightarrow> string \<Rightarrow> string list" where
  "install_report encode64 role file key created how =
     [''installed '' @ path_text file @ '' and started it'', role_name role @ '' key: '' @ key_to_string encode64 key] @
     (if created
      then [case role of
              RoleServer \<Rightarrow> ''it is new: each client needs it as its server_key''
            | RoleClient \<Rightarrow> ''it is new: on the server, add it to server.toml under [clients.NAME]'']
      else []) @ [how]"

section \<open>The commands\<close>

abbreviation reported :: "(Report, 'a) io \<Rightarrow> (('net, 'rc) Failure, 'a) io" where "reported \<equiv> map_err Reported"

abbreviation refuse_with :: "string \<Rightarrow> (('net, 'rc) Failure, 'a) io" where "refuse_with text \<equiv> fail (Reported (Bail text))"

definition path_as_text :: "path \<Rightarrow> (('net, 'rc) Failure, string) io" where
  "path_as_text path = reported (lift_result (service_text path))"

definition not_hidden :: "Host \<Rightarrow> path \<Rightarrow> (('net, 'rc) Failure, unit) io" where
  "not_hidden h path = bind get_files (\<lambda>fs.
     case hidden h fs path of
       Some dir \<Rightarrow> refuse_with (path_text path @ '' is under '' @ dir @ '', which the unit'' @ [CHR 0x27] @ ''s ProtectHome= or PrivateTmp= hides from the service; move it'')
     | None \<Rightarrow> ok ())"

definition readable_by_others :: "Host \<Rightarrow> Located \<Rightarrow> (('net, 'rc) Failure, unit) io" where
  "readable_by_others h located =
     bind (map_err (\<lambda>e. Reported (Io e)) (closed_to_others h (lc_file located))) (\<lambda>r.
       case r of
         Some (path, open') \<Rightarrow>
           refuse_with (path_text path @ '' keeps the unit'' @ [CHR 0x27] @ ''s throwaway account from reading '' @ path_text (lc_file located) @ ''; chmod '' @ open' @ '' '' @ path_text path)
       | None \<Rightarrow> ok ())"

definition install_unit :: "(bytes \<Rightarrow> string) \<Rightarrow> (Role \<Rightarrow> string) \<Rightarrow> ('kp, 'rc) Rcgen \<Rightarrow> Host \<Rightarrow> Role \<Rightarrow> Located \<Rightarrow> path option \<Rightarrow> path \<Rightarrow> string option \<Rightarrow>
    (('net, 'rc) Failure, unit) io" where
  "install_unit encode64 contrib rc h role located configured exe user =
     bind (reported (only_root_writes h exe)) (\<lambda>_.
     bind (bind get_files (\<lambda>fs. reported (lift_result (unit_key fs role located configured user)))) (\<lambda>key.
     let key_dir = (case parent key of Some dir \<Rightarrow> dir | None \<Rightarrow> components ''/'');
         seen = [exe, lc_file located] @ (if user \<noteq> None then [key_dir] else []);
         file = unit_file role;
         name = ''hawse-'' @ role_name role
     in bind (for_each (not_hidden h) seen) (\<lambda>_.
        bind (if user = None \<and> lc_exists located then readable_by_others h located else ok ()) (\<lambda>_.
        bind (path_as_text exe) (\<lambda>exe_text.
        if \<not> can_execute exe_text
        then refuse_with (path_text exe @ '' holds a quote, a backslash or a control character, which systemd runs no binary from; move it'')
        else
          bind (reported (installed h file)) (\<lambda>_.
          bind (case user of
                  Some name \<Rightarrow> bind (path_as_text key_dir) (\<lambda>dir. ok (Some \<lparr>ac_name = name, ac_key_dir = dir\<rparr>))
                | None \<Rightarrow> ok None) (\<lambda>account.
          bind (path_as_text (lc_file located)) (\<lambda>config.
          case unit_text contrib role exe_text config account of
            None \<Rightarrow> refuse_with ''the contrib unit has an ExecStart= line and a DynamicUser=yes line''
          | Some unit' \<Rightarrow>
              bind (reported (wrap_err (''cannot write '' @ path_text file) (fs_write h file (bytes_of_text unit')))) (\<lambda>_.
              bind (reported (run_program h ''systemctl'' [''daemon-reload''])) (\<lambda>_.
              bind (reported (run_program h ''systemctl'' [''enable'', name])) (\<lambda>_.
              bind (bind get_files (\<lambda>fs. ok (\<not> exists_at fs key))) (\<lambda>created.
              bind (reported (run_program h ''systemctl'' [''restart'', name])) (\<lambda>_.
              bind (load_key rc h key) (\<lambda>loaded.
              case loaded of
                None \<Rightarrow> refuse_with (''the service started without a key at '' @ path_text key)
              | Some identity \<Rightarrow>
                  for_each println (install_report encode64 role file (id_public identity) created
                    (''`systemctl status '' @ name @ ''` shows how it stands, and `journalctl -u '' @ name @ ''` its log''))))))))))))))))"

text \<open>
  Waiting for launchd to let go of an agent: at each look the clock is read, and the wait ends when the
  agent is gone or 30 seconds have passed. \<open>None\<close> is a wait that the fuel did not see the end of.
\<close>

definition launchctl_ok :: "Host \<Rightarrow> string \<Rightarrow> string \<Rightarrow> World \<Rightarrow> bool \<times> World" where
  "launchctl_ok h command target w =
     (case command_output h ''launchctl'' [command, target] w of (r, w') \<Rightarrow> (case r of Inr out \<Rightarrow> o_success out | Inl _ \<Rightarrow> False, w'))"

fun bootout_wait :: "nat \<Rightarrow> Host \<Rightarrow> string \<Rightarrow> string \<Rightarrow> instant \<Rightarrow> World \<Rightarrow> ((Report + unit) \<times> World) option" where
  "bootout_wait 0 h name target deadline w = None"
| "bootout_wait (Suc n) h name target deadline w =
     (case launchctl_ok h ''print'' target w of
        (False, w') \<Rightarrow> Some (Inr (), w')
      | (True, w') \<Rightarrow>
          if deadline < h_clock h (w_ran w') then Some (Inl (Bail (name @ '' is still stopping; run this again'')), w')
          else bootout_wait n h name target deadline w')"

text \<open>With 50 ms between two looks, 602 looks are more than 30 seconds.\<close>

definition BOOTOUT_LOOKS :: nat where "BOOTOUT_LOOKS = 602"

definition bootout :: "Host \<Rightarrow> string \<Rightarrow> (Report, unit) io" where
  "bootout h name w =
     (let target = ''gui/'' @ show_nat (unat (h_uid h)) @ ''/'' @ name; (_, w) = launchctl_ok h ''bootout'' target w;
          deadline = h_clock h (w_ran w) + secs 30
      in case bootout_wait BOOTOUT_LOOKS h name target deadline w of
           Some r \<Rightarrow> r
         | None \<Rightarrow> (Inl (Bail []), w))"

definition install_agent :: "(bytes \<Rightarrow> string) \<Rightarrow> ('kp, 'rc) Rcgen \<Rightarrow> Host \<Rightarrow> path option \<Rightarrow> Role \<Rightarrow> Located \<Rightarrow> path option \<Rightarrow> path \<Rightarrow>
    (('net, 'rc) Failure, unit) io" where
  "install_agent encode64 rc h home role located configured exe =
     (case home of
        None \<Rightarrow> refuse_with ''cannot find the home directory''
      | Some home \<Rightarrow>
          bind get_files (\<lambda>fs.
          let key = key_path h fs role located configured; file = agent_file home role; log' = log_file home role
          in bind (reported (installed h file)) (\<lambda>_.
             bind (path_as_text exe) (\<lambda>exe_text.
             bind (path_as_text (lc_file located)) (\<lambda>config.
             bind (path_as_text log') (\<lambda>log_text.
             bind (for_each (\<lambda>dir. reported (wrap_err (''cannot create '' @ path_text dir) (fs_create_dir_all h dir)))
                (List.map_filter (\<lambda>p. p) [parent file, parent log'])) (\<lambda>_.
             bind (reported (wrap_err (''cannot write '' @ path_text file) (fs_write h file (bytes_of_text (plist role exe_text config log_text))))) (\<lambda>_.
             bind (map_err (NoIdentity (''cannot load the '' @ role_name role @ '' key at '' @ path_text key)) (load_or_create rc h key)) (\<lambda>(identity, created).
             bind (reported (bootout h (label role))) (\<lambda>_.
             bind (path_as_text file) (\<lambda>file_text.
             bind (reported (run_program h ''launchctl'' [''bootstrap'', ''gui/'' @ show_nat (unat (h_uid h)), file_text])) (\<lambda>_.
             for_each println (install_report encode64 role file (id_public identity) created
               (''`/usr/bin/log stream --predicate '' @ [CHR 0x27] @ ''subsystem == '' @ quoted SUBSYSTEM @ [CHR 0x27] @ ''` follows its log, and `launchctl print gui/'' @
                show_nat (unat (h_uid h)) @ ''/'' @ label role @ ''` shows how it stands''))))))))))))))"

text \<open>What the command line knows of the machine it runs on.\<close>

record Machine =
  mc_os :: string
  mc_arch :: string
  mc_current_exe :: "IoError + path"
  mc_user_dir :: "path option"
  mc_home :: "path option"

definition SYSTEMD_RUNS :: path where "SYSTEMD_RUNS = [RootDir, Normal ''run'', Normal ''systemd'', Normal ''system'']"

definition which_manager :: "Machine \<Rightarrow> Host \<Rightarrow> (('net, 'rc) Failure, Manager) io" where
  "which_manager mc h = bind get_files (\<lambda>fs. reported (lift_result (manager (mc_os mc) (is_root h) (is_dir fs SYSTEMD_RUNS))))"

definition this_binary :: "Machine \<Rightarrow> Host \<Rightarrow> (Report, path) io" where
  "this_binary mc h = wrap_err ''cannot find the hawse binary'' (bind (lift_result (mc_current_exe mc)) (canonicalize h))"

definition install_with :: "(bytes \<Rightarrow> string) \<Rightarrow> (Role \<Rightarrow> string) \<Rightarrow> ('net, 'x) ipnet_scheme \<Rightarrow> 'net Toml \<Rightarrow> ('kp, 'rc) Rcgen \<Rightarrow> Machine \<Rightarrow> Host \<Rightarrow> Role \<Rightarrow>
    path option \<Rightarrow> string option \<Rightarrow> Manager \<Rightarrow> (('net, 'rc) Failure, unit) io" where
  "install_with encode64 contrib net toml rc mc h role config user mgr =
     bind (case user of
             None \<Rightarrow> ok ()
           | Some name \<Rightarrow>
               if mgr = Launchd then refuse_with ''a LaunchAgent runs as whoever installs it; drop --user''
               else bind (reported (lift_result (account name))) (\<lambda>_. ok ())) (\<lambda>_.
     bind (case role of
             RoleServer \<Rightarrow> bind (map_err NotLoaded (load_server net (tm_server toml) h (mc_user_dir mc) config)) (\<lambda>(cfg, located). ok (located, sc_key cfg))
           | RoleClient \<Rightarrow> bind (map_err NotLoaded (load_client net (tm_client toml) h (mc_user_dir mc) config)) (\<lambda>(cfg, located). ok (located, cc_key cfg)))
       (\<lambda>(located, key).
     bind (reported (resolve_located h located)) (\<lambda>located.
     bind (reported (this_binary mc h)) (\<lambda>exe.
     case mgr of
       Systemd \<Rightarrow> install_unit encode64 contrib rc h role located (map_option components key) exe user
     | Launchd \<Rightarrow> install_agent encode64 rc h (mc_home mc) role located (map_option components key) exe))))"

definition install :: "(bytes \<Rightarrow> string) \<Rightarrow> (Role \<Rightarrow> string) \<Rightarrow> ('net, 'x) ipnet_scheme \<Rightarrow> 'net Toml \<Rightarrow> ('kp, 'rc) Rcgen \<Rightarrow> Machine \<Rightarrow> Host \<Rightarrow> Role \<Rightarrow>
    path option \<Rightarrow> string option \<Rightarrow> (('net, 'rc) Failure, unit) io" where
  "install encode64 contrib net toml rc mc h role config user =
     bind (which_manager mc h) (install_with encode64 contrib net toml rc mc h role config user)"

definition service_at :: "Machine \<Rightarrow> Role \<Rightarrow> Manager \<Rightarrow> (('net, 'rc) Failure, path \<times> string) io" where
  "service_at mc role mgr =
     (case mgr of
        Systemd \<Rightarrow> ok (unit_file role, ''hawse-'' @ role_name role)
      | Launchd \<Rightarrow>
          (case mc_home mc of
             None \<Rightarrow> refuse_with ''cannot find the home directory''
           | Some home \<Rightarrow> ok (agent_file home role, label role)))"

definition uninstall_with :: "Machine \<Rightarrow> Host \<Rightarrow> Role \<Rightarrow> Manager \<Rightarrow> (('net, 'rc) Failure, unit) io" where
  "uninstall_with mc h role mgr =
     bind (service_at mc role mgr) (\<lambda>(file, name).
     bind (reported (installed h file)) (\<lambda>there.
       if \<not> there then println (name @ '' is not installed'')
       else
         bind (case mgr of
                 Systemd \<Rightarrow> reported (run_program h ''systemctl'' [''disable'', ''--now'', name])
               | Launchd \<Rightarrow> reported (bootout h name)) (\<lambda>_.
         bind (reported (wrap_err (''cannot remove '' @ path_text file) (fs_remove_file h file))) (\<lambda>_.
         bind (if mgr = Systemd then reported (run_program h ''systemctl'' [''daemon-reload'']) else ok ()) (\<lambda>_.
         println (''removed '' @ path_text file @ ''; the config and the key are where they were''))))))"

definition uninstall :: "Machine \<Rightarrow> Host \<Rightarrow> Role \<Rightarrow> (('net, 'rc) Failure, unit) io" where
  "uninstall mc h role = bind (which_manager mc h) (uninstall_with mc h role)"

section \<open>How systemd reads a command\<close>

text \<open>
  What systemd.service(5) and systemd.syntax(7) say of a command line: words stand between blanks, a
  word in double quotes ends at the next quote that no backslash is before, and a doubled percent sign
  is one.
\<close>

fun sd_quoted :: "string \<Rightarrow> (string \<times> string) option" where
  "sd_quoted [] = None"
| "sd_quoted (c # cs) =
     (if c = CHR 0x22 then Some ([], cs)
      else if c = CHR 0x5C then (case cs of d # ds \<Rightarrow> map_option (\<lambda>(w, r). (d # w, r)) (sd_quoted ds) | [] \<Rightarrow> None)
      else map_option (\<lambda>(w, r). (c # w, r)) (sd_quoted cs))"

definition sd_word :: "string \<Rightarrow> (string \<times> string) option" where
  "sd_word s =
     (if s \<noteq> [] \<and> hd s = CHR 0x22 then sd_quoted (tl s)
      else Some (takeWhile (\<lambda>c. c \<noteq> CHR '' '') s, dropWhile (\<lambda>c. c \<noteq> CHR '' '') s))"

fun sd_percent :: "string \<Rightarrow> string" where
  "sd_percent (c # d # cs) = (if c = CHR ''%'' \<and> d = CHR ''%'' then c # sd_percent cs else c # sd_percent (d # cs))"
| "sd_percent s = s"

inductive sd_reads :: "string \<Rightarrow> string list \<Rightarrow> bool" where
  last_word: "sd_word s = Some (w, []) \<Longrightarrow> sd_reads s [sd_percent w]"
| next_word: "sd_word s = Some (w, CHR '' '' # rest) \<Longrightarrow> sd_reads rest ws \<Longrightarrow> sd_reads s (sd_percent w # ws)"

text \<open>A command is read in one way.\<close>

lemma sd_reads_unique: "sd_reads s ws \<Longrightarrow> sd_reads s vs \<Longrightarrow> ws = vs"
proof (induction arbitrary: vs rule: sd_reads.induct)
  case (last_word s w)
  from last_word(2) show ?case by (cases rule: sd_reads.cases) (use last_word(1) in auto)
next
  case (next_word s w rest ws)
  from next_word(4) show ?case
  proof (cases rule: sd_reads.cases)
    case (next_word w' rest' ws')
    then show ?thesis using \<open>sd_word s = Some (w, CHR '' '' # rest)\<close> next_word.IH [of ws'] by simp
  qed (use next_word(1) in simp)
qed

definition quote_esc :: "string \<Rightarrow> string" where
  "quote_esc s = replace_char CHR 0x22 [CHR 0x5C, CHR 0x22] (replace_char CHR 0x5C [CHR 0x5C, CHR 0x5C] s)"

lemma quote_esc_simps [simp]: "quote_esc [] = []"
  "quote_esc (c # s) = (if c = CHR 0x5C then [c, c] else if c = CHR 0x22 then [CHR 0x5C, c] else [c]) @ quote_esc s"
  by (auto simp: quote_esc_def replace_char_def)

lemma sd_quoted_esc: "sd_quoted (quote_esc s @ CHR 0x22 # rest) = Some (s, rest)"
  by (induction s) auto

lemma replace_Cons [simp]: "replace_char c t [] = []" "replace_char c t (x # s) = (if x = c then t else [x]) @ replace_char c t s"
  by (simp_all add: replace_char_def)

lemma sd_percent_Cons: "c \<noteq> CHR ''%'' \<Longrightarrow> sd_percent (c # s) = c # sd_percent s"
  by (cases s) auto

lemma sd_percent_doubled [simp]: "sd_percent (replace_char CHR ''%'' ''%%'' s) = s"
  by (induction s) (auto simp: sd_percent_Cons)

lemma sd_plain:
  assumes "CHR '' '' \<notin> set w" "CHR 0x22 \<notin> set w" "rest = [] \<or> hd rest = CHR '' ''"
  shows "sd_word (w @ rest) = Some (w, rest)"
proof -
  have no: "c \<noteq> CHR '' ''" if "c \<in> set w" for c using that assms(1) by auto
  have "takeWhile (\<lambda>c. c \<noteq> CHR '' '') (w @ rest) = w" "dropWhile (\<lambda>c. c \<noteq> CHR '' '') (w @ rest) = rest"
    using assms(3) no by (cases rest; simp add: takeWhile_append2 dropWhile_append2)+
  moreover have "\<not> (w @ rest \<noteq> [] \<and> hd (w @ rest) = CHR 0x22)" using assms by (cases w; cases rest) auto
  ultimately show ?thesis by (auto simp: sd_word_def)
qed

lemma sd_word_unit_word:
  assumes "valid_utf8 (bytes_of_text arg)" "rest = [] \<or> hd rest = CHR '' ''"
  shows "sd_word (unit_word arg @ rest) = Some (replace_char CHR ''%'' ''%%'' arg, rest)"
proof -
  define a where "a = replace_char CHR ''%'' ''%%'' arg"
  have valid: "valid_utf8 (bytes_of_text a)" unfolding a_def by (rule valid_replace_char [OF assms(1)]) simp_all
  let ?P = "\<lambda>c. is_whitespace c \<or> c \<in> {0x22, 0x27, 0x5C}"
  show ?thesis
  proof (cases "list_ex ?P (chars a)")
    case True
    then show ?thesis by (simp add: unit_word_def a_def [symmetric] Let_def QUOTE_def sd_word_def sd_quoted_esc flip: quote_esc_def)
  next
    case False
    have "CHR '' '' \<notin> set a" "CHR 0x22 \<notin> set a"
      by (rule no_ascii_char [OF valid False]; simp add: is_whitespace_def)+
    with False assms(2) show ?thesis by (simp add: unit_word_def a_def [symmetric] Let_def sd_plain)
  qed
qed

definition unit_command :: "Role \<Rightarrow> string \<Rightarrow> string \<Rightarrow> string" where
  "unit_command role exe config = unit_word exe @ '' '' @ role_name role @ '' --config '' @ unit_word config @ '' --log pretty''"

lemma sd_plain_reads: "CHR '' '' \<notin> set w \<Longrightarrow> CHR 0x22 \<notin> set w \<Longrightarrow> CHR ''%'' \<notin> set w \<Longrightarrow> sd_reads rest ws \<Longrightarrow> sd_reads (w @ CHR '' '' # rest) (w # ws)"
proof -
  assume w: "CHR '' '' \<notin> set w" "CHR 0x22 \<notin> set w" "CHR ''%'' \<notin> set w" and "sd_reads rest ws"
  have "sd_percent w = w" using w(3) by (induction w) (auto simp: sd_percent_Cons)
  moreover have "sd_reads (w @ CHR '' '' # rest) (sd_percent w # ws)"
    by (rule next_word) (use w \<open>sd_reads rest ws\<close> in \<open>auto simp: sd_plain\<close>)
  ultimately show ?thesis by simp
qed

lemma unit_word_reads:
  assumes "valid_utf8 (bytes_of_text arg)" "sd_reads rest ws"
  shows "sd_reads (unit_word arg @ CHR '' '' # rest) (arg # ws)"
  using next_word [OF sd_word_unit_word [OF assms(1), of "CHR '' '' # rest"] assms(2)] by simp

lemma unit_command_reads:
  assumes "valid_utf8 (bytes_of_text exe)" "valid_utf8 (bytes_of_text config)"
  shows "sd_reads (unit_command role exe config) [exe, role_name role, ''--config'', config, ''--log'', ''pretty'']"
proof -
  have "sd_reads ''pretty'' [''pretty'']" using last_word [of "''pretty''" "''pretty''"] by (simp add: sd_word_def)
  then have "sd_reads (''--log'' @ CHR '' '' # ''pretty'') [''--log'', ''pretty'']" by (intro sd_plain_reads) simp_all
  then have "sd_reads (unit_word config @ CHR '' '' # ''--log'' @ CHR '' '' # ''pretty'') [config, ''--log'', ''pretty'']"
    by (intro unit_word_reads assms)
  then have "sd_reads (role_name role @ CHR '' '' # ''--config'' @ CHR '' '' # unit_word config @ CHR '' '' # ''--log'' @ CHR '' '' # ''pretty'')
      [role_name role, ''--config'', config, ''--log'', ''pretty'']"
    by (intro sd_plain_reads) (cases role; simp)+
  then show ?thesis using unit_word_reads [OF assms(1)] by (simp add: unit_command_def)
qed

section \<open>What a unit says\<close>

abbreviation one_line :: "string \<Rightarrow> bool" where "one_line l \<equiv> CHR 0x0A \<notin> set l \<and> CHR 0x0D \<notin> set l"

lemma lines_joined: "list_all one_line ls \<Longrightarrow> lines (concat (map (\<lambda>l. l @ NL) ls)) = ls"
proof (induction ls)
  case (Cons l ls)
  then have "strip_cr l = l" by (cases l rule: rev_cases) (auto simp: strip_cr_def)
  then show ?case using Cons by (simp add: NL_def lines_line)
qed simp

lemma lines_loop_chars: "l \<in> set (lines_loop acc s) \<Longrightarrow> set l \<subseteq> set acc \<union> set s \<and> (CHR 0x0A \<notin> set acc \<longrightarrow> CHR 0x0A \<notin> set l)"
proof (induction acc s rule: lines_loop.induct)
  case (2 acc c cs)
  have strip: "x \<in> set (strip_cr l) \<Longrightarrow> x \<in> set l" for x l by (auto simp: strip_cr_def dest: in_set_butlastD split: if_splits)
  from 2 show ?case by (auto split: if_splits dest: strip)
qed (auto split: if_splits)

lemma lines_one_line: "CHR 0x0D \<notin> set s \<Longrightarrow> l \<in> set (lines s) \<Longrightarrow> one_line l"
  using lines_loop_chars [of l "[]" s] by (auto simp: lines_def)

lemma set_replace_char: "x \<in> set (replace_char c t s) \<Longrightarrow> x \<in> set s \<or> x \<in> set t"
  by (auto simp: replace_char_def split: if_splits)

lemma set_unit_word: "set (unit_word arg) \<subseteq> set arg \<union> {CHR ''%'', CHR 0x22, CHR 0x5C}"
  unfolding unit_word_def QUOTE_def Let_def by (auto split: if_splits dest!: set_replace_char)

lemma service_text_line: "service_text p = Inr t \<Longrightarrow> valid_utf8 (bytes_of_text t) \<and> one_line t"
proof -
  assume "service_text p = Inr t"
  then have v: "valid_utf8 (bytes_of_text t)" "\<not> list_ex is_control (chars t)" by (auto simp: service_text_def Let_def split: if_splits)
  have "CHR 0x0A \<notin> set t" "CHR 0x0D \<notin> set t" by (rule no_ascii_char [OF v]; simp add: is_control_def)+
  then show ?thesis using v by simp
qed

lemma unit_word_line: "one_line arg \<Longrightarrow> one_line (unit_word arg)"
  using set_unit_word [of arg] by auto

lemma account_line: "account name = Inr n \<Longrightarrow> valid_utf8 (bytes_of_text name) \<Longrightarrow> one_line name"
proof -
  assume a: "account name = Inr n" and v: "valid_utf8 (bytes_of_text name)"
  then have "list_all account_char (chars name)" by (auto simp: account_def split: if_splits)
  then have "\<not> list_ex (\<lambda>c. \<not> account_char c) (chars name)" by (auto simp: list_ex_iff list_all_iff)
  from no_ascii_char [OF v this] show ?thesis by (simp add: account_char_def)
qed

text \<open>The lines that one line of the contrib unit becomes.\<close>

definition unit_lines :: "Role \<Rightarrow> string \<Rightarrow> string \<Rightarrow> Account option \<Rightarrow> string \<Rightarrow> string list" where
  "unit_lines role exe config acct line =
     (if has_prefix ''ExecStart='' line then [''ExecStart=:'' @ unit_command role exe config]
      else case acct of
        Some a \<Rightarrow>
          (if line = ''DynamicUser=yes'' then [''User='' @ ac_name a, ''ReadWritePaths='' @ unit_word (ac_key_dir a)]
           else if has_prefix ''ConfigurationDirectory='' line \<or> has_prefix ''StateDirectory='' line then [] else [line])
      | None \<Rightarrow> [line])"

lemma unit_line_lines: "fst (unit_line role exe config acct line) = concat (map (\<lambda>l. l @ NL) (unit_lines role exe config acct line))"
  by (auto simp: unit_line_def unit_lines_def unit_command_def Let_def split: option.split)

definition head_line :: "Role \<Rightarrow> string" where "head_line role = butlast (unit_head role)"

lemma unit_head_line: "unit_head role = head_line role @ NL"
  by (simp add: head_line_def unit_head_def NL_def butlast_append)

lemma unit_lines_cases: "l \<in> set (unit_lines role exe config acct line) \<Longrightarrow>
  l = ''ExecStart=:'' @ unit_command role exe config \<or> l = line \<and> \<not> has_prefix ''ExecStart='' line \<or>
  (\<exists>a. acct = Some a \<and> (l = ''User='' @ ac_name a \<or> l = ''ReadWritePaths='' @ unit_word (ac_key_dir a)))"
  by (simp add: unit_lines_def split: if_splits option.splits)

lemma unit_command_line: "one_line exe \<Longrightarrow> one_line config \<Longrightarrow> one_line (unit_command role exe config)"
  using unit_word_line [of exe] unit_word_line [of config] by (cases role) (simp_all add: unit_command_def)

lemma concat_map_concat: "concat (map g (concat (map f xs))) = concat (map (\<lambda>x. concat (map g (f x))) xs)"
  by (induction xs) simp_all

lemma unit_text_lines:
  assumes "unit_text contrib role exe config acct = Some text" "CHR 0x0D \<notin> set (contrib role)" "one_line exe" "one_line config"
    and "\<And>a. acct = Some a \<Longrightarrow> one_line (ac_name a) \<and> one_line (ac_key_dir a)"
  shows "lines text = head_line role # concat (map (unit_lines role exe config acct) (lines (contrib role)))"
proof -
  let ?ls = "concat (map (unit_lines role exe config acct) (lines (contrib role)))"
  have whole: "text = concat (map (\<lambda>l. l @ NL) (head_line role # ?ls))"
    using assms(1) by (simp add: unit_text_def Let_def unit_line_lines unit_head_line concat_map_concat o_def split: if_splits)
  have "one_line (head_line role)" by (cases role) (simp_all add: head_line_def unit_head_def MARKER_def NL_def)
  moreover have "one_line l" if "line \<in> set (lines (contrib role))" "l \<in> set (unit_lines role exe config acct line)" for l line
    using unit_lines_cases [OF that(2)]
  proof (elim disjE exE conjE)
    fix a
    assume a: "acct = Some a"
    then have "one_line (ac_name a)" "one_line (unit_word (ac_key_dir a))" using assms(5) unit_word_line by blast+
    then show "l = ''User='' @ ac_name a \<Longrightarrow> one_line l" "l = ''ReadWritePaths='' @ unit_word (ac_key_dir a) \<Longrightarrow> one_line l"
      by simp_all
  qed (use lines_one_line [OF assms(2) that(1)] unit_command_line [OF assms(3,4)] in simp_all)
  ultimately have "list_all one_line (head_line role # ?ls)" by (auto simp: list_all_iff)
  then show ?thesis unfolding whole by (rule lines_joined)
qed

lemma unit_text_exec:
  assumes "unit_text contrib role exe config acct = Some text"
  obtains line where "line \<in> set (lines (contrib role))" "has_prefix ''ExecStart='' line"
proof -
  have snd_line: "fst (snd (unit_line role exe config acct line)) = has_prefix ''ExecStart='' line" for line
    by (simp add: unit_line_def Let_def split: option.split)
  have "list_ex (fst \<circ> snd) (map (unit_line role exe config acct) (lines (contrib role)))"
    using assms by (auto simp: unit_text_def Let_def split: if_splits)
  then show ?thesis using that by (auto simp: list_ex_iff snd_line)
qed

lemma head_line_ours: "contains MARKER (head_line role)"
proof -
  obtain rest where head: "head_line role = ''# '' @ MARKER @ rest"
    by (simp add: head_line_def unit_head_def NL_def butlast_append)
  have "strip_prefix MARKER (drop 2 (head_line role)) = Some rest" by (simp add: head text_simps)
  moreover have "2 < Suc (length (head_line role))" by (simp add: head)
  ultimately show ?thesis unfolding contains_def by (intro bexI [of _ 2]) (simp_all del: upt_Suc)
qed


definition small_contrib :: "Role \<Rightarrow> string" where
  "small_contrib _ = concat (map (\<lambda>l. l @ NL) [''[Service]'', ''ExecStart=/usr/local/bin/hawse'', ''StateDirectory=hawse'', ''DynamicUser=yes''])"

definition small_account :: Account where "small_account = \<lparr>ac_name = ''svc'', ac_key_dir = ''/k''\<rparr>"

lemma small_contrib_lines: "lines (small_contrib role) = [''[Service]'', ''ExecStart=/usr/local/bin/hawse'', ''StateDirectory=hawse'', ''DynamicUser=yes'']"
  unfolding small_contrib_def by (rule lines_joined) simp

lemma small_paths: "service_text [RootDir, Normal ''my %''] = Inr ''/my %''" "service_text [RootDir, Normal ''c''] = Inr ''/c''"
  "service_text [RootDir, Normal ''k''] = Inr ''/k''"
  by (simp_all add: service_text_def path_text_def bytes_of_text_def is_control_def)


section \<open>The key a unit finds\<close>

text \<open>
  What systemd puts in the environment of a service for \<open>StateDirectory=hawse\<close>, and that it runs as no
  root: systemd.exec(5).
\<close>

definition unit_environment :: "string \<Rightarrow> string option" where
  "unit_environment text = (if ''StateDirectory=hawse'' \<in> set (lines text) then Some STATE else None)"

lemma unit_environment_account:
  assumes "unit_text contrib role exe config acct = Some text" "CHR 0x0D \<notin> set (contrib role)" "one_line exe" "one_line config"
    and "\<And>a. acct = Some a \<Longrightarrow> one_line (ac_name a) \<and> one_line (ac_key_dir a)"
    and "''StateDirectory=hawse'' \<in> set (lines (contrib role))"
  shows "unit_environment text = (if acct = None then Some STATE else None)"
proof -
  have ls: "set (lines text) = insert (head_line role) (\<Union>line \<in> set (lines (contrib role)). set (unit_lines role exe config acct line))"
    by (simp add: unit_text_lines [OF assms(1-5)])
  have head: "head_line role \<noteq> ''StateDirectory=hawse''" by (simp add: head_line_def unit_head_def)
  have "''StateDirectory=hawse'' \<in> set (lines text) \<longleftrightarrow> acct = None"
  proof (cases acct)
    case None
    then have "''StateDirectory=hawse'' \<in> set (unit_lines role exe config acct ''StateDirectory=hawse'')"
      by (simp add: unit_lines_def has_prefix_def)
    then show ?thesis unfolding ls using None assms(6) by blast
  next
    case (Some a)
    have "''StateDirectory=hawse'' \<notin> set (unit_lines role exe config acct line)" for line
      using Some by (auto simp: unit_lines_def has_prefix_def split: if_splits)
    then show ?thesis unfolding ls using Some head by auto
  qed
  then show ?thesis by (simp add: unit_environment_def)
qed

text \<open>
  C31: the service finds the key install told of. The unit that install writes for a config runs, with the
  environment systemd gives it for that unit and as an account that is not root, on the very key that
  install checked, named in the config or not, with an account of its own or a throwaway one.
\<close>

theorem unit_finds_its_key:
  assumes "unit_key fs role located configured user = Inr key"
    and "unit_text contrib role exe config acct = Some text" "acct = None \<longleftrightarrow> user = None"
    and "service_text exe_path = Inr exe" "service_text config_path = Inr config"
    and "\<And>a. acct = Some a \<Longrightarrow> account (ac_name a) = Inr (ac_name a) \<and> valid_utf8 (bytes_of_text (ac_name a)) \<and>
      service_text key_dir = Inr (ac_key_dir a)"
    and "CHR 0x0D \<notin> set (contrib role)" "''StateDirectory=hawse'' \<in> set (lines (contrib role))"
    and "h_env h ''STATE_DIRECTORY'' = unit_environment text" "\<not> is_root h"
  shows "key_path h fs role located configured = key"
proof -
  have acct: "one_line (ac_name a) \<and> one_line (ac_key_dir a)" if "acct = Some a" for a
    using assms(6) [OF that] account_line service_text_line by blast
  have env: "h_env h ''STATE_DIRECTORY'' = (if user = None then Some STATE else None)"
    unfolding assms(9) assms(3) [symmetric]
    by (rule unit_environment_account [OF assms(2,7) _ _ acct assms(8)]) (use service_text_line [OF assms(4)] service_text_line [OF assms(5)] in auto)
  show ?thesis using assms(1,10)
    by (auto simp: unit_key_def key_path_def env Let_def split: option.splits if_splits)
qed

theorem unit_finds_its_key_witness:
  "key_path (small_host\<lparr>h_env := [''STATE_DIRECTORY'' \<mapsto> STATE]\<rparr>) (w_files small_world) RoleClient \<lparr>lc_file = [RootDir, Normal ''c''], lc_dir = [RootDir], lc_exists = True\<rparr> None =
     [RootDir, Normal ''var'', Normal ''lib'', Normal ''hawse'', Normal ''client.key'']"
proof -
  obtain u where t: "unit_text small_contrib RoleClient ''/my %'' ''/c'' None = Some u"
    by (simp add: unit_text_def Let_def small_contrib_lines unit_line_def has_prefix_def)
  have cr: "CHR 0x0D \<notin> set (small_contrib RoleClient)" by (simp add: small_contrib_def NL_def)
  have "unit_environment u = Some STATE"
    using unit_environment_account [OF t cr, of] by (simp add: small_contrib_lines)
  then have env: "h_env (small_host\<lparr>h_env := [''STATE_DIRECTORY'' \<mapsto> STATE]\<rparr>) ''STATE_DIRECTORY'' = unit_environment u" by simp
  have key: "unit_key (w_files small_world) RoleClient \<lparr>lc_file = [RootDir, Normal ''c''], lc_dir = [RootDir], lc_exists = True\<rparr> None None =
      Inr [RootDir, Normal ''var'', Normal ''lib'', Normal ''hawse'', Normal ''client.key'']"
    by (simp add: unit_key_def default_key_def is_file_def stat_def real_path_def small_world_def STATE_def components_def splits_at_def
        component_def join_path_def is_absolute_def starts_with_def Let_def)
  show ?thesis
    by (rule unit_finds_its_key [OF key t _ small_paths(1,2) _ cr _ env])
      (simp_all add: small_contrib_lines is_root_def small_host_def)
qed

section \<open>A file install did not write\<close>

text \<open>The code ends in an error before it has changed anything.\<close>

definition stuck :: "World \<Rightarrow> ('e, 'a) io \<Rightarrow> bool" where
  "stuck w m \<longleftrightarrow> (\<exists>e. m w = (Inl e, w))"

named_theorems still \<open>code that changes nothing\<close>

lemma stuck_first: "stuck w m \<Longrightarrow> stuck w (bind m f)"
  by (auto simp: stuck_def bind_def)

lemma stuck_then: "untouched.keeps m \<Longrightarrow> (\<And>x. m w = (Inr x, w) \<Longrightarrow> stuck w (f x)) \<Longrightarrow> stuck w (bind m f)"
proof -
  assume still: "untouched.keeps m" and rest: "\<And>x. m w = (Inr x, w) \<Longrightarrow> stuck w (f x)"
  obtain r w' where 1: "m w = (r, w')" by fastforce
  then have "w' = w" using untouched.keepsD [OF still 1] by simp
  with 1 rest show ?thesis by (cases r) (auto simp: stuck_def bind_def)
qed

lemma stuck_map_err: "stuck w m \<Longrightarrow> stuck w (map_err g m)"
  by (auto simp: stuck_def map_err_def)

lemma stuck_fail: "stuck w (fail e)"
  by (simp add: stuck_def io_return)

lemmas untouched_rules [still] = untouched.keeps_pure untouched.keeps_bind untouched.keeps_map_err untouched.keeps_attempt
  untouched.keeps_for_each untouched.keeps_reads untouched.keeps_read_to_string

lemma still_lift [still]: "untouched.keeps (lift_result r)"
  by (simp add: lift_result_def untouched.keeps_pure split: sum.split)

lemma still_closed_dirs [still]: "untouched.keeps (closed_dirs h dirs)"
  by (induction dirs) (auto intro!: still)

lemma still_root_only [still]: "untouched.keeps (root_only h exe paths)"
  by (induction paths) (auto intro!: still simp: Let_def split: option.split)

lemma still_only_root_writes [still]: "untouched.keeps (only_root_writes h exe)"
  by (simp add: only_root_writes_def still)

lemma still_closed_to_others [still]: "untouched.keeps (closed_to_others h file)"
  by (auto simp: closed_to_others_def intro!: still)

lemma still_checks [still]: "untouched.keeps (not_hidden h p)" "untouched.keeps (readable_by_others h located)" "untouched.keeps (path_as_text p)"
  by (auto simp: not_hidden_def readable_by_others_def path_as_text_def intro!: still split: option.split)

lemma still_loads [still]: "untouched.keeps (load_server net from_str h user_dir explicit)" "untouched.keeps (load_client net from_str' h user_dir explicit)"
  "untouched.keeps (resolve_located h located)" "untouched.keeps (this_binary mc h)" "untouched.keeps (which_manager mc h)"
  by (auto simp: load_server_def load_client_def locate_io_def read_config_def resolve_located_def this_binary_def which_manager_def Let_def
      intro!: still split: option.split)

lemma installed_foreign:
  assumes "stat (w_files w) file = Some (File b m)" "\<not> is_ours (text_of_bytes b)" "h_fails h (ReadFile file) (w_files w) \<noteq> Some NotFound"
  shows "stuck w (installed h file)"
proof (cases "h_fails h (ReadFile file) (w_files w)")
  case None
  then show ?thesis using assms(1,2)
    by (simp add: stuck_def installed_def attempt_def fs_read_to_string_def fs_read_def allowed_def bind_def get_files_def io_return)
next
  case (Some e)
  with assms(3) have "e \<noteq> NotFound" by simp
  then show ?thesis using Some
    by (cases e) (simp_all add: stuck_def installed_def attempt_def fs_read_to_string_def fs_read_def allowed_def bind_def get_files_def io_return)
qed

lemma stuck_installed: "stuck w (installed h file) \<Longrightarrow> stuck w (bind (reported (installed h file)) f)"
  by (rule stuck_first [OF stuck_map_err])

lemma stuck_if: "(c \<Longrightarrow> stuck w a) \<Longrightarrow> (\<not> c \<Longrightarrow> stuck w b) \<Longrightarrow> stuck w (if c then a else b)"
  by simp

lemma still_if [still]: "untouched.keeps a \<Longrightarrow> untouched.keeps b \<Longrightarrow> untouched.keeps (if c then a else b)"
  by simp

lemma install_unit_stuck:
  "stuck w (installed h (unit_file role)) \<Longrightarrow> stuck w (install_unit encode64 contrib rc h role located configured exe user)"
  unfolding install_unit_def Let_def
  by (assumption | rule stuck_installed stuck_fail stuck_if stuck_then | rule still)+

lemma install_agent_stuck:
  "stuck w (installed h (agent_file home role)) \<Longrightarrow> stuck w (install_agent encode64 rc h (Some home) role located configured exe)"
  unfolding install_agent_def Let_def option.case
  by (assumption | rule stuck_installed stuck_then | rule still)+

definition service_file :: "path \<Rightarrow> Role \<Rightarrow> Manager \<Rightarrow> path" where
  "service_file home role mgr = (case mgr of Systemd \<Rightarrow> unit_file role | Launchd \<Rightarrow> agent_file home role)"

lemma which_manager_file:
  "which_manager mc h w = (Inr mgr, w') \<Longrightarrow> service_file home role mgr = (if mc_os mc = ''linux'' then unit_file role else agent_file home role)"
  by (auto simp: which_manager_def bind_def io_return map_err_def lift_result_pure manager_def service_file_def split: if_splits sum.splits)

lemma bind_ok: "bind (ok x) f = f x"
  by (simp add: fun_eq_iff bind_def io_return)

lemma install_with_stuck:
  assumes "stuck w (installed h (service_file home role mgr))" "mc_home mc = Some home"
  shows "stuck w (install_with encode64 contrib net toml rc mc h role config user mgr)"
proof -
  have "stuck w (case mgr of
       Systemd \<Rightarrow> install_unit encode64 contrib rc h role located (map_option components key) exe user
     | Launchd \<Rightarrow> install_agent encode64 rc h (mc_home mc) role located (map_option components key) exe)" for located key exe
    using assms by (cases mgr) (simp_all add: service_file_def install_unit_stuck install_agent_stuck)
  moreover have "untouched.keeps (case user of None \<Rightarrow> ok () | Some name \<Rightarrow>
      if mgr = Launchd then refuse_with t else bind (reported (lift_result (account name))) (\<lambda>_. ok ()))" for t
    by (auto intro!: still split: option.split)
  moreover have "untouched.keeps (case role of
        RoleServer \<Rightarrow> bind (map_err NotLoaded (load_server net (tm_server toml) h (mc_user_dir mc) config)) (\<lambda>(cfg, located). ok (located, sc_key cfg))
      | RoleClient \<Rightarrow> bind (map_err NotLoaded (load_client net (tm_client toml) h (mc_user_dir mc) config)) (\<lambda>(cfg, located). ok (located, cc_key cfg)))"
    by (auto intro!: still split: Role.split)
  ultimately show ?thesis unfolding install_with_def
    by (auto intro!: stuck_then still)
qed

lemma uninstall_with_stuck:
  assumes "stuck w (installed h (service_file home role mgr))" "mc_home mc = Some home"
  shows "stuck w (uninstall_with mc h role mgr)"
  using assms by (cases mgr) (simp_all add: uninstall_with_def service_at_def service_file_def bind_ok stuck_installed)

text \<open>
  C30: a unit or an agent someone else wrote is neither replaced nor removed. With such a file where the
  service's own would be, and whatever the config, the account and the host: install ends in an
  error with nothing written and no program run, and so does uninstall.
\<close>

theorem foreign_service_left_alone:
  assumes "stat (w_files w) (if mc_os mc = ''linux'' then unit_file role else agent_file home role) = Some (File b m)"
    and "\<not> is_ours (text_of_bytes b)"
    and "\<And>p. h_fails h (ReadFile p) (w_files w) \<noteq> Some NotFound"
    and "mc_home mc = Some home"
  shows "(\<exists>e. install encode64 contrib net toml rc mc h role config user w = (Inl e, w)) \<and>
    (\<exists>e. uninstall mc h role w = (Inl e :: ('net, 'rc) Failure + unit, w))"
proof -
  let ?file = "if mc_os mc = ''linux'' then unit_file role else agent_file home role"
  have there: "stuck w (installed h ?file)" by (rule installed_foreign [OF assms(1,2,3)])
  have "stuck w (install encode64 contrib net toml rc mc h role config user)"
    unfolding install_def
    by (rule stuck_then [OF still_loads(5)], rule install_with_stuck [where home = home]) (use there which_manager_file assms(4) in force)+
  moreover have "stuck w (uninstall mc h role :: (('net, 'rc) Failure, unit) io)"
    unfolding uninstall_def
    by (rule stuck_then [OF still_loads(5)], rule uninstall_with_stuck [where home = home]) (use there which_manager_file assms(4) in force)+
  ultimately show ?thesis by (simp add: stuck_def)
qed

definition linux :: Machine where
  "linux = \<lparr>mc_os = ''linux'', mc_arch = ''x86_64'', mc_current_exe = Inr [RootDir, Normal ''hawse''], mc_user_dir = None, mc_home = Some [RootDir]\<rparr>"

definition foreign_world :: World where
  "foreign_world = small_world\<lparr>w_files := (w_files small_world)(unit_file RoleServer \<mapsto> File (bytes_of_text ''[Unit]'') \<lparr>m_mode = 0x1A4, m_uid = 0, m_gid = 0\<rparr>)\<rparr>"

theorem foreign_service_left_alone_witness: "\<exists>e. uninstall linux small_host RoleServer foreign_world = (Inl e :: (IpAddr, unit) Failure + unit, foreign_world)"
proof -
  have there: "stat (w_files foreign_world) (if mc_os linux = ''linux'' then unit_file RoleServer else agent_file [RootDir] RoleServer) =
      Some (File (bytes_of_text ''[Unit]'') \<lparr>m_mode = 0x1A4, m_uid = 0, m_gid = 0\<rparr>)"
    by (simp add: foreign_world_def linux_def stat_file)
  have "\<not> is_ours (text_of_bytes (bytes_of_text ''[Unit]''))"
    by (simp add: is_ours_def lines_def contains_def MARKER_def upt_rec)
  moreover have "h_fails small_host (ReadFile p) (w_files foreign_world) \<noteq> Some NotFound" for p by (simp add: small_host_def)
  moreover have "mc_home linux = Some [RootDir]" by (simp add: linux_def)
  ultimately show ?thesis
    using foreign_service_left_alone [OF there, of small_host "\<lambda>_. []" small_contrib host_nets small_toml small_rcgen None None] by blast
qed

section \<open>Waiting for launchd\<close>

lemma bootout_wait_None: "bootout_wait n h name target deadline w = None \<Longrightarrow> 0 < n \<Longrightarrow> h_clock h (w_ran w + n) \<le> deadline"
proof (induction n arbitrary: w)
  case (Suc n)
  obtain r w' where 1: "launchctl_ok h ''print'' target w = (r, w')" by fastforce
  then have ran': "w_ran w' = Suc (w_ran w)" by (auto simp: launchctl_ok_def command_output_def split: prod.splits)
  have r: r and late: "h_clock h (w_ran w') \<le> deadline" and rest: "bootout_wait n h name target deadline w' = None"
    using Suc.prems(1) 1 by (auto split: bool.splits if_splits)
  then show ?case using Suc.IH [OF rest] ran' by (cases n) simp_all
qed simp

lemma clock_runs: "(\<And>n. h_clock h n + d \<le> h_clock h (Suc n)) \<Longrightarrow> h_clock h n + k * d \<le> h_clock h (n + k)"
proof (induction k)
  case (Suc k)
  then have "h_clock h n + k * d \<le> h_clock h (n + k)" "h_clock h (n + k) + d \<le> h_clock h (Suc (n + k))" by simp_all
  then show ?case by simp
qed simp

text \<open>
  Waiting for launchd to let go of an agent ends. However long the agent's process takes, with 50 ms
  slept between two looks the loop has ended within 602 of them, with the agent gone or an error.
\<close>

theorem bootout_ends:
  assumes "\<And>n. h_clock h n + 50000000 \<le> h_clock h (Suc n)"
  shows "bootout_wait BOOTOUT_LOOKS h name target (h_clock h (w_ran w) + secs 30) w \<noteq> None"
proof
  assume "bootout_wait BOOTOUT_LOOKS h name target (h_clock h (w_ran w) + secs 30) w = None"
  from bootout_wait_None [OF this] have "h_clock h (w_ran w + 602) \<le> h_clock h (w_ran w) + secs 30" by (simp add: BOOTOUT_LOOKS_def)
  moreover have "h_clock h (w_ran w) + 602 * 50000000 \<le> h_clock h (w_ran w + 602)" by (rule clock_runs [OF assms])
  ultimately show False by simp
qed

section \<open>A config named without a directory\<close>

text \<open>
  A config given by its bare name is located with an empty directory, which \<open>std::path::absolute\<close>
  refuses: such a config is read by every command but installed by none.
\<close>

lemma bare_config_not_installed:
  "resolve_located h (locate fs user_dir as_root role (Some [Normal name])) w = (Inl (Io (OtherError ''cannot make an empty path absolute'')), w)"
  by (simp add: resolve_located_def locate_def parent_def absolute_def bind_def map_err_def lift_result_pure)

end
