(* ===== verification/Upgrade.thy ===== *)
theory Upgrade
  imports Service
begin

text \<open>
  \<open>hawse/src/commands/upgrade.rs\<close>: versions, what an upgrade decides, the release fetched, checked and
  tried in a staging directory, the swap that keeps the old binary, and the whole command. \<open>sha256\<close>
  is aws-lc's, an argument.
\<close>

definition REPO :: string where "REPO = ''https://github.com/andriykohut/hawse''"

section \<open>Versions\<close>

datatype Version = Version u64 u64 u64

definition version_number :: "string \<Rightarrow> u64 option" where
  "version_number part =
     (if part \<noteq> [] \<and> list_all is_digit part then map_option word_of_nat (parse_uint 64 part) else None)"

definition version_from_str :: "string \<Rightarrow> Report + Version" where
  "version_from_str text =
     (case map version_number (splits_at CHR ''.'' (case strip_prefix ''v'' text of Some rest \<Rightarrow> rest | None \<Rightarrow> text)) of
        [Some major, Some minor, Some patch] \<Rightarrow> Inr (Version major minor patch)
      | _ \<Rightarrow> Inl (Bail (''`'' @ text @ ''` is not a release version, such as 0.10.0'')))"

fun version_to_string :: "Version \<Rightarrow> string" where
  "version_to_string (Version major minor patch) =
     show_nat (unat major) @ ''.'' @ show_nat (unat minor) @ ''.'' @ show_nat (unat patch)"

text \<open>The derived order compares the numbers from the first.\<close>

fun version_less :: "Version \<Rightarrow> Version \<Rightarrow> bool" where
  "version_less (Version a b c) (Version a' b' c') \<longleftrightarrow> a < a' \<or> a = a' \<and> (b < b' \<or> b = b' \<and> c < c')"

instantiation Version :: linorder
begin

definition less_Version :: "Version \<Rightarrow> Version \<Rightarrow> bool" where "less_Version = version_less"

definition less_eq_Version :: "Version \<Rightarrow> Version \<Rightarrow> bool" where "less_eq_Version x y \<longleftrightarrow> version_less x y \<or> x = y"

instance
proof
  fix x y z :: Version
  show "x < y \<longleftrightarrow> x \<le> y \<and> \<not> y \<le> x" "x \<le> x" "x \<le> y \<or> y \<le> x"
    by (cases x; cases y; auto simp: less_Version_def less_eq_Version_def)+
  show "x \<le> y \<Longrightarrow> y \<le> z \<Longrightarrow> x \<le> z" by (cases x; cases y; cases z) (auto simp: less_eq_Version_def)
  show "x \<le> y \<Longrightarrow> y \<le> x \<Longrightarrow> x = y" by (cases x; cases y) (auto simp: less_eq_Version_def)
qed

end

definition FLOOR :: Version where "FLOOR = Version 0 10 0"

definition tag :: "string \<Rightarrow> Version option" where
  "tag url = (case version_from_str (last (splits_at CHR ''/'' url)) of Inr v \<Rightarrow> Some v | Inl _ \<Rightarrow> None)"

definition release_target :: "string \<Rightarrow> string \<Rightarrow> string option" where
  "release_target os arch =
     (if os = ''linux'' \<and> arch = ''x86_64'' then Some ''x86_64-unknown-linux-musl''
      else if os = ''linux'' \<and> arch = ''aarch64'' then Some ''aarch64-unknown-linux-musl''
      else if os = ''linux'' \<and> arch = ''arm'' then Some ''armv7-unknown-linux-musleabihf''
      else if os = ''macos'' \<and> arch = ''aarch64'' then Some ''aarch64-apple-darwin''
      else None)"

section \<open>What an upgrade comes to\<close>

datatype Decision = Current | Check Version | Newer Version | Install Version

definition decide :: "Version \<Rightarrow> Version \<Rightarrow> bool \<Rightarrow> bool \<Rightarrow> Report + Decision" where
  "decide running wanted pinned check =
     (if check then Inr (Check wanted)
      else if wanted = running then Inr Current
      else if \<not> pinned \<and> wanted < running then Inr (Newer wanted)
      else if wanted < FLOOR
      then Inl (Bail (''hawse '' @ version_to_string wanted @ '' looks for a key the config does not name beside the config, not where a unit hawse service install wrote keeps it; install a release before '' @ version_to_string FLOOR @ '' by hand''))
      else Inr (Install wanted))"

section \<open>Reading what other programs print\<close>

definition sum_of :: "string \<Rightarrow> string \<Rightarrow> string option" where
  "sum_of text file =
     find_map (\<lambda>line. case strip_suffix file line of Some rest \<Rightarrow> strip_suffix ''  '' rest | None \<Rightarrow> None) (lines text)"

definition hex_byte :: "u8 \<Rightarrow> string" where
  "hex_byte b = [hex_digit (unat b div 16), hex_digit (unat b mod 16)]"

definition hex :: "bytes \<Rightarrow> string" where
  "hex bytes = foldl (\<lambda>hex byte. hex @ hex_byte byte) [] bytes"

definition exec_path :: "string \<Rightarrow> string option" where
  "exec_path show' =
     (case split_text ''path='' show' of
        _ # rest # _ \<Rightarrow> Some (trim (hd (split_text '' ;'' rest)))
      | _ \<Rightarrow> None)"

definition agent_program :: "string \<Rightarrow> string option" where
  "agent_program print = find_map (\<lambda>line. strip_prefix ''program = '' (trim line)) (lines print)"

definition agent_running :: "string \<Rightarrow> bool" where
  "agent_running print = list_ex (\<lambda>line. trim line = ''state = running'') (lines print)"

definition unit_running :: "string \<Rightarrow> bool" where
  "unit_running state \<longleftrightarrow> state \<in> set [''active'', ''reloading'', ''activating'', ''refreshing'']"

definition says :: "string \<Rightarrow> Version \<Rightarrow> bool" where
  "says output version \<longleftrightarrow> trim output = ''hawse '' @ version_to_string version"

definition owner :: "path \<Rightarrow> path option \<Rightarrow> path option \<Rightarrow> string option" where
  "owner exe cargo_home home =
     (let cargo = (case cargo_home of Some c \<Rightarrow> Some c | None \<Rightarrow> map_option (\<lambda>home. in_dir home ''.cargo'') home);
          in_cargo_bin = (case parent exe of Some dir \<Rightarrow> ends_with dir (components ''.cargo/bin'') | None \<Rightarrow> False)
      in if in_cargo_bin \<or> (case cargo of Some cargo \<Rightarrow> starts_with exe (in_dir cargo ''bin'') | None \<Rightarrow> False) then Some ''cargo''
         else if list_ex (\<lambda>dir. starts_with exe (components dir)) [''/opt/homebrew'', ''/usr/local/Cellar'', ''/home/linuxbrew''] then Some ''Homebrew''
         else if starts_with exe (components ''/nix/store'') then Some ''Nix''
         else None)"

section \<open>The binary replaced\<close>

definition run_command :: "Host \<Rightarrow> string \<Rightarrow> string list \<Rightarrow> (Report, unit) io" where
  "run_command h program args =
     (let line = join_with '' '' (program # args)
      in bind (wrap_err (''cannot run '' @ line) (command_output h program args)) (\<lambda>out.
           if o_success out then ok () else bail (line @ '' failed'')))"

text \<open>What a program printed, when it ran and succeeded.\<close>

definition printed_by :: "Host \<Rightarrow> string \<Rightarrow> string list \<Rightarrow> ('e, string option) io" where
  "printed_by h program args =
     bind (attempt (command_output h program args)) (\<lambda>r.
       ok (case r of Inr out \<Rightarrow> if o_success out then Some (from_utf8_lossy (o_stdout out)) else None | Inl _ \<Rightarrow> None))"

definition kept :: "path \<Rightarrow> path" where
  "kept exe = with_file_name exe ((case file_name exe of Some name \<Rightarrow> name | None \<Rightarrow> []) @ ''.old'')"

definition own :: "Host \<Rightarrow> Meta \<Rightarrow> path \<Rightarrow> (Report, unit) io" where
  "own h meta path =
     bind (wrap_err (''cannot set the mode of '' @ path_text path) (fs_set_permissions h path (m_mode meta))) (\<lambda>_.
     if is_root h
     then wrap_err (''cannot set the owner of '' @ path_text path) (fs_chown h path (m_uid meta) (m_gid meta))
     else ok ())"

definition keep_old :: "Host \<Rightarrow> Meta \<Rightarrow> path \<Rightarrow> path \<Rightarrow> (Report, unit) io" where
  "keep_old h meta exe stage =
     (let old = kept exe; staged_old = in_dir stage ''hawse.old''
      in bind (wrap_err (''cannot copy '' @ path_text exe) (fs_copy h exe staged_old)) (\<lambda>_.
         bind (own h meta staged_old) (\<lambda>_.
         wrap_err (''cannot keep '' @ path_text exe @ '' as '' @ path_text old) (fs_rename h staged_old old))))"

definition swap :: "Host \<Rightarrow> path \<Rightarrow> path \<Rightarrow> path \<Rightarrow> (Report, unit) io" where
  "swap h exe new stage =
     bind (wrap_err (''cannot read '' @ path_text exe) (fs_metadata h exe)) (\<lambda>meta.
     bind (keep_old h meta exe stage) (\<lambda>_.
     bind (own h meta new) (\<lambda>_.
     wrap_err (''cannot replace '' @ path_text exe) (fs_rename h new exe))))"

definition read_file :: "Host \<Rightarrow> path \<Rightarrow> (Report, bytes) io" where
  "read_file h path = wrap_err (''cannot read '' @ path_text path) (fs_read h path)"

text \<open>Why a fetched binary does not run here, if it does not; the text of the host's error is the host's.\<close>

definition tried :: "(IoError \<Rightarrow> string) \<Rightarrow> Version \<Rightarrow> IoError + Output \<Rightarrow> string option" where
  "tried io_text version r =
     (case r of
        Inr out \<Rightarrow>
          (if o_success out \<and> says (from_utf8_lossy (o_stdout out)) version then None
           else if o_success out then Some (''it says '' @ trim (from_utf8_lossy (o_stdout out)))
           else Some (''it ended with '' @ o_status out))
      | Inl err \<Rightarrow> Some (io_text err))"

definition release_url :: "string \<Rightarrow> Version \<Rightarrow> string \<Rightarrow> string" where
  "release_url base version file = base @ ''/releases/download/v'' @ version_to_string version @ ''/'' @ file"

text \<open>What happens in the staging directory once it is there: fetch, check, unpack, try, read the units, swap.\<close>

definition fetch :: "Host \<Rightarrow> string \<Rightarrow> Version \<Rightarrow> string \<Rightarrow> path \<Rightarrow> (Report, unit) io" where
  "fetch h base version name stage =
     run_command h ''curl''
       [''-fsSL'', ''--fail-early'',
        ''-o'', path_text (in_dir stage (name @ ''.tar.gz'')), release_url base version (name @ ''.tar.gz''),
        ''-o'', path_text (in_dir stage ''SHA256SUMS''), release_url base version ''SHA256SUMS'']"

definition checked_release :: "(bytes \<Rightarrow> bytes) \<Rightarrow> Host \<Rightarrow> string \<Rightarrow> path \<Rightarrow> (Report, unit) io" where
  "checked_release sha256 h name stage =
     bind (read_file h (in_dir stage (name @ ''.tar.gz''))) (\<lambda>archive.
     bind (read_file h (in_dir stage ''SHA256SUMS'')) (\<lambda>text.
       if sum_of (from_utf8_lossy text) (name @ ''.tar.gz'') \<noteq> Some (hex (sha256 archive))
       then bail (name @ ''.tar.gz does not match the release'' @ [CHR 0x27] @ ''s SHA256SUMS'')
       else ok ()))"

definition unpack :: "Host \<Rightarrow> string \<Rightarrow> path \<Rightarrow> (Report, unit) io" where
  "unpack h name stage =
     run_command h ''tar'' [''-xzf'', path_text (in_dir stage (name @ ''.tar.gz'')), ''-C'', path_text stage]"

definition try_binary :: "(IoError \<Rightarrow> string) \<Rightarrow> Host \<Rightarrow> Version \<Rightarrow> path \<Rightarrow> (Report, unit) io" where
  "try_binary io_text h version new =
     bind (attempt (command_output h (path_text new) [''--version''])) (\<lambda>r.
       case tried io_text version r of
         None \<Rightarrow> ok ()
       | Some why \<Rightarrow> bail (''the '' @ version_to_string version @ '' binary does not run here: '' @ why))"

definition release_unit :: "Host \<Rightarrow> path \<Rightarrow> Role \<Rightarrow> (Report, Role \<times> string) io" where
  "release_unit h unpacked role =
     bind (read_file h (in_dir unpacked (''contrib/hawse-'' @ role_name role @ ''.service''))) (\<lambda>b. ok (role, from_utf8_lossy b))"

definition release_name :: "Version \<Rightarrow> string \<Rightarrow> string" where
  "release_name version target = ''hawse-'' @ version_to_string version @ ''-'' @ target"

definition try_release :: "(bytes \<Rightarrow> bytes) \<Rightarrow> (IoError \<Rightarrow> string) \<Rightarrow> Host \<Rightarrow> string \<Rightarrow> Version \<Rightarrow> string \<Rightarrow> path \<Rightarrow> (Report, (Role \<times> string) list) io" where
  "try_release sha256 io_text h base version name stage =
     bind (fetch h base version name stage) (\<lambda>_.
     bind (checked_release sha256 h name stage) (\<lambda>_.
     bind (unpack h name stage) (\<lambda>_.
     bind (try_binary io_text h version (in_dir (in_dir stage name) ''hawse'')) (\<lambda>_.
     collect (release_unit h (in_dir stage name)) [RoleServer, RoleClient]))))"

definition staged :: "(bytes \<Rightarrow> bytes) \<Rightarrow> (IoError \<Rightarrow> string) \<Rightarrow> Host \<Rightarrow> string \<Rightarrow> Version \<Rightarrow> string \<Rightarrow> path \<Rightarrow> path \<Rightarrow> (Report, (Role \<times> string) list) io" where
  "staged sha256 io_text h base version target exe stage =
     (let name = release_name version target
      in bind (try_release sha256 io_text h base version name stage) (\<lambda>units.
         bind (swap h exe (in_dir (in_dir stage name) ''hawse'') stage) (\<lambda>_.
         ok units)))"

text \<open>\<open>Staging\<close>'s \<open>Drop\<close>: the directory goes however the code ends.\<close>

definition with_staging :: "Host \<Rightarrow> path \<Rightarrow> ('e, 'a) io \<Rightarrow> ('e, 'a) io" where
  "with_staging h stage m w = (case m w of (r, w') \<Rightarrow> (r, snd (fs_remove_dir_all h stage w')))"

definition stage_error :: "path \<Rightarrow> path \<Rightarrow> path \<Rightarrow> IoError \<Rightarrow> Report" where
  "stage_error exe dir staging e =
     (case e of
        PermissionDenied \<Rightarrow> Bail (''cannot write to '' @ path_text dir @ ''; run it with sudo'')
      | AlreadyExists \<Rightarrow>
          Bail (''another upgrade of '' @ path_text exe @ '' is staging in '' @ path_text staging @ ''; if none is running, one was killed, so remove it and run this again'')
      | _ \<Rightarrow> Wrapped (''cannot create '' @ path_text staging) (Io e))"

definition staging_of :: "path \<Rightarrow> path" where
  "staging_of exe = in_dir (case parent exe of Some d \<Rightarrow> d | None \<Rightarrow> components ''/'') ''.hawse-upgrade''"

definition replace_binary :: "(bytes \<Rightarrow> bytes) \<Rightarrow> (IoError \<Rightarrow> string) \<Rightarrow> Host \<Rightarrow> string \<Rightarrow> Version \<Rightarrow> string \<Rightarrow> path \<Rightarrow>
    (Report, (Role \<times> string) list) io" where
  "replace_binary sha256 io_text h base version target exe =
     (let dir = (case parent exe of Some d \<Rightarrow> d | None \<Rightarrow> components ''/''); staging = staging_of exe
      in bind (map_err (stage_error exe dir staging) (fs_create_dir h staging)) (\<lambda>_.
         with_staging h staging (staged sha256 io_text h base version target exe staging)))"

section \<open>The services that run the binary\<close>

datatype ServiceRef = UnitOf Role | AgentOf Role u32

fun service_name :: "ServiceRef \<Rightarrow> string" where
  "service_name (UnitOf role) = ''hawse-'' @ role_name role"
| "service_name (AgentOf role _) = label role"

fun is_unit :: "ServiceRef \<Rightarrow> bool" where
  "is_unit (UnitOf _) = True"
| "is_unit (AgentOf _ _) = False"

record Found =
  fd_service :: ServiceRef
  fd_running :: bool

definition agent_uid :: "Host \<Rightarrow> u32" where
  "agent_uid h =
     (case (if is_root h then Option.bind (h_env h ''SUDO_UID'') (parse_uint 32) else None) of
        Some uid \<Rightarrow> word_of_nat uid
      | None \<Rightarrow> h_uid h)"

definition agent_target :: "u32 \<Rightarrow> Role \<Rightarrow> string" where
  "agent_target uid role = ''gui/'' @ show_nat (unat uid) @ ''/'' @ label role"

definition show_property :: "Host \<Rightarrow> string \<Rightarrow> string \<Rightarrow> ('e, string option) io" where
  "show_property h unit' property = printed_by h ''systemctl'' [''show'', ''-p'', property, ''--value'', unit']"

definition asked :: "Machine \<Rightarrow> Host \<Rightarrow> Role \<Rightarrow> ('e, (ServiceRef \<times> path option \<times> bool) option) io" where
  "asked mc h role =
     bind get_files (\<lambda>fs.
       if is_dir fs SYSTEMD_RUNS
       then
         (let unit' = ''hawse-'' @ role_name role
          in bind (show_property h unit' ''ExecStart'') (\<lambda>exec.
             bind (show_property h unit' ''ActiveState'') (\<lambda>state.
             ok (Some (UnitOf role, map_option components (Option.bind exec exec_path),
                   case state of Some s \<Rightarrow> unit_running (trim s) | None \<Rightarrow> False)))))
       else if mc_os mc = ''macos''
       then
         (let uid = agent_uid h
          in bind (printed_by h ''launchctl'' [''print'', agent_target uid role]) (\<lambda>print.
             ok (Some (AgentOf role uid, map_option components (Option.bind print agent_program),
                   case print of Some p \<Rightarrow> agent_running p | None \<Rightarrow> False))))
       else ok None)"

definition service_of :: "Machine \<Rightarrow> Host \<Rightarrow> path \<Rightarrow> Role \<Rightarrow> ('e, Found list) io" where
  "service_of mc h exe role =
     bind (asked mc h role) (\<lambda>a.
       case a of
         Some (service, Some runs, running) \<Rightarrow>
           bind (attempt (canonicalize h runs)) (\<lambda>r.
             if (case r of Inr p \<Rightarrow> p | Inl _ \<Rightarrow> runs) \<noteq> exe
             then bind (println (service_name service @ '' runs '' @ path_text runs @ '', not this one'')) (\<lambda>_. ok [])
             else
               bind (if running then ok () else println (service_name service @ '' is not running, and is left as it is'')) (\<lambda>_.
               ok [\<lparr>fd_service = service, fd_running = running\<rparr>]))
       | _ \<Rightarrow> ok [])"

definition services :: "Machine \<Rightarrow> Host \<Rightarrow> path \<Rightarrow> ('e, Found list) io" where
  "services mc h exe = bind (collect (service_of mc h exe) [RoleServer, RoleClient]) (\<lambda>found. ok (concat found))"

definition advise :: "Found list \<Rightarrow> (Role \<Rightarrow> bool) \<Rightarrow> Role list" where
  "advise found unlike =
     List.map_filter (\<lambda>f. case fd_service f of UnitOf role \<Rightarrow> if unlike role then Some role else None | AgentOf _ _ \<Rightarrow> None) found"

definition restart :: "Host \<Rightarrow> ServiceRef \<Rightarrow> (Report, unit) io" where
  "restart h service =
     (case service of
        UnitOf role \<Rightarrow> run_command h ''systemctl'' [''restart'', ''hawse-'' @ role_name role]
      | AgentOf role uid \<Rightarrow> run_command h ''launchctl'' [''kickstart'', ''-k'', agent_target uid role])"

definition unit_changed :: "(Role \<Rightarrow> string) \<Rightarrow> Host \<Rightarrow> (Role \<times> string) list \<Rightarrow> Role \<Rightarrow> World \<Rightarrow> bool" where
  "unit_changed contrib h units role w =
     (let ours = (case fst (fs_read_to_string h (unit_file role) w) of Inr text \<Rightarrow> is_ours text | Inl _ \<Rightarrow> False);
          release = map_option snd (find (\<lambda>(r, _). r = role) units)
      in ours \<and> (case release of Some text \<Rightarrow> text \<noteq> contrib role | None \<Rightarrow> False))"

definition upgrade_report :: "Version \<Rightarrow> Version \<Rightarrow> string list \<Rightarrow> string list" where
  "upgrade_report running to restarted =
     [''hawse '' @ version_to_string running @ '' '' @ utf8 0x2192 @ '' '' @ version_to_string to] @
     (if restarted = []
      then [''no hawse-server or hawse-client unit, nor agent, runs this binary, so nothing was restarted; restart whatever runs it to run the new one'']
      else []) @
     map (\<lambda>name. ''restarted '' @ name) restarted"

section \<open>The command\<close>

definition latest :: "Host \<Rightarrow> (Report, Version) io" where
  "latest h =
     (let url = REPO @ ''/releases/latest''
      in bind (printed_by h ''curl'' [''-fsSLI'', ''-o'', ''/dev/null'', ''-w'', ''%{url_effective}'', url]) (\<lambda>out.
           case out of
             None \<Rightarrow> bail (''cannot reach '' @ url)
           | Some landed \<Rightarrow>
               (case tag landed of
                  Some v \<Rightarrow> ok v
                | None \<Rightarrow> bail (url @ '' led to '' @ landed @ '', which names no release''))))"

text \<open>What an upgrade asks before it replaces anything: whose the binary is, who could write it, who has to restart it.\<close>

definition upgrade_checks :: "Machine \<Rightarrow> Host \<Rightarrow> (Report, path \<times> Found list) io" where
  "upgrade_checks mc h =
     bind (this_binary mc h) (\<lambda>exe.
     case owner exe (map_option components (h_env h ''CARGO_HOME'')) (mc_home mc) of
       Some tool \<Rightarrow> bail (path_text exe @ '' was installed by '' @ tool @ ''; upgrade it with '' @ tool)
     | None \<Rightarrow>
         bind (if is_root h then only_root_writes h exe else ok ()) (\<lambda>_.
         bind (services mc h exe) (\<lambda>found.
         case (if is_root h then None else find (\<lambda>f. fd_running f \<and> is_unit (fd_service f)) found) of
           Some f \<Rightarrow> bail (''run it with sudo: '' @ service_name (fd_service f) @ '' runs this binary, and restarting it needs root'')
         | None \<Rightarrow> ok (exe, found))))"

definition running_services :: "Found list \<Rightarrow> ServiceRef list" where
  "running_services found = map fd_service (filter fd_running found)"

definition upgrade_to :: "(bytes \<Rightarrow> bytes) \<Rightarrow> (IoError \<Rightarrow> string) \<Rightarrow> (Role \<Rightarrow> string) \<Rightarrow> Machine \<Rightarrow> Host \<Rightarrow> Version \<Rightarrow> Version \<Rightarrow> string \<Rightarrow> (Report, unit) io" where
  "upgrade_to sha256 io_text contrib mc h running to target =
     bind (upgrade_checks mc h) (\<lambda>(exe, found).
     bind (replace_binary sha256 io_text h REPO to target exe) (\<lambda>units.
     bind (for_each (\<lambda>service. map_err (Wrapped (''the new binary is in place; mv '' @ path_text (kept exe) @ '' '' @ path_text exe @ '' goes back''))
             (restart h service)) (running_services found)) (\<lambda>_.
     bind (for_each println (upgrade_report running to (map service_name (running_services found)))) (\<lambda>_.
     \<lambda>w. for_each (\<lambda>role. println (''hawse '' @ version_to_string to @ '' ships another hawse-'' @ role_name role @ ''.service than '' @ version_to_string running @
             ''; `sudo hawse service install '' @ role_name role @ ''` again, with the --config and --user it was installed with, rewrites it''))
           (advise found (\<lambda>role. unit_changed contrib h units role w)) w))))"

definition upgrade_run :: "(bytes \<Rightarrow> bytes) \<Rightarrow> (IoError \<Rightarrow> string) \<Rightarrow> (Role \<Rightarrow> string) \<Rightarrow> Machine \<Rightarrow> Host \<Rightarrow> string \<Rightarrow> string option \<Rightarrow> bool \<Rightarrow> (Report, unit) io" where
  "upgrade_run sha256 io_text contrib mc h current version check =
     (case release_target (mc_os mc) (mc_arch mc) of
        None \<Rightarrow> bail ''no release binary for this system; try: cargo install --locked hawse''
      | Some target \<Rightarrow>
          bind (case version of Some v \<Rightarrow> lift_result (version_from_str v) | None \<Rightarrow> latest h) (\<lambda>wanted.
          bind (lift_result (version_from_str current)) (\<lambda>running.
          bind (lift_result (decide running wanted (version \<noteq> None) check)) (\<lambda>decision.
          case decision of
            Current \<Rightarrow> println (''hawse '' @ version_to_string running @ '' is the one running'')
          | Newer l \<Rightarrow> println (''hawse '' @ version_to_string running @ '' is running, newer than the latest, '' @ version_to_string l)
          | Check l \<Rightarrow>
              (if l = running then println (''hawse '' @ version_to_string running @ '' is running, the latest'')
               else println (''hawse '' @ version_to_string running @ '' is running; '' @ version_to_string l @ '' is the latest''))
          | Install to \<Rightarrow> upgrade_to sha256 io_text contrib mc h running to target))))"

section \<open>The swap\<close>

text \<open>The permission bits and, for root, the owner of a file are those of another.\<close>

definition owned_as :: "Host \<Rightarrow> Meta \<Rightarrow> Meta \<Rightarrow> bool" where
  "owned_as h meta m \<longleftrightarrow> and (m_mode m) 0x1FF = and (m_mode meta) 0x1FF \<and> (is_root h \<longrightarrow> m_uid m = m_uid meta \<and> m_gid m = m_gid meta)"

lemma files_same: "w_files w p = Some n \<Longrightarrow> w\<lparr>w_files := (w_files w)(p \<mapsto> n)\<rparr> = w"
  by (simp add: fun_upd_idem)

lemma fs_set_permissions_eval: "w_files w p = Some (File b m) \<Longrightarrow> fs_set_permissions h p mode w =
  (case h_fails h (SetMode p) (w_files w) of
     Some e \<Rightarrow> (Inl e, w)
   | None \<Rightarrow> (Inr (), w\<lparr>w_files := (w_files w)(p \<mapsto> File b (m\<lparr>m_mode := mode\<rparr>))\<rparr>))"
  by (simp add: fs_set_permissions_def allowed_def bind_get_files io_return real_path_file split: option.split)

lemma fs_chown_eval: "w_files w p = Some (File b m) \<Longrightarrow> fs_chown h p uid gid w =
  (case h_fails h (Chown p) (w_files w) of
     Some e \<Rightarrow> (Inl e, w)
   | None \<Rightarrow> (Inr (), w\<lparr>w_files := (w_files w)(p \<mapsto> File b \<lparr>m_mode = and (m_mode m) (not 0xC00), m_uid = uid, m_gid = gid\<rparr>)\<rparr>))"
  by (simp add: fs_chown_def allowed_def bind_get_files io_return real_path_file split: option.split)

lemma mask_bits: "and (and mode (not 0xC00)) 0x1FF = and mode (0x1FF :: u32)"
proof -
  have "and (and mode (not 0xC00)) 0x1FF = and mode (and (not 0xC00) (0x1FF :: u32))" by (simp only: ac_simps)
  also have "and (not 0xC00) (0x1FF :: u32) = 0x1FF" by simp
  finally show ?thesis .
qed

lemma own_outcome:
  assumes "own h meta p w = (r, w')" "w_files w p = Some (File b m)"
  shows "\<exists>m1. w' = w\<lparr>w_files := (w_files w)(p \<mapsto> File b m1)\<rparr> \<and> (r = Inr () \<longrightarrow> owned_as h meta m1)"
proof (cases "h_fails h (SetMode p) (w_files w)")
  case (Some e)
  then show ?thesis using assms by (intro exI [of _ m]) (auto simp: own_def bind_def map_err_def fs_set_permissions_eval files_same)
next
  case None
  define w1 where "w1 = w\<lparr>w_files := (w_files w)(p \<mapsto> File b (m\<lparr>m_mode := m_mode meta\<rparr>))\<rparr>"
  have at: "w_files w1 p = Some (File b (m\<lparr>m_mode := m_mode meta\<rparr>))" by (simp add: w1_def)
  have go: "(if is_root h then map_err (\<lambda>e. Wrapped (''cannot set the owner of '' @ path_text p) (Io e)) (fs_chown h p (m_uid meta) (m_gid meta)) w1 else (Inr (), w1)) = (r, w')"
    using assms None by (auto simp: own_def bind_def map_err_def fs_set_permissions_eval [OF assms(2)] io_return w1_def split: if_splits)
  show ?thesis
  proof (cases "is_root h")
    case False
    then show ?thesis using go by (intro exI [of _ "m\<lparr>m_mode := m_mode meta\<rparr>"]) (auto simp: owned_as_def w1_def)
  next
    case True
    show ?thesis
    proof (cases "h_fails h (Chown p) (w_files w1)")
      case (Some e)
      then have "w' = w1" "r \<noteq> Inr ()" using go True by (auto simp: map_err_def fs_chown_eval [OF at])
      then show ?thesis by (intro exI [of _ "m\<lparr>m_mode := m_mode meta\<rparr>"]) (simp add: w1_def)
    next
      case None
      then have "w' = w1\<lparr>w_files := (w_files w1)(p \<mapsto> File b \<lparr>m_mode = and (m_mode meta) (not 0xC00), m_uid = m_uid meta, m_gid = m_gid meta\<rparr>)\<rparr>"
        using go True by (auto simp: map_err_def fs_chown_eval [OF at])
      moreover have "owned_as h meta \<lparr>m_mode = and (m_mode meta) (not 0xC00), m_uid = m_uid meta, m_gid = m_gid meta\<rparr>"
        using mask_bits [of "m_mode meta"] by (simp add: owned_as_def)
      ultimately show ?thesis by (intro exI conjI impI) (simp_all add: w1_def)
    qed
  qed
qed

lemma fs_rename_outcome:
  assumes "fs_rename h from to w = (r, w')"
  shows "(\<exists>e. r = Inl e) \<and> w' = w \<or>
    r = Inr () \<and> (\<exists>n. w_files w from = Some n \<and> (\<forall>m. n \<noteq> Directory m) \<and> w' = w\<lparr>w_files := ((w_files w)(from := None))(to \<mapsto> n)\<rparr>)"
  using assms unfolding fs_rename_def allowed_def bind_get_files
  by (auto simp: io_return split: option.splits Node.splits)

lemma written_outcome:
  assumes "\<And>l. fs to \<noteq> Some (Symlink l)"
  shows "(\<exists>e. written h mode to b fs = Inl e) \<or> (\<exists>m0. written h mode to b fs = Inr (to, fs(to \<mapsto> File b m0)))"
proof (cases "fs to")
  case (Some n)
  then show ?thesis using assms by (cases n) (auto simp: written_def real_path_file)
qed (auto simp: written_def)

lemma fs_copy_outcome:
  assumes "fs_copy h from to w = (r, w')" "w_files w from = Some (File b m)" "\<And>l. w_files w to \<noteq> Some (Symlink l)"
  shows "(\<exists>e. r = Inl e) \<and> w' = w \<or> r = Inr () \<and> (\<exists>m1. w' = w\<lparr>w_files := (w_files w)(to \<mapsto> File b m1)\<rparr>)"
  using written_outcome [of "w_files w" to h "0x1B6" b] assms unfolding fs_copy_def allowed_def bind_get_files
  by (auto simp: stat_file io_return split: option.splits)

abbreviation staged_old :: "path \<Rightarrow> path" where "staged_old stage \<equiv> in_dir stage ''hawse.old''"

lemma keep_old_outcome:
  assumes "keep_old h meta exe stage w = (r, w')" "w_files w exe = Some (File old m)" "\<And>l. w_files w (staged_old stage) \<noteq> Some (Symlink l)"
    and "staged_old stage \<noteq> kept exe"
  shows "outside {staged_old stage, kept exe} (w_files w) (w_files w')"
    and "r \<noteq> Inr () \<Longrightarrow> w_files w' (kept exe) = w_files w (kept exe)"
    and "r = Inr () \<Longrightarrow> \<exists>m1. w_files w' (kept exe) = Some (File old m1) \<and> owned_as h meta m1"
proof -
  let ?so = "staged_old stage"
  obtain r1 w1 where 1: "fs_copy h exe ?so w = (r1, w1)" by fastforce
  have "outside {?so, kept exe} (w_files w) (w_files w') \<and> (r \<noteq> Inr () \<longrightarrow> w_files w' (kept exe) = w_files w (kept exe)) \<and>
    (r = Inr () \<longrightarrow> (\<exists>m1. w_files w' (kept exe) = Some (File old m1) \<and> owned_as h meta m1))"
    using fs_copy_outcome [OF 1 assms(2,3)]
  proof (elim disjE conjE exE)
    fix e
    assume "r1 = Inl e" "w1 = w"
    then have "w' = w" "r \<noteq> Inr ()" using assms(1) 1 by (auto simp: keep_old_def bind_def map_err_def Let_def)
    then show ?thesis by (simp add: outside.refl)
  next
    fix m1
    assume r1: "r1 = Inr ()" and w1: "w1 = w\<lparr>w_files := (w_files w)(?so \<mapsto> File old m1)\<rparr>"
    obtain r2 w2 where 2: "own h meta ?so w1 = (r2, w2)" by fastforce
    have "w_files w1 ?so = Some (File old m1)" by (simp add: w1)
    from own_outcome [OF 2 this] obtain m2 where w2: "w2 = w1\<lparr>w_files := (w_files w1)(?so \<mapsto> File old m2)\<rparr>" and m2: "r2 = Inr () \<Longrightarrow> owned_as h meta m2"
      by blast
    show ?thesis
    proof (cases r2)
      case (Inl e)
      then have "w' = w2" "r \<noteq> Inr ()" using assms(1) 1 r1 2 by (auto simp: keep_old_def bind_def map_err_def Let_def)
      then show ?thesis using assms(4) by (auto simp: w2 w1 outside_def)
    next
      case (Inr u)
      obtain r3 w3 where 3: "fs_rename h ?so (kept exe) w2 = (r3, w3)" by fastforce
      have go: "w' = w3" "r = Inr () \<longleftrightarrow> r3 = Inr ()"
        using assms(1) 1 r1 2 Inr 3 by (cases r3; auto simp: keep_old_def bind_def map_err_def Let_def)+
      show ?thesis using fs_rename_outcome [OF 3] go m2 Inr assms(4) by (auto simp: w2 w1 outside_def)
    qed
  qed
  then show "outside {?so, kept exe} (w_files w) (w_files w')" "r \<noteq> Inr () \<Longrightarrow> w_files w' (kept exe) = w_files w (kept exe)"
    "r = Inr () \<Longrightarrow> \<exists>m1. w_files w' (kept exe) = Some (File old m1) \<and> owned_as h meta m1"
    by simp_all
qed

text \<open>What is owned and is no link is changed in place; what is not there is not owned.\<close>

lemma own_outside:
  assumes "own h meta p w = (r, w')" "\<And>l. w_files w p \<noteq> Some (Symlink l)"
  shows "outside {p} (w_files w) (w_files w')"
    and "r = Inr () \<Longrightarrow> w_files w' p = Some (File b m1) \<Longrightarrow> (\<exists>m. w_files w p = Some (File b m)) \<and> owned_as h meta m1"
    and "r = Inr () \<Longrightarrow> w_files w' p \<noteq> Some (Symlink l)"
proof -
  have "outside {p} (w_files w) (w_files w') \<and> (r = Inr () \<longrightarrow> w_files w' p = Some (File b m1) \<longrightarrow> (\<exists>m. w_files w p = Some (File b m)) \<and> owned_as h meta m1) \<and>
    (r = Inr () \<longrightarrow> w_files w' p \<noteq> Some (Symlink l))"
  proof (cases "w_files w p")
    case None
    then have "r \<noteq> Inr ()" "w' = w" using assms(1)
      by (auto simp: own_def bind_def map_err_def fs_set_permissions_def allowed_def get_files_def io_return real_path_def split: option.splits)
    then show ?thesis by (simp add: outside.refl)
  next
    case (Some n)
    show ?thesis
    proof (cases n)
      case (File b' m')
      from own_outcome [OF assms(1) Some [unfolded File]] show ?thesis using Some File by (auto simp: outside_def)
    next
      case (Directory m')
      then show ?thesis using assms(1) Some
        by (auto simp: own_def bind_def map_err_def fs_set_permissions_def fs_chown_def allowed_def get_files_def io_return real_path_file outside_def
            split: option.splits if_splits)
    qed (use assms(2) Some in blast)
  qed
  then show "outside {p} (w_files w) (w_files w')" "r = Inr () \<Longrightarrow> w_files w' p = Some (File b m1) \<Longrightarrow> (\<exists>m. w_files w p = Some (File b m)) \<and> owned_as h meta m1"
    "r = Inr () \<Longrightarrow> w_files w' p \<noteq> Some (Symlink l)"
    by simp_all
qed

lemma put_new_outcome:
  assumes "bind (own h meta new) (\<lambda>_. wrap_err t (fs_rename h new exe)) w = (r, w')" "\<And>l. w_files w new \<noteq> Some (Symlink l)" "new \<noteq> exe"
  shows "outside {new, exe} (w_files w) (w_files w') \<and> (r \<noteq> Inr () \<longrightarrow> w_files w' exe = w_files w exe) \<and>
    (r = Inr () \<longrightarrow> (\<exists>b m m1. w_files w new = Some (File b m) \<and> w_files w' exe = Some (File b m1) \<and> owned_as h meta m1))"
proof -
  obtain r2 w2 where 2: "own h meta new w = (r2, w2)" by fastforce
  note own2 = own_outside [OF 2 assms(2)]
  have same: "w_files w2 exe = w_files w exe" using own2(1) assms(3) by (auto simp: outside_def)
  show ?thesis
  proof (cases r2)
    case (Inl e)
    then have "w' = w2" "r \<noteq> Inr ()" using assms(1) 2 by (auto simp: bind_def)
    then show ?thesis using own2(1) same by (auto simp: outside_def)
  next
    case (Inr u)
    obtain r3 w3 where 3: "fs_rename h new exe w2 = (r3, w3)" by fastforce
    have go: "w' = w3" "r = Inr () \<longleftrightarrow> r3 = Inr ()" using assms(1) 2 Inr 3 by (cases r3; auto simp: bind_def map_err_def)+
    from fs_rename_outcome [OF 3] show ?thesis
    proof (elim disjE conjE exE)
      fix e
      assume "r3 = Inl e" "w3 = w2"
      then show ?thesis using go own2(1) same by (auto simp: outside_def)
    next
      fix n
      assume n: "w_files w2 new = Some n" "\<forall>m. n \<noteq> Directory m" "w3 = w2\<lparr>w_files := ((w_files w2)(new := None))(exe \<mapsto> n)\<rparr>" and ok: "r3 = Inr ()"
      then obtain b m1 where b: "n = File b m1" using own2(3) Inr by (cases n) auto
      have "(\<exists>m. w_files w new = Some (File b m)) \<and> owned_as h meta m1" using own2(2) Inr n(1) b by auto
      then show ?thesis using go ok own2(1) n(3) b assms(3) by (auto simp: outside_def)
    qed
  qed
qed

text \<open>A swap that fails leaves the binary as it is; one that succeeds has replaced it and kept the old one.\<close>

definition swapped :: "Host \<Rightarrow> path \<Rightarrow> bytes \<Rightarrow> Meta \<Rightarrow> bytes \<Rightarrow> files \<Rightarrow> bool" where
  "swapped h exe old meta new fs \<longleftrightarrow>
     (\<exists>m1 m2. fs exe = Some (File new m1) \<and> owned_as h meta m1 \<and> fs (kept exe) = Some (File old m2) \<and> owned_as h meta m2)"

definition unswapped :: "Host \<Rightarrow> path \<Rightarrow> bytes \<Rightarrow> Meta \<Rightarrow> files \<Rightarrow> files \<Rightarrow> bool" where
  "unswapped h exe old meta fs fs' \<longleftrightarrow>
     fs' exe = fs exe \<and> (fs' (kept exe) = fs (kept exe) \<or> (\<exists>m. fs' (kept exe) = Some (File old m) \<and> owned_as h meta m))"

lemma swap_outcome:
  assumes "swap h exe new stage w = (r, w')" "w_files w exe = Some (File old meta)"
    and "\<And>p l. p \<in> {new, staged_old stage} \<Longrightarrow> w_files w p \<noteq> Some (Symlink l)"
    and "distinct [exe, kept exe, new, staged_old stage]"
  shows "outside {exe, kept exe, new, staged_old stage} (w_files w) (w_files w') \<and>
    (if r = Inr () then \<exists>b m. w_files w new = Some (File b m) \<and> swapped h exe old meta b (w_files w')
     else unswapped h exe old meta (w_files w) (w_files w'))"
proof (cases "h_fails h (Metadata exe) (w_files w)")
  case (Some e)
  then have "w' = w" "r \<noteq> Inr ()" using assms(1)
    by (auto simp: swap_def bind_def map_err_def fs_metadata_def allowed_def)
  then show ?thesis by (simp add: outside.refl unswapped_def)
next
  case None
  then have meta: "fs_metadata h exe w = (Inr meta, w)"
    by (simp add: fs_metadata_def allowed_def bind_get_files stat_file [of "w_files w" exe, OF assms(2)] io_return)
  obtain r1 w1 where 1: "keep_old h meta exe stage w = (r1, w1)" by fastforce
  have so: "staged_old stage \<noteq> kept exe" and nl: "\<And>l. w_files w (staged_old stage) \<noteq> Some (Symlink l)" using assms(3,4) by auto
  note keep = keep_old_outcome [OF 1 assms(2) nl so]
  show ?thesis
  proof (cases r1)
    case (Inl e)
    then have "w' = w1" "r \<noteq> Inr ()" using assms(1) meta 1 by (auto simp: swap_def bind_def map_err_def)
    then show ?thesis using keep(1,2) Inl assms(4) by (auto simp: outside_def unswapped_def)
  next
    case (Inr u)
    then have go: "bind (own h meta new) (\<lambda>_. wrap_err (''cannot replace '' @ path_text exe) (fs_rename h new exe)) w1 = (r, w')"
      using assms(1) meta 1 by (simp add: swap_def bind_def map_err_def)
    have same: "w_files w1 new = w_files w new" "w_files w1 exe = w_files w exe" using keep(1) assms(4) by (auto simp: outside_def)
    obtain mk where mk: "w_files w1 (kept exe) = Some (File old mk)" "owned_as h meta mk" using keep(3) Inr by auto
    have put: "outside {new, exe} (w_files w1) (w_files w') \<and> (r \<noteq> Inr () \<longrightarrow> w_files w' exe = w_files w1 exe) \<and>
        (r = Inr () \<longrightarrow> (\<exists>b m m1. w_files w1 new = Some (File b m) \<and> w_files w' exe = Some (File b m1) \<and> owned_as h meta m1))"
      by (rule put_new_outcome [OF go]) (use assms(3,4) same(1) in auto)
    then have k: "w_files w' (kept exe) = Some (File old mk)" using mk(1) assms(4) by (auto simp: outside_def)
    have out: "outside {exe, kept exe, new, staged_old stage} (w_files w) (w_files w')" using keep(1) put by (auto simp: outside_def)
    show ?thesis
    proof (cases "r = Inr ()")
      case True
      with put same obtain b m m1 where "w_files w new = Some (File b m)" "w_files w' exe = Some (File b m1)" "owned_as h meta m1" by auto
      then show ?thesis using True out k mk(2) by (auto simp: swapped_def)
    next
      case False
      then show ?thesis using out k mk(2) put same by (auto simp: unswapped_def)
    qed
  qed
qed

section \<open>The whole replacement\<close>

definition no_links :: "path \<Rightarrow> files \<Rightarrow> bool" where
  "no_links stage fs \<longleftrightarrow> (\<forall>p l. prefix stage p \<longrightarrow> fs p \<noteq> Some (Symlink l))"

text \<open>Only what is in the staging directory changes, and no link is put there.\<close>

definition inside :: "path \<Rightarrow> files \<Rightarrow> files \<Rightarrow> bool" where
  "inside stage fs fs' \<longleftrightarrow> outside {p. prefix stage p} fs fs' \<and> (no_links stage fs \<longrightarrow> no_links stage fs')"

interpretation inside: quiet_frame "\<lambda>w w'. inside stage (w_files w) (w_files w')" for stage
  by unfold_locales (auto simp: inside_def outside_def)

text \<open>What is relied on of a program: it writes only in the staging directory, and no links.\<close>

definition tame :: "Host \<Rightarrow> path \<Rightarrow> string \<Rightarrow> bool" where
  "tame h stage program \<longleftrightarrow> (\<forall>n args fs. inside stage fs (snd (h_exec h n program args fs)))"

lemma inside_exec: "tame h stage program \<Longrightarrow> inside.keeps stage (command_output h program args)"
proof (rule inside.keeps_exec)
  fix r fs w
  assume t: "tame h stage program" and "h_exec h (w_ran w) program args (w_files w) = (r, fs)"
  then have "snd (h_exec h (w_ran w) program args (w_files w)) = fs" by simp
  with t have "inside stage (w_files w) fs" unfolding tame_def by metis
  then show "inside stage (w_files w) (w_files (w\<lparr>w_files := fs, w_ran := Suc (w_ran w)\<rparr>))" by simp
qed

lemma inside_run: "tame h stage program \<Longrightarrow> inside.keeps stage (run_command h program args)"
  unfolding run_command_def Let_def
  by (intro inside.keeps_bind inside.keeps_map_err inside_exec) (simp_all add: inside.keeps_pure)

lemma inside_try_release:
  assumes "tame h stage ''curl''" "tame h stage ''tar''" "tame h stage (path_text (in_dir (in_dir stage name) ''hawse''))"
  shows "inside.keeps stage (try_release sha256 io_text h base version name stage)"
  unfolding try_release_def fetch_def checked_release_def unpack_def try_binary_def release_unit_def read_file_def
  by (intro inside.keeps_bind inside_run assms inside.keeps_map_err inside.keeps_reads inside.keeps_attempt inside_exec inside.keeps_collect)
    (auto simp: inside.keeps_pure split: option.split)

text \<open>
  A binary is the release's: an archive whose checksum is the one the release's list gives was unpacked, the
  binary was in it, and run with \<open>--version\<close> it named the release.
\<close>

definition genuine :: "(bytes \<Rightarrow> bytes) \<Rightarrow> Host \<Rightarrow> Version \<Rightarrow> string \<Rightarrow> path \<Rightarrow> bytes \<Rightarrow> bool" where
  "genuine sha256 h version name stage b \<longleftrightarrow>
     (\<exists>n n' fs1 fs2 archive am text tm m out out'.
        stat fs1 (in_dir stage (name @ ''.tar.gz'')) = Some (File archive am) \<and>
        stat fs1 (in_dir stage ''SHA256SUMS'') = Some (File text tm) \<and>
        sum_of (from_utf8_lossy text) (name @ ''.tar.gz'') = Some (hex (sha256 archive)) \<and>
        h_exec h n ''tar'' [''-xzf'', path_text (in_dir stage (name @ ''.tar.gz'')), ''-C'', path_text stage] fs1 = (Inr out, fs2) \<and> o_success out \<and>
        fs2 (in_dir (in_dir stage name) ''hawse'') = Some (File b m) \<and>
        fst (h_exec h n' (path_text (in_dir (in_dir stage name) ''hawse'')) [''--version''] fs2) = Inr out' \<and> o_success out' \<and>
        says (from_utf8_lossy (o_stdout out')) version)"

lemma read_file_Inr: "read_file h p w = (Inr b, w') \<longleftrightarrow> w' = w \<and> h_fails h (ReadFile p) (w_files w) = None \<and> (\<exists>m. stat (w_files w) p = Some (File b m))"
  unfolding read_file_def map_err_Inr fs_read_def allowed_Inr bind_get_files
  by (auto simp: io_return split: option.splits Node.splits)

lemma run_command_Inr: "run_command h program args w = (Inr (), w') \<longleftrightarrow>
  (\<exists>out fs. h_exec h (w_ran w) program args (w_files w) = (Inr out, fs) \<and> o_success out \<and> w' = w\<lparr>w_files := fs, w_ran := Suc (w_ran w)\<rparr>)"
  unfolding run_command_def Let_def bind_Inr map_err_Inr command_output_def
  by (auto simp: io_return split: prod.splits)

lemma release_units_same: "collect (release_unit h dir) rs w = (Inr units, w') \<Longrightarrow> w' = w"
proof (induction rs arbitrary: units w)
  case (Cons role rs)
  then show ?case by (auto simp: bind_Inr release_unit_def read_file_Inr io_return)
qed (simp add: io_return)

lemma try_release_genuine:
  assumes "try_release sha256 io_text h base version name stage w = (Inr units, w')"
    and "w_files w' (in_dir (in_dir stage name) ''hawse'') = Some (File b m)"
    and "\<And>n fs. snd (h_exec h n (path_text (in_dir (in_dir stage name) ''hawse'')) [''--version''] fs) = fs"
  shows "genuine sha256 h version name stage b"
proof -
  let ?new = "in_dir (in_dir stage name) ''hawse''"
  obtain w1 w2 w3 w4 where 1: "checked_release sha256 h name stage w1 = (Inr (), w2)" and 2: "unpack h name stage w2 = (Inr (), w3)"
    and 3: "try_binary io_text h version ?new w3 = (Inr (), w4)" and 4: "collect (release_unit h (in_dir stage name)) [RoleServer, RoleClient] w4 = (Inr units, w')"
    using assms(1) unfolding try_release_def bind_Inr by auto
  from 1 obtain archive am listed tm where c: "w2 = w1" "stat (w_files w1) (in_dir stage (name @ ''.tar.gz'')) = Some (File archive am)"
    "stat (w_files w1) (in_dir stage ''SHA256SUMS'') = Some (File listed tm)" "sum_of (from_utf8_lossy listed) (name @ ''.tar.gz'') = Some (hex (sha256 archive))"
    unfolding checked_release_def bind_Inr read_file_Inr by (auto simp: io_return split: if_splits)
  from 2 obtain out fs2 where t: "h_exec h (w_ran w2) ''tar'' [''-xzf'', path_text (in_dir stage (name @ ''.tar.gz'')), ''-C'', path_text stage] (w_files w2) = (Inr out, fs2)"
    "o_success out" "w_files w3 = fs2"
    unfolding unpack_def run_command_Inr by auto
  obtain r5 fs5 where 5: "h_exec h (w_ran w3) (path_text ?new) [''--version''] (w_files w3) = (r5, fs5)" by fastforce
  then have same: "fs5 = w_files w3" using assms(3) [of "w_ran w3" "w_files w3"] by simp
  have "w_files w4 = w_files w3" "tried io_text version r5 = None"
    using 3 5 same by (auto simp: try_binary_def bind_def attempt_def command_output_def io_return split: option.splits)
  moreover from this(2) obtain out' where "r5 = Inr out'" "o_success out'" "says (from_utf8_lossy (o_stdout out')) version"
    by (auto simp: tried_def split: sum.splits if_splits)
  moreover have "w' = w4" by (rule release_units_same [OF 4])
  ultimately show ?thesis unfolding genuine_def using c t 5 assms(2) by (metis fst_conv)
qed

lemma in_dir_relative: "s \<noteq> [] \<Longrightarrow> hd s \<noteq> CHR ''/'' \<Longrightarrow> p \<noteq> [] \<Longrightarrow> \<exists>q. in_dir p s = p @ q"
proof -
  assume s: "s \<noteq> []" "hd s \<noteq> CHR ''/''" and p: "p \<noteq> []"
  have "component c \<noteq> RootDir" for c by (simp add: component_def)
  then have "\<not> is_absolute (components s)" using s by (auto simp: is_absolute_def components_def Let_def split: list.splits)
  then show ?thesis using p by (auto simp: join_path_def)
qed

lemma in_dir_one: "c \<notin> {[], ''.'', ''..''} \<Longrightarrow> CHR ''/'' \<notin> set c \<Longrightarrow> p \<noteq> [] \<Longrightarrow> in_dir p c = p @ [Normal c]"
proof -
  assume c: "c \<notin> {[], ''.'', ''..''}" "CHR ''/'' \<notin> set c" and p: "p \<noteq> []"
  have "split_once CHR ''/'' c = None" using c(2) by (simp add: text_simps)
  then have "splits_at CHR ''/'' c = [c]" by (subst splits_at_once) simp
  moreover have "hd c \<noteq> CHR ''/''" using c by (cases c) auto
  ultimately have "components c = [Normal c]" using c(1) by (simp add: components_def component_def)
  then show ?thesis using p by (simp add: join_path_def is_absolute_def)
qed

text \<open>Where an upgrade of a binary in a directory works.\<close>

lemma upgrade_paths:
  assumes "exe = dir @ [Normal file]" "dir \<noteq> []" "exe \<noteq> staging_of exe" "name = release_name version target"
  shows "staging_of exe = dir @ [Normal ''.hawse-upgrade'']" "\<not> prefix (staging_of exe) exe" "\<not> prefix (staging_of exe) (kept exe)"
    "prefix (staging_of exe) (in_dir (in_dir (staging_of exe) name) ''hawse'')" "prefix (staging_of exe) (staged_old (staging_of exe))"
    "distinct [exe, kept exe, in_dir (in_dir (staging_of exe) name) ''hawse'', staged_old (staging_of exe)]"
proof -
  have parent: "parent exe = Some dir" by (simp add: assms(1) parent_def)
  show stage: "staging_of exe = dir @ [Normal ''.hawse-upgrade'']"
    unfolding staging_of_def parent option.case by (rule in_dir_one) (use assms(2) in simp_all)
  have kept: "kept exe = dir @ [Normal (file @ ''.old'')]" by (simp add: kept_def with_file_name_def file_name_def assms(1))
  have "hd name = CHR ''h''" "name \<noteq> []" by (simp_all add: assms(4) release_name_def)
  then obtain q where q: "in_dir (staging_of exe) name = staging_of exe @ q" using in_dir_relative [of name "staging_of exe"] by (auto simp: stage)
  have new: "in_dir (in_dir (staging_of exe) name) ''hawse'' = staging_of exe @ q @ [Normal ''hawse'']"
    unfolding q by (subst in_dir_one) (simp_all add: stage)
  have old: "staged_old (staging_of exe) = staging_of exe @ [Normal ''hawse.old'']" by (rule in_dir_one) (simp_all add: stage)
  have ne: "file @ ''.old'' \<noteq> ''.hawse-upgrade''"
  proof
    assume "file @ ''.old'' = ''.hawse-upgrade''"
    then have "last (file @ ''.old'') = last ''.hawse-upgrade''" by (rule arg_cong)
    then show False by simp
  qed
  have "file \<noteq> ''.hawse-upgrade''" using assms(1,3) stage by auto
  then show "\<not> prefix (staging_of exe) exe" unfolding stage by (auto simp: assms(1) prefix_def)
  show "\<not> prefix (staging_of exe) (kept exe)" using ne by (auto simp: stage kept prefix_def)
  show "prefix (staging_of exe) (in_dir (in_dir (staging_of exe) name) ''hawse'')" "prefix (staging_of exe) (staged_old (staging_of exe))"
    by (simp_all add: new old)
  show "distinct [exe, kept exe, in_dir (in_dir (staging_of exe) name) ''hawse'', staged_old (staging_of exe)]"
    unfolding new old kept unfolding stage by (auto simp: assms(1) append_eq_append_conv2 append_eq_Cons_conv Cons_eq_append_conv)
qed

lemma staged_outcome:
  assumes "staged sha256 io_text h base version target exe stage w = (r, w')" "w_files w exe = Some (File old meta)"
    and "exe = dir @ [Normal file]" "dir \<noteq> []" "exe \<noteq> staging_of exe" "stage = staging_of exe" "no_links stage (w_files w)"
    and "name = release_name version target" "new = in_dir (in_dir stage name) ''hawse''"
    and "tame h stage ''curl''" "tame h stage ''tar''" "tame h stage (path_text new)"
    and "\<And>n fs. snd (h_exec h n (path_text new) [''--version''] fs) = fs"
  shows "outside ({p. prefix stage p} \<union> {exe, kept exe}) (w_files w) (w_files w') \<and>
    (case r of Inr units \<Rightarrow> \<exists>b. genuine sha256 h version name stage b \<and> swapped h exe old meta b (w_files w')
     | Inl e \<Rightarrow> unswapped h exe old meta (w_files w) (w_files w'))"
proof -
  note paths = upgrade_paths [OF assms(3-5,8), folded assms(6), folded assms(9)]
  obtain r1 w1 where 1: "try_release sha256 io_text h base version name stage w = (r1, w1)" by fastforce
  have "inside stage (w_files w) (w_files w1)"
    by (rule inside.keepsD [OF inside_try_release 1]) (use assms(9-12) in simp_all)
  then have in1: "outside {p. prefix stage p} (w_files w) (w_files w1)" and nl: "no_links stage (w_files w1)" using assms(7) by (auto simp: inside_def)
  have same: "w_files w1 exe = w_files w exe" "w_files w1 (kept exe) = w_files w (kept exe)" using in1 paths(2,3) by (auto simp: outside_def)
  show ?thesis
  proof (cases r1)
    case (Inl e)
    then have "w' = w1" "r = Inl e" using assms(1) 1 by (auto simp: staged_def Let_def assms(8) [symmetric] bind_def)
    then show ?thesis using in1 same by (auto simp: outside_def unswapped_def)
  next
    case (Inr units)
    obtain r2 w2 where 2: "swap h exe new stage w1 = (r2, w2)" by fastforce
    have go: "w' = w2" "r = Inr units \<and> r2 = Inr () \<or> (\<exists>e. r = Inl e) \<and> r2 \<noteq> Inr ()"
      using assms(1) 1 Inr 2 by (cases r2; auto simp: staged_def Let_def assms(8,9) [symmetric] bind_def io_return)+
    have links: "w_files w1 p \<noteq> Some (Symlink l)" if "p \<in> {new, staged_old stage}" for p l
      using that nl paths(4,5) unfolding no_links_def by blast
    have sw: "outside {exe, kept exe, new, staged_old stage} (w_files w1) (w_files w2) \<and>
      (if r2 = Inr () then \<exists>b m. w_files w1 new = Some (File b m) \<and> swapped h exe old meta b (w_files w2)
       else unswapped h exe old meta (w_files w1) (w_files w2))"
      by (rule swap_outcome [OF 2 _ links paths(6)]) (simp_all add: same assms(2))
    have out: "outside ({p. prefix stage p} \<union> {exe, kept exe}) (w_files w) (w_files w')"
      using in1 sw go(1) paths(4,5) by (auto simp: outside_def)
    show ?thesis
    proof (cases "r2 = Inr ()")
      case True
      then obtain b m where b: "w_files w1 new = Some (File b m)" "swapped h exe old meta b (w_files w2)" using sw by auto
      have "genuine sha256 h version name stage b"
        by (rule try_release_genuine [OF 1 [unfolded Inr] b(1) [unfolded assms(9)]]) (use assms(9,13) in simp)
      then show ?thesis using True go out b(2) by auto
    next
      case False
      then show ?thesis using go out sw same by (auto simp: unswapped_def)
    qed
  qed
qed


text \<open>A release of two files' contents, on a host that serves and unpacks it.\<close>

definition plain_meta :: Meta where "plain_meta = \<lparr>m_mode = 0x1ED, m_uid = 0, m_gid = 0\<rparr>"

definition small_exe :: path where "small_exe = [RootDir, Normal ''hawse'']"

abbreviation small_stage :: path where "small_stage \<equiv> [RootDir, Normal ''.hawse-upgrade'']"

abbreviation small_release :: path where "small_release \<equiv> [RootDir, Normal ''.hawse-upgrade'', Normal ''hawse-1.0.0-x'']"

definition small_new :: path where "small_new = small_release @ [Normal ''hawse'']"

definition release_host :: Host where
  "release_host = small_host\<lparr>h_exec := (\<lambda>n program args fs.
     (Inr \<lparr>o_success = True, o_status = [], o_stdout = bytes_of_text ''hawse 1.0.0''\<rparr>,
      if program = ''curl''
      then fs(small_stage @ [Normal ''hawse-1.0.0-x.tar.gz''] \<mapsto> File [1] plain_meta,
              small_stage @ [Normal ''SHA256SUMS''] \<mapsto> File (bytes_of_text ''01  hawse-1.0.0-x.tar.gz'') plain_meta)
      else if program = ''tar''
      then fs(small_new \<mapsto> File [2] plain_meta,
              small_release @ [Normal ''contrib'', Normal ''hawse-server.service''] \<mapsto> File [] plain_meta,
              small_release @ [Normal ''contrib'', Normal ''hawse-client.service''] \<mapsto> File [] plain_meta)
      else fs))\<rparr>"

definition exe_world :: World where
  "exe_world = small_world\<lparr>w_files := (w_files small_world)(small_exe \<mapsto> File [9] plain_meta)\<rparr>"

lemma small_release_paths:
  "staging_of small_exe = small_stage" "release_name (Version 1 0 0) ''x'' = ''hawse-1.0.0-x''"
  "in_dir small_stage ''hawse-1.0.0-x'' = small_release" "in_dir small_release ''hawse'' = small_new"
  "in_dir small_stage (''hawse-1.0.0-x'' @ ''.tar.gz'') = small_stage @ [Normal ''hawse-1.0.0-x.tar.gz'']"
  "in_dir small_stage ''SHA256SUMS'' = small_stage @ [Normal ''SHA256SUMS'']"
  "in_dir small_stage ''hawse.old'' = small_stage @ [Normal ''hawse.old'']"
  "in_dir small_release (''contrib/hawse-'' @ ''server'' @ ''.service'') = small_release @ [Normal ''contrib'', Normal ''hawse-server.service'']"
  "in_dir small_release (''contrib/hawse-'' @ ''client'' @ ''.service'') = small_release @ [Normal ''contrib'', Normal ''hawse-client.service'']"
  by (simp_all add: staging_of_def small_exe_def parent_def components_def splits_at_def component_def join_path_def is_absolute_def
      release_name_def show_nat.simps digit_def small_new_def char_of_def bit_0)

lemma small_version: "version_to_string (Version 1 0 0) = ''1.0.0''"
  by (simp add: show_nat.simps digit_def char_of_def bit_0)

lemma small_checks: "sum_of (from_utf8_lossy (bytes_of_text ''01  hawse-1.0.0-x.tar.gz'')) (''hawse-1.0.0-x'' @ ''.tar.gz'') = Some (hex [1])"
  "says (from_utf8_lossy (bytes_of_text ''hawse 1.0.0'')) (Version 1 0 0)"
  by (simp_all add: sum_of_def bytes_of_text_def byte_char_def lines_def strip_suffix_def hex_def hex_byte_def hex_digit_def digit_def
      says_def small_version trim_def is_whitespace_def of_chars_def utf8_def show_nat.simps char_of_def bit_0)

abbreviation small_output :: Output where "small_output \<equiv> \<lparr>o_success = True, o_status = [], o_stdout = bytes_of_text ''hawse 1.0.0''\<rparr>"

lemma release_exec:
  "h_exec release_host n ''curl'' args fs = (Inr small_output,
     fs(small_stage @ [Normal ''hawse-1.0.0-x.tar.gz''] \<mapsto> File [1] plain_meta,
        small_stage @ [Normal ''SHA256SUMS''] \<mapsto> File (bytes_of_text ''01  hawse-1.0.0-x.tar.gz'') plain_meta))"
  "h_exec release_host n ''tar'' args fs = (Inr small_output,
     fs(small_new \<mapsto> File [2] plain_meta,
        small_release @ [Normal ''contrib'', Normal ''hawse-server.service''] \<mapsto> File [] plain_meta,
        small_release @ [Normal ''contrib'', Normal ''hawse-client.service''] \<mapsto> File [] plain_meta))"
  "h_exec release_host n (path_text small_new) args fs = (Inr small_output, fs)"
  by (simp_all add: release_host_def path_text_def small_new_def)

lemma release_allows: "h_fails release_host op fs = None" "is_root release_host = False"
  by (simp_all add: release_host_def small_host_def is_root_def)

lemma try_binary_ok: "h_exec h (w_ran w) (path_text new) [''--version''] (w_files w) = (r, fs) \<Longrightarrow> tried io_text version r = None \<Longrightarrow>
  try_binary io_text h version new w = (Inr (), w\<lparr>w_files := fs, w_ran := Suc (w_ran w)\<rparr>)"
  by (simp add: try_binary_def bind_def attempt_def command_output_def io_return)

lemma small_release_tried: "\<exists>units w'. try_release (\<lambda>b. b) (\<lambda>_. []) release_host REPO (Version 1 0 0) ''hawse-1.0.0-x'' small_stage w = (Inr units, w') \<and>
  w_files w' small_new = Some (File [2] plain_meta) \<and> (\<forall>p. p \<in> {small_exe, small_stage @ [Normal ''hawse.old''], kept small_exe} \<longrightarrow> w_files w' p = w_files w p)"
proof -
  define w1 where "w1 = w\<lparr>w_files := snd (h_exec release_host 0 ''curl'' [] (w_files w)), w_ran := Suc (w_ran w)\<rparr>"
  define w2 where "w2 = w1\<lparr>w_files := snd (h_exec release_host 0 ''tar'' [] (w_files w1)), w_ran := Suc (w_ran w1)\<rparr>"
  define w3 where "w3 = w2\<lparr>w_ran := Suc (w_ran w2)\<rparr>"
  have 1: "fetch release_host REPO (Version 1 0 0) ''hawse-1.0.0-x'' small_stage w = (Inr (), w1)"
    unfolding fetch_def run_command_Inr by (simp add: release_exec w1_def)
  have 2: "checked_release (\<lambda>b. b) release_host ''hawse-1.0.0-x'' small_stage w1 = (Inr (), w1)"
    unfolding checked_release_def bind_Inr read_file_Inr
    by (simp add: release_allows small_release_paths [simplified] stat_file w1_def release_exec small_checks [simplified] io_return)
  have 3: "unpack release_host ''hawse-1.0.0-x'' small_stage w1 = (Inr (), w2)"
    unfolding unpack_def run_command_Inr by (simp add: release_exec w2_def)
  have 4: "try_binary (\<lambda>_. []) release_host (Version 1 0 0) (in_dir small_release ''hawse'') w2 = (Inr (), w3)"
    unfolding small_release_paths by (rule trans [OF try_binary_ok [OF release_exec(3)]]) (simp_all add: tried_def small_checks w3_def)
  have 5: "collect (release_unit release_host small_release) [RoleServer, RoleClient] w3 = (Inr [(RoleServer, []), (RoleClient, [])], w3)"
    by (simp add: bind_Inr release_unit_def read_file_Inr io_return release_allows small_release_paths [simplified] stat_file w3_def w2_def release_exec small_new_def)
  have "try_release (\<lambda>b. b) (\<lambda>_. []) release_host REPO (Version 1 0 0) ''hawse-1.0.0-x'' small_stage w = (Inr [(RoleServer, []), (RoleClient, [])], w3)"
    unfolding try_release_def bind_Inr using 1 2 3 4 5 unfolding small_release_paths by blast
  then show ?thesis
    by (intro exI conjI) (auto simp: w3_def w2_def w1_def release_exec small_new_def small_exe_def kept_def with_file_name_def file_name_def)
qed

lemma small_swap:
  assumes "w_files w small_exe = Some (File [9] plain_meta)" "w_files w small_new = Some (File [2] plain_meta)"
    and "w_files w (small_stage @ [Normal ''hawse.old'']) = None" "w_files w (kept small_exe) = None"
  shows "fst (swap release_host small_exe small_new small_stage w) = Inr ()"
proof -
  let ?so = "small_stage @ [Normal ''hawse.old'']"
  have ne: "kept small_exe \<noteq> small_exe" "kept small_exe \<noteq> small_new" "?so \<noteq> small_new" "?so \<noteq> small_exe" "?so \<noteq> kept small_exe" "small_new \<noteq> small_exe"
    by (simp_all add: small_exe_def small_new_def kept_def with_file_name_def file_name_def)
  have "\<exists>w'. swap release_host small_exe small_new small_stage w = (Inr (), w')"
    using ne assms ne [symmetric]
    by (simp add: swap_def keep_old_def Let_def small_release_paths own_def bind_Inr map_err_Inr fs_metadata_def fs_copy_def fs_set_permissions_def fs_rename_def
        allowed_Inr release_allows bind_get_files stat_file written_def real_path_def io_return)
  then show ?thesis by auto
qed

lemma small_upgrade_runs: "\<exists>units. fst (replace_binary (\<lambda>b. b) (\<lambda>_. []) release_host REPO (Version 1 0 0) ''x'' small_exe exe_world) = Inr units"
proof -
  define w1 where "w1 = exe_world\<lparr>w_files := (w_files exe_world)(small_stage \<mapsto> Directory (fresh_meta release_host 0x1FF))\<rparr>"
  have 1: "fs_create_dir release_host small_stage exe_world = (Inr (), w1)"
    by (simp add: fs_create_dir_def allowed_Inr bind_get_files release_allows io_return w1_def exe_world_def small_world_def small_exe_def)
  obtain units w2 where 2: "try_release (\<lambda>b. b) (\<lambda>_. []) release_host REPO (Version 1 0 0) ''hawse-1.0.0-x'' small_stage w1 = (Inr units, w2)"
    "w_files w2 small_new = Some (File [2] plain_meta)"
    "\<forall>p. p \<in> {small_exe, small_stage @ [Normal ''hawse.old''], kept small_exe} \<longrightarrow> w_files w2 p = w_files w1 p"
    using small_release_tried [of w1] by blast
  have "fst (swap release_host small_exe small_new small_stage w2) = Inr ()"
    by (rule small_swap) (use 2 in \<open>simp_all add: w1_def exe_world_def small_world_def small_exe_def kept_def with_file_name_def file_name_def\<close>)
  then obtain w3 where 3: "swap release_host small_exe small_new small_stage w2 = (Inr (), w3)" by (metis prod.collapse)
  have "staged (\<lambda>b. b) (\<lambda>_. []) release_host REPO (Version 1 0 0) ''x'' small_exe small_stage w1 = (Inr units, w3)"
    using 2(1) 3 by (simp add: staged_def Let_def small_release_paths bind_Inr io_return)
  then show ?thesis using 1 by (simp add: replace_binary_def Let_def small_release_paths bind_def map_err_def with_staging_def)
qed


end
