(* ===== verification/Upgrade_Guard.thy ===== *)
theory Upgrade_Guard
  imports Upgrade
begin

text \<open>
  What has to hold before an upgrade changes a file: the decision, whose binary it is, who may write it and who
  may restart what runs it. The programs the upgrade asks before (\<open>curl\<close> for the latest release's name, \<open>systemctl
  show\<close>, \<open>launchctl print\<close>) are taken to print and change no file, as they are documented to.
\<close>

section \<open>Versions as text\<close>

lemma show_nat_plain: "CHR ''.'' \<notin> set (show_nat n)" "strip_prefix ''v'' (show_nat n @ s) = None"
proof -
  have "\<not> is_digit CHR ''.''" "\<not> is_digit CHR ''v''" by (simp_all add: is_digit_def)
  then have "CHR ''.'' \<notin> set (show_nat n)" "hd (show_nat n) \<noteq> CHR ''v''"
    using show_nat_chars [of _ n] by (auto, metis hd_in_set show_nat_nonempty)
  then show "CHR ''.'' \<notin> set (show_nat n)" "strip_prefix ''v'' (show_nat n @ s) = None"
    by (simp, cases "show_nat n") auto
qed

lemma version_number_show: "version_number (show_nat (unat n)) = Some n"
proof -
  have "unat n < 2 ^ 64" using unsigned_less [of n] by simp
  then show ?thesis by (simp add: version_number_def show_nat_digits parse_show_nat)
qed

lemma version_from_to: "version_from_str (version_to_string v) = Inr v"
  by (cases v) (simp add: version_from_str_def show_nat_plain split_once_None [THEN iffD2, OF show_nat_plain(1)] splits_at_once split_once_append version_number_show)

interpretation version_text: text_form version_to_string version_from_str "\<lambda>_. True"
  by unfold_locales (simp_all add: version_from_to)

section \<open>Code that asks\<close>

definition asking :: "string \<Rightarrow> string list \<Rightarrow> bool" where
  "asking program args \<longleftrightarrow>
     (case args of
        a # _ \<Rightarrow> program = ''curl'' \<and> a = ''-fsSLI'' \<or> program = ''systemctl'' \<and> a = ''show'' \<or> program = ''launchctl'' \<and> a = ''print''
      | [] \<Rightarrow> False)"

definition only_asks :: "Host \<Rightarrow> bool" where
  "only_asks h \<longleftrightarrow> (\<forall>n program args fs. asking program args \<longrightarrow> snd (h_exec h n program args fs) = fs)"

abbreviation same_files :: "('e, 'a) io \<Rightarrow> bool" where "same_files \<equiv> outside.keeps {}"

named_theorems same_files_simps \<open>code that changes no file\<close>

lemma outside_nothing: "outside {} fs fs' \<longleftrightarrow> fs' = fs"
  by (auto simp: outside_def)

lemma same_files_basic [same_files_simps]:
  "same_files (ok x)" "same_files (fail e)" "same_files get_files" "same_files (println l)" "same_files (bail t)" "same_files (canonicalize h p)"
  "same_files (lift_result r)" "same_files (fs_metadata h p)"
  by (auto simp: outside.keeps_pure outside.keeps_println outside.keeps_reads lift_result_def split: sum.split)

lemma same_files_built [same_files_simps]:
  "same_files m \<Longrightarrow> (\<And>x. same_files (f x)) \<Longrightarrow> same_files (bind m f)"
  "same_files m \<Longrightarrow> same_files (map_err g m)" "same_files m \<Longrightarrow> same_files (attempt m)"
  "(\<And>x. same_files (f x)) \<Longrightarrow> same_files (collect f xs)"
  by (simp_all add: outside.keeps_bind outside.keeps_map_err outside.keeps_attempt outside.keeps_collect)

lemma same_files_untouched: "untouched.keeps m \<Longrightarrow> same_files m"
  unfolding untouched.keeps_def outside.keeps_def by (metis outside.refl)

lemma same_files_printed: "only_asks h \<Longrightarrow> asking program args \<Longrightarrow> same_files (printed_by h program args)"
  unfolding printed_by_def
  by (intro same_files_simps outside.keeps_exec) (auto simp: only_asks_def outside_nothing same_files_simps, metis snd_conv)

lemma same_files_latest: "only_asks h \<Longrightarrow> same_files (latest h)"
  unfolding latest_def Let_def
  by (intro same_files_simps same_files_printed) (auto simp: asking_def same_files_simps split: option.split)

lemma same_files_services: "only_asks h \<Longrightarrow> same_files (services mc h exe)"
proof -
  assume h: "only_asks h"
  have show': "same_files (show_property h u p)" "same_files (printed_by h ''launchctl'' [''print'', t])" for u p t
    by (simp_all add: show_property_def same_files_printed [OF h] asking_def)
  have "same_files (asked mc h role)" for role
    unfolding asked_def Let_def by (intro same_files_simps) (auto intro!: same_files_simps show')
  then have "same_files (service_of mc h exe role)" for role
    unfolding service_of_def by (intro same_files_simps) (auto intro!: same_files_simps split: option.split)
  then show ?thesis unfolding services_def by (intro same_files_simps)
qed

text \<open>A change made after code that makes none is made by what follows it, once that code succeeded.\<close>

lemma changed_after:
  assumes "same_files m" "bind m f w = (r, w')" "w_files w' \<noteq> w_files w"
  obtains x w1 where "m w = (Inr x, w1)" "w_files w1 = w_files w" "f x w1 = (r, w')"
proof -
  obtain r1 w1 where 1: "m w = (r1, w1)" by fastforce
  have same: "w_files w1 = w_files w" using outside.keepsD [OF assms(1) 1] by (simp add: outside_nothing)
  show thesis
  proof (cases r1)
    case (Inl e)
    then show thesis using assms(2,3) 1 same by (auto simp: bind_def)
  next
    case (Inr x)
    with that 1 same assms(2) show thesis by (auto simp: bind_def)
  qed
qed

lemma changed_not: "same_files m \<Longrightarrow> m w = (r, w') \<Longrightarrow> w_files w' = w_files w"
  using outside.keepsD outside_nothing by metis

lemma upgrade_checks_ok:
  assumes "only_asks h"
  shows "same_files (upgrade_checks mc h)"
    and "upgrade_checks mc h w = (Inr (exe, found), w1) \<Longrightarrow>
      owner exe (map_option components (h_env h ''CARGO_HOME'')) (mc_home mc) = None \<and>
      (if is_root h then (\<exists>w2. fst (only_root_writes h exe w2) = Inr () \<and> w_files w2 = w_files w)
       else \<not> (\<exists>f \<in> set found. fd_running f \<and> is_unit (fd_service f)))"
proof -
  have still: "same_files (this_binary mc h)" "same_files (only_root_writes h exe)" for exe
    by (simp_all add: same_files_untouched still_loads still_only_root_writes)
  show "same_files (upgrade_checks mc h)"
    unfolding upgrade_checks_def
    by (intro same_files_simps still) (auto intro!: same_files_simps still same_files_services [OF assms] split: option.split)
  assume "upgrade_checks mc h w = (Inr (exe, found), w1)"
  then obtain w2 exe' where 2: "this_binary mc h w = (Inr exe', w2)"
    and own: "owner exe' (map_option components (h_env h ''CARGO_HOME'')) (mc_home mc) = None"
    and rest: "bind (if is_root h then only_root_writes h exe' else ok ()) (\<lambda>_. bind (services mc h exe') (\<lambda>found.
         case (if is_root h then None else find (\<lambda>f. fd_running f \<and> is_unit (fd_service f)) found) of
           Some f \<Rightarrow> bail (''run it with sudo: '' @ service_name (fd_service f) @ '' runs this binary, and restarting it needs root'')
         | None \<Rightarrow> ok (exe', found))) w2 = (Inr (exe, found), w1)"
    unfolding upgrade_checks_def by (fastforce simp: bind_Inr io_return split: option.splits)
  from rest [unfolded bind_Inr] obtain u w3 w4 found' where 3: "(if is_root h then only_root_writes h exe' else ok ()) w2 = (Inr u, w3)"
    and 4: "(case (if is_root h then None else find (\<lambda>f. fd_running f \<and> is_unit (fd_service f)) found') of
           Some f \<Rightarrow> bail (''run it with sudo: '' @ service_name (fd_service f) @ '' runs this binary, and restarting it needs root'')
         | None \<Rightarrow> ok (exe', found')) w4 = (Inr (exe, found), w1)"
    by blast
  from 4 have "exe = exe'" "found = found'" "\<not> is_root h \<Longrightarrow> find (\<lambda>f. fd_running f \<and> is_unit (fd_service f)) found = None"
    by (auto simp: io_return split: option.splits if_splits)
  moreover have "w_files w2 = w_files w" by (rule changed_not [OF still(1) 2])
  ultimately show "owner exe (map_option components (h_env h ''CARGO_HOME'')) (mc_home mc) = None \<and>
      (if is_root h then (\<exists>w2. fst (only_root_writes h exe w2) = Inr () \<and> w_files w2 = w_files w)
       else \<not> (\<exists>f \<in> set found. fd_running f \<and> is_unit (fd_service f)))"
    using own 3 by (auto simp: find_None_iff intro!: exI [of _ w2])
qed

text \<open>What the command does on its decision.\<close>

definition act_on :: "(bytes \<Rightarrow> bytes) \<Rightarrow> (IoError \<Rightarrow> string) \<Rightarrow> (Role \<Rightarrow> string) \<Rightarrow> Machine \<Rightarrow> Host \<Rightarrow> string \<Rightarrow> Version \<Rightarrow> Decision \<Rightarrow> (Report, unit) io" where
  "act_on sha256 io_text contrib mc h target running decision =
     (case decision of
        Current \<Rightarrow> println (''hawse '' @ version_to_string running @ '' is the one running'')
      | Newer l \<Rightarrow> println (''hawse '' @ version_to_string running @ '' is running, newer than the latest, '' @ version_to_string l)
      | Check l \<Rightarrow>
          (if l = running then println (''hawse '' @ version_to_string running @ '' is running, the latest'')
           else println (''hawse '' @ version_to_string running @ '' is running; '' @ version_to_string l @ '' is the latest''))
      | Install to \<Rightarrow> upgrade_to sha256 io_text contrib mc h running to target)"

lemma upgrade_run_act:
  "upgrade_run sha256 io_text contrib mc h current version check =
     (case release_target (mc_os mc) (mc_arch mc) of
        None \<Rightarrow> bail ''no release binary for this system; try: cargo install --locked hawse''
      | Some target \<Rightarrow>
          bind (case version of Some v \<Rightarrow> lift_result (version_from_str v) | None \<Rightarrow> latest h) (\<lambda>wanted.
          bind (lift_result (version_from_str current)) (\<lambda>running.
          bind (lift_result (decide running wanted (version \<noteq> None) check)) (act_on sha256 io_text contrib mc h target running))))"
  unfolding upgrade_run_def act_on_def [abs_def] ..

lemma act_on_changes: "act_on sha256 io_text contrib mc h target running d w = (r, w') \<Longrightarrow> w_files w' \<noteq> w_files w \<Longrightarrow>
  \<exists>to. d = Install to \<and> upgrade_to sha256 io_text contrib mc h running to target w = (r, w')"
  by (cases d) (auto simp: act_on_def io_return split: if_splits)


text \<open>A host on which nothing can be fetched, and the staging directory cannot be removed.\<close>

definition stuck_host :: Host where
  "stuck_host = small_host\<lparr>h_exec := (\<lambda>_ _ _ fs. (Inr \<lparr>o_success = False, o_status = [], o_stdout = []\<rparr>, fs)),
     h_fails := (\<lambda>op _. if op = RemoveAll small_stage then Some PermissionDenied else None)\<rparr>"

definition linux_machine :: Machine where
  "linux_machine = \<lparr>mc_os = ''linux'', mc_arch = ''x86_64'', mc_current_exe = Inr small_exe, mc_user_dir = None, mc_home = None\<rparr>"

definition stuck_upgrade :: "(Report + unit) \<times> World" where
  "stuck_upgrade = upgrade_run (\<lambda>b. b) (\<lambda>_. []) (\<lambda>_. []) linux_machine stuck_host ''0.9.0'' (Some ''0.10.0'') False exe_world"

lemma stuck_versions: "version_from_str ''0.9.0'' = Inr (Version 0 9 0)" "version_from_str ''0.10.0'' = Inr (Version 0 10 0)"
proof -
  have "version_to_string (Version 0 9 0) = ''0.9.0''" "version_to_string (Version 0 10 0) = ''0.10.0''"
    by (simp_all add: show_nat.simps digit_def char_of_def bit_0)
  then show "version_from_str ''0.9.0'' = Inr (Version 0 9 0)" "version_from_str ''0.10.0'' = Inr (Version 0 10 0)"
    using version_text.read_show by metis+
qed

lemma stuck_checks: "upgrade_checks linux_machine stuck_host exe_world = (Inr (small_exe, []), exe_world)"
proof -
  have "\<not> is_dir (w_files exe_world) SYSTEMD_RUNS"
    by (simp add: is_dir_def stat_def real_path_def exe_world_def small_world_def small_exe_def SYSTEMD_RUNS_def)
  moreover have "owner small_exe None None = None"
    by (simp add: owner_def small_exe_def parent_def ends_with_def suffix_def Cons_eq_append_conv starts_with_def components_def splits_at_def component_def)
  ultimately show ?thesis
    by (simp add: upgrade_checks_def this_binary_def services_def service_of_def asked_def bind_def map_err_def lift_result_def canonicalize_def
        io_return linux_machine_def stuck_host_def small_host_def is_root_def)
qed

lemma stuck_replace: "\<exists>e w'. replace_binary sha io_text stuck_host REPO v target small_exe exe_world = (Inl e, w') \<and> w_files w' small_stage \<noteq> None"
  by (simp add: replace_binary_def Let_def small_release_paths bind_def map_err_def fs_create_dir_def allowed_def get_files_def put_files_def
      with_staging_def staged_def try_release_def fetch_def run_command_def command_output_def fs_remove_dir_all_def io_return
      stuck_host_def exe_world_def small_world_def small_exe_def small_release_paths(1) [unfolded small_exe_def])

lemma stuck_upgrade_changes: "w_files (snd stuck_upgrade) \<noteq> w_files exe_world"
proof -
  obtain e w' where r: "replace_binary (\<lambda>b. b) (\<lambda>_. []) stuck_host REPO (Version 0 10 0) ''x86_64-unknown-linux-musl'' small_exe exe_world = (Inl e, w')"
      "w_files w' small_stage \<noteq> None"
    using stuck_replace by blast
  have "decide (Version 0 9 0) (Version 0 10 0) True False = Inr (Install (Version 0 10 0))"
    by (simp add: decide_def FLOOR_def less_Version_def)
  then have "snd stuck_upgrade = w'"
    by (simp add: stuck_upgrade_def upgrade_run_act linux_machine_def [THEN arg_cong [of _ _ mc_os]] linux_machine_def [THEN arg_cong [of _ _ mc_arch]]
        release_target_def stuck_versions lift_result_def bind_def io_return act_on_def upgrade_to_def stuck_checks r(1))
  moreover have "w_files exe_world small_stage = None" by (simp add: exe_world_def small_world_def small_exe_def)
  ultimately show ?thesis using r(2) by auto
qed


end
