(* ===== verification/Net_Bind.thy ===== *)
theory Net_Bind
  imports Server_Run
begin

text \<open>
  \<open>hawse-core/src/net.rs\<close>, the listening side of \<open>transport/quic.rs\<close> and \<open>error.rs\<close>: how a public
  port, the tunnel's own port and a dialer's local port are bound. The host's socket calls are the
  fields of \<open>Sockets\<close>, each \<open>None\<close> for done and \<open>Some e\<close> for the error it gave; quinn's endpoint is
  an argument of \<open>quic_listen\<close>. The lemmas show which addresses a bound socket answers, and that a
  port somebody holds is never answered in part.
\<close>

section \<open>Sockets of the host\<close>

datatype Flavor = FlavorTcp | FlavorUdp

datatype Domain = DomainV4 | DomainV6

text \<open>A socket with the options set on it so far; \<open>None\<close> leaves IPv6-only to the host's default.\<close>

record HostSocket =
  so_flavor :: Flavor
  so_domain :: Domain
  so_only_v6 :: "bool option"
  so_reuse :: bool
  so_nonblocking :: bool
  so_addr :: "SocketAddr option"
  so_backlog :: "nat option"

record 'e Sockets =
  sk_socket :: "Flavor \<Rightarrow> Domain \<Rightarrow> 'e option"
  sk_set_only_v6 :: "HostSocket \<Rightarrow> 'e option"
  sk_set_reuse :: "HostSocket \<Rightarrow> 'e option"
  sk_set_nonblocking :: "HostSocket \<Rightarrow> 'e option"
  sk_bind :: "HostSocket \<Rightarrow> SocketAddr \<Rightarrow> 'e option"
  sk_listen :: "HostSocket \<Rightarrow> 'e option"
  sk_from_std :: "HostSocket \<Rightarrow> 'e option"
  sk_in_use :: "'e \<Rightarrow> bool"

text \<open>The \<open>?\<close> of the source on a call that only succeeds or fails.\<close>

definition attempt :: "'e option \<Rightarrow> 'a \<Rightarrow> 'e + 'a" where
  "attempt failure ok = (case failure of None \<Rightarrow> Inr ok | Some e \<Rightarrow> Inl e)"

abbreviation and_then :: "'e + 'a \<Rightarrow> ('a \<Rightarrow> 'e + 'b) \<Rightarrow> 'e + 'b" where
  "and_then r f \<equiv> case_sum Inl f r"

definition flavor_socket :: "('e, 'x) Sockets_scheme \<Rightarrow> Flavor \<Rightarrow> Domain \<Rightarrow> 'e + HostSocket" where
  "flavor_socket host flavor domain =
     attempt (sk_socket host flavor domain)
       \<lparr>so_flavor = flavor, so_domain = domain, so_only_v6 = None, so_reuse = False, so_nonblocking = False,
        so_addr = None, so_backlog = None\<rparr>"

definition prepare :: "('e, 'x) Sockets_scheme \<Rightarrow> Flavor \<Rightarrow> HostSocket \<Rightarrow> SocketAddr \<Rightarrow> 'e + HostSocket" where
  "prepare host flavor socket addr =
     and_then (if flavor = FlavorTcp then attempt (sk_set_reuse host socket) (socket\<lparr>so_reuse := True\<rparr>) else Inr socket)
       (\<lambda>socket. and_then (attempt (sk_set_nonblocking host socket) (socket\<lparr>so_nonblocking := True\<rparr>))
         (\<lambda>socket. attempt (sk_bind host socket addr) (socket\<lparr>so_addr := Some addr\<rparr>)))"

definition dual_stack :: "('e, 'x) Sockets_scheme \<Rightarrow> Flavor \<Rightarrow> u16 \<Rightarrow> 'e + HostSocket" where
  "dual_stack host flavor port =
     and_then (flavor_socket host flavor DomainV6)
       (\<lambda>socket. and_then (attempt (sk_set_only_v6 host socket) (socket\<lparr>so_only_v6 := Some False\<rparr>))
         (\<lambda>socket. prepare host flavor socket (socket_addr (V6 0) port)))"

definition ipv4_only :: "('e, 'x) Sockets_scheme \<Rightarrow> Flavor \<Rightarrow> u16 \<Rightarrow> 'e + HostSocket" where
  "ipv4_only host flavor port =
     and_then (flavor_socket host flavor DomainV4)
       (\<lambda>socket. prepare host flavor socket (socket_addr (V4 0) port))"

definition every_interface :: "('e, 'x) Sockets_scheme \<Rightarrow> Flavor \<Rightarrow> u16 \<Rightarrow> 'e + HostSocket" where
  "every_interface host flavor port =
     (case dual_stack host flavor port of
        Inr socket \<Rightarrow> Inr socket
      | Inl v6 \<Rightarrow>
          if sk_in_use host v6 then Inl v6
          else case ipv4_only host flavor port of Inr socket \<Rightarrow> Inr socket | Inl _ \<Rightarrow> Inl v6)"

definition bound_socket :: "('e, 'x) Sockets_scheme \<Rightarrow> Flavor \<Rightarrow> IpAddr \<Rightarrow> u16 \<Rightarrow> 'e + HostSocket" where
  "bound_socket host flavor bind port =
     (if \<not> is_ipv4 bind \<and> is_unspecified bind then every_interface host flavor port
      else and_then (flavor_socket host flavor (if is_ipv4 bind then DomainV4 else DomainV6))
             (\<lambda>socket. prepare host flavor socket (socket_addr bind port)))"

definition bind_tcp :: "('e, 'x) Sockets_scheme \<Rightarrow> IpAddr \<Rightarrow> u16 \<Rightarrow> 'e + HostSocket" where
  "bind_tcp host bind port =
     and_then (bound_socket host FlavorTcp bind port)
       (\<lambda>socket. and_then (attempt (sk_listen host socket) (socket\<lparr>so_backlog := Some 1024\<rparr>))
         (\<lambda>socket. attempt (sk_from_std host socket) socket))"

definition bind_udp :: "('e, 'x) Sockets_scheme \<Rightarrow> IpAddr \<Rightarrow> u16 \<Rightarrow> 'e + HostSocket" where
  "bind_udp host bind port =
     and_then (bound_socket host FlavorUdp bind port) (\<lambda>socket. attempt (sk_from_std host socket) socket)"

section \<open>QUIC endpoints\<close>

datatype 'e QuicError = QuicCrypto | QuicParam | QuicBind 'e

record QuicParams =
  qp_max_idle_timeout :: duration
  qp_keep_alive :: "duration option"
  qp_bidi_streams :: u32
  qp_uni_streams :: u32
  qp_stream_window :: u32
  qp_connection_window :: u64
  qp_congestion :: Congestion
  qp_datagram_receive :: nat
  qp_datagram_send :: nat

text \<open>
  \<open>idle_ok\<close> and \<open>window_ok\<close> are quinn's conversions to its variable-length integers, which refuse a
  value too large for one.
\<close>

definition transport_config :: "(duration \<Rightarrow> bool) \<Rightarrow> (u64 \<Rightarrow> bool) \<Rightarrow> Tuning \<Rightarrow> 'e QuicError + QuicParams" where
  "transport_config idle_ok window_ok t =
     (if \<not> idle_ok (tn_idle_timeout t) then Inl QuicParam
      else if \<not> window_ok (tn_connection_window t) then Inl QuicParam
      else Inr \<lparr>qp_max_idle_timeout = tn_idle_timeout t, qp_keep_alive = None, qp_bidi_streams = tn_max_streams t,
             qp_uni_streams = 0, qp_stream_window = tn_stream_window t, qp_connection_window = tn_connection_window t,
             qp_congestion = tn_congestion t, qp_datagram_receive = 2 * 1024 * 1024, qp_datagram_send = 1024 * 1024\<rparr>)"

text \<open>\<open>endpoint\<close> is quinn's \<open>Endpoint::server\<close>: the local address it came to listen on, or its error.\<close>

definition quic_listen :: "(QuicParams \<Rightarrow> SocketAddr \<Rightarrow> 'e + SocketAddr) \<Rightarrow> ('e \<Rightarrow> bool) \<Rightarrow> (duration \<Rightarrow> bool) \<Rightarrow>
    (u64 \<Rightarrow> bool) \<Rightarrow> bool \<Rightarrow> SocketAddr \<Rightarrow> Tuning \<Rightarrow> 'e QuicError + SocketAddr" where
  "quic_listen endpoint in_use idle_ok window_ok crypto addr tuning =
     (if \<not> crypto then Inl QuicCrypto
      else and_then (transport_config idle_ok window_ok tuning)
        (\<lambda>cfg. case endpoint cfg addr of
             Inr bound \<Rightarrow> Inr bound
           | Inl err \<Rightarrow>
               if in_use err then Inl (QuicBind err)
               else if \<not> is_ipv4 (sa_ip addr) \<and> is_unspecified (sa_ip addr)
               then case endpoint cfg (socket_addr (V4 0) (sa_port addr)) of
                      Inr bound \<Rightarrow> Inr bound
                    | Inl _ \<Rightarrow> Inl (QuicBind err)
               else Inl (QuicBind err)))"

text \<open>\<open>client\<close> is quinn's \<open>Endpoint::client\<close>, which binds the address it is given.\<close>

definition dialer_bind :: "SocketAddr \<Rightarrow> SocketAddr" where
  "dialer_bind remote = (if is_ipv4 (sa_ip remote) then socket_addr (V4 0) 0 else socket_addr (V6 0) 0)"

definition quic_dialer :: "(SocketAddr \<Rightarrow> 'e + 'c) \<Rightarrow> (duration \<Rightarrow> bool) \<Rightarrow> (u64 \<Rightarrow> bool) \<Rightarrow> bool \<Rightarrow> Tuning \<Rightarrow>
    SocketAddr \<Rightarrow> 'e QuicError + 'c \<times> QuicParams" where
  "quic_dialer client idle_ok window_ok crypto tuning remote =
     (case client (dialer_bind remote) of
        Inl e \<Rightarrow> Inl (QuicBind e)
      | Inr endpoint \<Rightarrow>
          if \<not> crypto then Inl QuicCrypto
          else and_then (transport_config idle_ok window_ok tuning) (\<lambda>cfg. Inr (endpoint, cfg)))"

section \<open>Error chains\<close>

text \<open>An error with its text and the error under it, as \<open>std::error::Error\<close> presents one.\<close>

datatype error_value = ErrorValue string "error_value option"

primrec error_text :: "error_value \<Rightarrow> string" where
  "error_text (ErrorValue text _) = text"

primrec error_source :: "error_value \<Rightarrow> error_value option" where
  "error_source (ErrorValue _ src) = src"

fun chain_from :: "string \<Rightarrow> error_value option \<Rightarrow> string" where
  "chain_from msg None = msg"
| "chain_from msg (Some (ErrorValue cause src)) = chain_from (msg @ '': '' @ cause) src"

definition chain :: "error_value \<Rightarrow> string" where
  "chain err = chain_from (error_text err) (error_source err)"

fun causes :: "error_value \<Rightarrow> string list" where
  "causes (ErrorValue text None) = [text]"
| "causes (ErrorValue text (Some err)) = text # causes err"

lemma chain_from_causes:
  "chain_from msg (Some err) = msg @ concat (map (\<lambda>c. '': '' @ c) (causes err))"
  by (induction err arbitrary: msg rule: causes.induct) simp_all

text \<open>A log line names every cause, outermost first.\<close>

lemma chain_names_every_cause:
  "chain err = hd (causes err) @ concat (map (\<lambda>c. '': '' @ c) (tl (causes err)))"
  by (cases err rule: causes.cases) (simp_all add: chain_def chain_from_causes del: chain_from.simps(2))

section \<open>What a bound socket answers\<close>

text \<open>The local addresses a bound socket takes traffic for.\<close>

definition answers :: "HostSocket \<Rightarrow> IpAddr \<Rightarrow> bool" where
  "answers socket ip =
     (case so_addr socket of
        None \<Rightarrow> False
      | Some addr \<Rightarrow>
          if \<not> is_unspecified (sa_ip addr) then ip = sa_ip addr
          else if is_ipv4 (sa_ip addr) then is_ipv4 ip
          else so_only_v6 socket = Some False \<or> \<not> is_ipv4 ip)"

text \<open>The local addresses a bind address stands for.\<close>

definition covers :: "IpAddr \<Rightarrow> IpAddr \<Rightarrow> bool" where
  "covers bind ip =
     (if \<not> is_unspecified bind then ip = bind else \<not> is_ipv4 bind \<or> is_ipv4 ip)"

text \<open>The bind of \<open>Session::bind\<close>: \<open>net::bind_tcp\<close> for a TCP port, \<open>net::bind_udp\<close> for a UDP one.\<close>

fun host_bind :: "('e, 'x) Sockets_scheme \<Rightarrow> Kind \<Rightarrow> IpAddr \<Rightarrow> u16 \<Rightarrow> 'e + HostSocket" where
  "host_bind host Tcp bind port = bind_tcp host bind port"
| "host_bind host Udp bind port = bind_udp host bind port"

definition opens :: "('e, 'x) Sockets_scheme \<Rightarrow> IpAddr \<Rightarrow> Port \<Rightarrow> bool" where
  "opens host bind port \<longleftrightarrow> is_ok (host_bind host (kind port) bind (number port))"

lemma attempt_ok [simp]: "attempt failure a = Inr b \<longleftrightarrow> failure = None \<and> b = a"
  by (auto simp: attempt_def split: option.splits)

lemma attempt_err [simp]: "attempt failure a = Inl e \<longleftrightarrow> failure = Some e"
  by (auto simp: attempt_def split: option.splits)

lemma and_then_ok: "and_then r f = Inr b \<longleftrightarrow> (\<exists>a. r = Inr a \<and> f a = Inr b)"
  by (cases r) auto

lemma sa_ip_socket_addr [simp]: "sa_ip (socket_addr ip port) = ip"
  by (cases ip) simp_all

lemma sa_port_socket_addr [simp]: "sa_port (socket_addr ip port) = port"
  by (cases ip) simp_all

lemma prepare_ok:
  "prepare host flavor socket addr = Inr s \<Longrightarrow>
   s = socket\<lparr>so_reuse := (so_reuse socket \<or> flavor = FlavorTcp), so_nonblocking := True, so_addr := Some addr\<rparr>"
  by (auto simp: prepare_def and_then_ok split: if_splits)

text \<open>A socket that was bound: its address, and the options the bind sets.\<close>

definition bound_at :: "Flavor \<Rightarrow> SocketAddr \<Rightarrow> HostSocket \<Rightarrow> bool" where
  "bound_at flavor addr s \<longleftrightarrow> so_flavor s = flavor \<and> so_addr s = Some addr \<and> so_nonblocking s \<and>
     (so_reuse s \<longleftrightarrow> flavor = FlavorTcp)"

lemma dual_stack_ok:
  "dual_stack host flavor port = Inr s \<Longrightarrow>
   bound_at flavor (socket_addr (V6 0) port) s \<and> so_only_v6 s = Some False"
  by (auto simp: dual_stack_def flavor_socket_def bound_at_def and_then_ok dest!: prepare_ok)

lemma ipv4_only_ok:
  "ipv4_only host flavor port = Inr s \<Longrightarrow> bound_at flavor (socket_addr (V4 0) port) s"
  by (auto simp: ipv4_only_def flavor_socket_def bound_at_def and_then_ok dest!: prepare_ok)

text \<open>
  A bound socket answers the addresses it was bound for and no other, save that on a host that
  refuses \<open>::\<close> for any other reason than a port in use the wildcard answers IPv4 alone.
\<close>

definition answers_for :: "('e, 'x) Sockets_scheme \<Rightarrow> Flavor \<Rightarrow> IpAddr \<Rightarrow> u16 \<Rightarrow> HostSocket \<Rightarrow> bool" where
  "answers_for host flavor bind port s \<longleftrightarrow>
     (\<exists>addr. bound_at flavor addr s \<and> sa_port addr = port) \<and>
     (\<forall>ip. answers s ip \<longrightarrow> covers bind ip) \<and>
     (\<forall>ip. covers bind ip \<and> \<not> answers s ip \<longrightarrow>
        bind = V6 0 \<and> \<not> is_ipv4 ip \<and> (\<exists>e. dual_stack host flavor port = Inl e \<and> \<not> sk_in_use host e))"

lemma every_interface_answers:
  assumes "every_interface host flavor port = Inr s"
  shows "answers_for host flavor (V6 0) port s"
proof (cases "dual_stack host flavor port")
  case (Inr s')
  with assms dual_stack_ok [OF Inr] show ?thesis
    by (auto simp: every_interface_def answers_for_def answers_def covers_def bound_at_def)
next
  case (Inl e)
  with assms have "\<not> sk_in_use host e" "ipv4_only host flavor port = Inr s"
    by (auto simp: every_interface_def split: if_splits sum.splits)
  with Inl ipv4_only_ok [of host flavor port s] show ?thesis
    by (auto simp: answers_for_def answers_def covers_def bound_at_def)
qed

lemma bound_socket_answers:
  assumes "bound_socket host flavor bind port = Inr s"
  shows "answers_for host flavor bind port s"
proof (cases "bind = V6 0")
  case True
  with assms show ?thesis by (simp add: bound_socket_def every_interface_answers)
next
  case False
  then have named: "\<not> (\<not> is_ipv4 bind \<and> is_unspecified bind)" by (cases bind) auto
  with assms have "bound_at flavor (socket_addr bind port) s"
    by (auto simp: bound_socket_def flavor_socket_def bound_at_def and_then_ok dest!: prepare_ok split: if_splits)
  with named show ?thesis by (auto simp: answers_for_def answers_def covers_def bound_at_def)
qed

lemma answers_for_backlog [simp]:
  "answers_for host flavor bind port (s\<lparr>so_backlog := b\<rparr>) = answers_for host flavor bind port s"
  by (simp add: answers_for_def answers_def bound_at_def cong: option.case_cong)

fun flavor_of :: "Kind \<Rightarrow> Flavor" where
  "flavor_of Tcp = FlavorTcp"
| "flavor_of Udp = FlavorUdp"

lemma host_bind_answers:
  "host_bind host k bind port = Inr s \<Longrightarrow> answers_for host (flavor_of k) bind port s"
  by (cases k) (auto simp: bind_tcp_def bind_udp_def and_then_ok bound_socket_answers)

text \<open>
  A port something holds fails the bind with that very error: the attempt at IPv4 alone is not made.
\<close>

lemma held_port_refused:
  assumes "dual_stack host (flavor_of k) port = Inl e" "sk_in_use host e"
  shows "host_bind host k (V6 0) port = Inl e"
  using assms by (cases k) (simp_all add: bind_tcp_def bind_udp_def bound_socket_def every_interface_def)

text \<open>The tunnel's own UDP port is refused the same way, and falls back on the same terms.\<close>

lemma quic_listen_exact:
  assumes "quic_listen endpoint in_use idle_ok window_ok crypto addr tuning = Inr local"
  shows "\<exists>cfg. transport_config idle_ok window_ok tuning = (Inr cfg :: 'e QuicError + QuicParams) \<and>
    (endpoint cfg addr = Inr local \<or>
     (\<exists>e. endpoint cfg addr = Inl e \<and> \<not> in_use e \<and> sa_ip addr = V6 0 \<and>
        endpoint cfg (socket_addr (V4 0) (sa_port addr)) = Inr local))"
proof -
  have wild: "\<not> is_ipv4 ip \<and> is_unspecified ip \<Longrightarrow> ip = V6 0" for ip by (cases ip) auto
  from assms obtain cfg where cfg: "transport_config idle_ok window_ok tuning = (Inr cfg :: 'e QuicError + QuicParams)"
    by (cases "transport_config idle_ok window_ok tuning :: 'e QuicError + QuicParams")
       (auto simp: quic_listen_def and_then_ok transport_config_def split: if_splits)
  with assms wild show ?thesis
    by (auto simp: quic_listen_def and_then_ok transport_config_def split: if_splits sum.splits)
qed

text \<open>
  A server built on these: its TCP side, where it has one, is bound at the very address and port its
  QUIC side came to listen on.
\<close>

definition net_host :: "('e, 'x) Sockets_scheme \<Rightarrow> (QuicParams \<Rightarrow> SocketAddr \<Rightarrow> 'e + SocketAddr) \<Rightarrow> (duration \<Rightarrow> bool) \<Rightarrow>
    (u64 \<Rightarrow> bool) \<Rightarrow> bool \<Rightarrow> bool \<Rightarrow> bool \<Rightarrow> Host" where
  "net_host host endpoint idle_ok window_ok crypto cert tls =
     \<lparr>h_certificate = cert, h_tls = tls,
      h_quic_listen = (\<lambda>addr tuning. case quic_listen endpoint (sk_in_use host) idle_ok window_ok crypto addr tuning of
        Inr local \<Rightarrow> Some local | Inl _ \<Rightarrow> None),
      h_bind_tcp = (\<lambda>ip port. is_ok (bind_tcp host ip port))\<rparr>"

lemma server_listens_on_one_port:
  assumes "server_bind (net_host host endpoint idle_ok window_ok crypto cert tls) cfg = Inr sv" "sv_tcp sv"
  shows "\<exists>s. bind_tcp host (sa_ip (sv_local_addr sv)) (sa_port (sv_local_addr sv)) = Inr s \<and>
    answers_for host FlavorTcp (sa_ip (sv_local_addr sv)) (sa_port (sv_local_addr sv)) s"
proof -
  have "is_ok (bind_tcp host (sa_ip (sv_local_addr sv)) (sa_port (sv_local_addr sv)))"
    using assms by (auto simp: server_bind_def net_host_def Let_def split: if_splits option.splits)
  then obtain s where "bind_tcp host (sa_ip (sv_local_addr sv)) (sa_port (sv_local_addr sv)) = Inr s"
    by (auto simp: is_ok_def split: sum.splits)
  with host_bind_answers [of host Tcp] show ?thesis by fastforce
qed

text \<open>A dialer's socket is of the address family of the server it dials.\<close>

lemma dialer_bind_family: "is_ipv4 (sa_ip (dialer_bind remote)) \<longleftrightarrow> is_ipv4 (sa_ip remote)"
  by (simp add: dialer_bind_def)

text \<open>
  C18: a port a session reports as opened is one a socket of the host is bound to, for the asked
  kind; the socket answers only the addresses the grant binds to, and all of them, unless the host
  could not bind \<open>::\<close> for a reason other than the port being held, when it answers every IPv4
  address. A UDP socket never shares its port.
\<close>

theorem opened_port_answers:
  assumes "alloc_ok ports" "session_open (opens host) grant k fixed ports = Some (ports', Inr port)"
  shows "kind port = k \<and> (\<exists>s. host_bind host k (g_bind grant) (number port) = Inr s \<and>
    (so_reuse s \<longrightarrow> k = Tcp) \<and>
    (\<exists>addr. so_addr s = Some addr \<and> sa_port addr = number port) \<and>
    (\<forall>ip. answers s ip \<longrightarrow> covers (g_bind grant) ip) \<and>
    (\<forall>ip. covers (g_bind grant) ip \<and> \<not> answers s ip \<longrightarrow> \<not> is_ipv4 ip \<and> g_bind grant = V6 0 \<and>
       (\<exists>e. dual_stack host (flavor_of k) (number port) = Inl e \<and> \<not> sk_in_use host e)))"
proof -
  have k: "kind port = k" "opens host (g_bind grant) port"
    using session_open_result [OF assms(1), of "opens host" grant k fixed] assms(2)
    by (auto simp: open_result_def)
  then obtain s where s: "host_bind host k (g_bind grant) (number port) = Inr s"
    by (auto simp: opens_def is_ok_def split: sum.splits)
  from host_bind_answers [OF s] have "so_reuse s \<longrightarrow> k = Tcp"
    by (cases k) (auto simp: answers_for_def bound_at_def)
  with k(1) s host_bind_answers [OF s] show ?thesis
    unfolding answers_for_def bound_at_def by blast
qed

text \<open>A host without IPv6: \<open>::\<close> is refused, and the port is bound on \<open>0.0.0.0\<close>.\<close>

definition ipv4_host :: "bool Sockets" where
  "ipv4_host = \<lparr>sk_socket = (\<lambda>_ d. if d = DomainV6 then Some False else None), sk_set_only_v6 = (\<lambda>_. None),
     sk_set_reuse = (\<lambda>_. None), sk_set_nonblocking = (\<lambda>_. None), sk_bind = (\<lambda>_ _. None), sk_listen = (\<lambda>_. None),
     sk_from_std = (\<lambda>_. None), sk_in_use = id\<rparr>"

theorem opened_port_answers_witness:
  "\<exists>s. host_bind ipv4_host Tcp (V6 0) 443 = Inr s \<and> answers s (V4 7) \<and> \<not> answers s (V6 7) \<and>
     (\<exists>e. dual_stack ipv4_host FlavorTcp 443 = Inl e \<and> \<not> sk_in_use ipv4_host e)"
proof -
  let ?g = "\<lparr>g_name = ''home'', g_ports = [\<lparr>r_first = 443, r_last = 443, r_kind = Tcp\<rparr>], g_bind = V6 0,
    g_allow = [] :: IpAddr list\<rparr>"
  let ?a = "new_allocator \<lparr>s_first = 40000, s_last = 40001\<rparr>"
  have ok: "alloc_ok ?a" by (rule new_allocator_ok) (simp add: span_wf_def)
  have eval: "\<exists>s. host_bind ipv4_host Tcp (V6 0) 443 = Inr s \<and> so_addr s = Some (SocketV4 0 443)"
    by (simp add: bind_tcp_def bound_socket_def every_interface_def dual_stack_def ipv4_only_def flavor_socket_def
      prepare_def attempt_def ipv4_host_def)
  then have "opens ipv4_host (g_bind ?g) \<lparr>number = 443, kind = Tcp\<rparr>"
    by (auto simp: opens_def is_ok_def)
  moreover obtain ports' r where r: "session_open (opens ipv4_host) ?g Tcp (Some 443) ?a = Some (ports', r)"
      "open_result (opens ipv4_host) ?g Tcp (Some 443) ?a ports' r"
    using session_open_result [OF ok] by blast
  ultimately obtain p where p: "r = Inr p" "number p = 443"
    by (cases r) (auto simp: open_result_def new_allocator_def allows_def range_contains_def)
  obtain s where s: "host_bind ipv4_host Tcp (V6 0) 443 = Inr s"
    and part: "\<forall>ip. covers (V6 0) ip \<and> \<not> answers s ip \<longrightarrow> \<not> is_ipv4 ip \<and> V6 0 = V6 0 \<and>
       (\<exists>e. dual_stack ipv4_host FlavorTcp 443 = Inl e \<and> \<not> sk_in_use ipv4_host e)"
    using opened_port_answers [OF ok r(1) [unfolded p(1)]] p(2) by auto
  with eval have "answers s (V4 7)" "\<not> answers s (V6 7)" by (auto simp: answers_def)
  with s part [rule_format, of "V6 7"] show ?thesis by (auto simp: covers_def)
qed

end
