(* ===== verification/Tls.thy ===== *)
theory Tls
  imports Identity "HOL-Library.Sublist"
begin

text \<open>
  \<open>hawse-core/src/tls.rs\<close>: what either end accepts of the other's certificate. Reading a certificate is
  the \<open>x509_parser\<close> crate's (an argument: what it finds of the subject's public key, if the DER reads),
  and checking a TLS 1.3 signature and building the configuration are rustls' (arguments too). What
  the code decides itself is which key a certificate stands for, and whether that key will do.
\<close>

section \<open>The key in a certificate\<close>

definition ED25519_OID :: string where "ED25519_OID = ''1.3.101.112''"

definition ED25519_SPKI_PREFIX :: bytes where
  "ED25519_SPKI_PREFIX = [0x30, 0x2a, 0x30, 0x05, 0x06, 0x03, 0x2b, 0x65, 0x70, 0x03, 0x21, 0x00]"

datatype PeerKeyError = PkDer | PkAlgorithm string | PkLength | PkEncoding

fun peer_key_error_text :: "PeerKeyError \<Rightarrow> string" where
  "peer_key_error_text PkDer = ''peer certificate is not valid DER''"
| "peer_key_error_text (PkAlgorithm a) = ''peer key algorithm '' @ a @ '' is not Ed25519''"
| "peer_key_error_text PkLength = ''peer key is not 32 bytes''"
| "peer_key_error_text PkEncoding = ''peer key is not the canonical Ed25519 encoding''"

text \<open>What the parser gives of a certificate's public key: its algorithm, its bits, and it whole as it came.\<close>

record Spki =
  spki_algorithm :: string
  spki_data :: bytes
  spki_raw :: bytes

text \<open>\<open>slice::strip_prefix\<close>.\<close>

definition slice_strip_prefix :: "bytes \<Rightarrow> bytes \<Rightarrow> bytes option" where
  "slice_strip_prefix p s = (if take (length p) s = p then Some (drop (length p) s) else None)"

definition peer_key :: "(bytes \<Rightarrow> Spki option) \<Rightarrow> bytes \<Rightarrow> PeerKeyError + PublicKey" where
  "peer_key from_der cert =
     (case from_der cert of
        None \<Rightarrow> Inl PkDer
      | Some spki \<Rightarrow>
          (let oid = spki_algorithm spki
           in if oid \<noteq> ED25519_OID then Inl (PkAlgorithm oid)
              else case from_slice (spki_data spki) of
                     Inl _ \<Rightarrow> Inl PkLength
                   | Inr key \<Rightarrow>
                       (if slice_strip_prefix ED25519_SPKI_PREFIX (spki_raw spki) \<noteq> Some (as_bytes key) then Inl PkEncoding
                        else Inr key)))"

section \<open>The verifiers\<close>

datatype TlsError = BadEncoding | UnknownIssuer | Tls12NotOffered | BadSignature | RustlsError string

datatype SignatureScheme = ED25519 | OtherScheme nat

definition bad_cert :: "PeerKeyError \<Rightarrow> TlsError" where "bad_cert _ = BadEncoding"

record 'alg PinnedServer =
  pin_expected :: PublicKey
  pin_algs :: 'alg

record 'alg AnyEd25519Client =
  any_algs :: 'alg

definition verify_server_cert :: "(bytes \<Rightarrow> Spki option) \<Rightarrow> 'alg PinnedServer \<Rightarrow> bytes \<Rightarrow> TlsError + unit" where
  "verify_server_cert from_der self end_entity =
     (case peer_key from_der end_entity of
        Inl e \<Rightarrow> Inl (bad_cert e)
      | Inr key \<Rightarrow> if key = pin_expected self then Inr () else Inl UnknownIssuer)"

definition verify_client_cert :: "(bytes \<Rightarrow> Spki option) \<Rightarrow> 'alg AnyEd25519Client \<Rightarrow> bytes \<Rightarrow> TlsError + unit" where
  "verify_client_cert from_der self end_entity =
     (case peer_key from_der end_entity of Inl e \<Rightarrow> Inl (bad_cert e) | Inr _ \<Rightarrow> Inr ())"

text \<open>Both verifiers refuse every TLS 1.2 signature, leave TLS 1.3's to rustls, and offer Ed25519 alone.\<close>

definition verify_tls12_signature :: "bytes \<Rightarrow> bytes \<Rightarrow> 'dss \<Rightarrow> TlsError + unit" where
  "verify_tls12_signature message cert dss = Inl Tls12NotOffered"

definition pinned_tls13_signature ::
  "('alg \<Rightarrow> bytes \<Rightarrow> bytes \<Rightarrow> 'dss \<Rightarrow> TlsError + unit) \<Rightarrow> 'alg PinnedServer \<Rightarrow> bytes \<Rightarrow> bytes \<Rightarrow> 'dss \<Rightarrow> TlsError + unit" where
  "pinned_tls13_signature tls13 self message cert dss = tls13 (pin_algs self) message cert dss"

definition any_tls13_signature ::
  "('alg \<Rightarrow> bytes \<Rightarrow> bytes \<Rightarrow> 'dss \<Rightarrow> TlsError + unit) \<Rightarrow> 'alg AnyEd25519Client \<Rightarrow> bytes \<Rightarrow> bytes \<Rightarrow> 'dss \<Rightarrow> TlsError + unit" where
  "any_tls13_signature tls13 self message cert dss = tls13 (any_algs self) message cert dss"

definition supported_verify_schemes :: "SignatureScheme list" where "supported_verify_schemes = [ED25519]"

section \<open>The configurations\<close>

datatype ProtocolVersion = TLS12 | TLS13

definition ALPN :: bytes where "ALPN = bytes_of_text ''hawse/2''"

text \<open>
  What the code sets of a configuration rustls builds. The provider is the algorithms a signature is
  checked with; whether rustls takes the versions, and the certificate with its key, is its answer.
\<close>

record 'alg Rustls =
  rl_algorithms :: 'alg
  rl_versions :: "ProtocolVersion list \<Rightarrow> TlsError option"
  rl_cert :: "bytes \<Rightarrow> bytes \<Rightarrow> TlsError option"

record 'alg TlsServer =
  ts_versions :: "ProtocolVersion list"
  ts_verifier :: "'alg AnyEd25519Client"
  ts_cert :: "bytes list"
  ts_alpn :: "bytes list"
  ts_max_early_data :: u32

record 'alg TlsClient =
  tc_versions :: "ProtocolVersion list"
  tc_verifier :: "'alg PinnedServer"
  tc_cert :: "bytes list"
  tc_alpn :: "bytes list"
  tc_early_data :: bool

definition tls_server_config :: "'alg Rustls \<Rightarrow> bytes \<Rightarrow> bytes \<Rightarrow> TlsError + 'alg TlsServer" where
  "tls_server_config provider cert key =
     (case rl_versions provider [TLS13] of
        Some e \<Rightarrow> Inl e
      | None \<Rightarrow>
          (case rl_cert provider cert key of
             Some e \<Rightarrow> Inl e
           | None \<Rightarrow> Inr \<lparr>ts_versions = [TLS13], ts_verifier = \<lparr>any_algs = rl_algorithms provider\<rparr>, ts_cert = [cert],
                          ts_alpn = [ALPN], ts_max_early_data = 0\<rparr>))"

definition tls_client_config :: "'alg Rustls \<Rightarrow> bytes \<Rightarrow> bytes \<Rightarrow> PublicKey \<Rightarrow> TlsError + 'alg TlsClient" where
  "tls_client_config provider cert key server_key =
     (case rl_versions provider [TLS13] of
        Some e \<Rightarrow> Inl e
      | None \<Rightarrow>
          (case rl_cert provider cert key of
             Some e \<Rightarrow> Inl e
           | None \<Rightarrow> Inr \<lparr>tc_versions = [TLS13], tc_verifier = \<lparr>pin_expected = server_key, pin_algs = rl_algorithms provider\<rparr>,
                          tc_cert = [cert], tc_alpn = [ALPN], tc_early_data = False\<rparr>))"

section \<open>What is accepted\<close>

lemma slice_strip_prefix_Some: "slice_strip_prefix p s = Some r \<longleftrightarrow> s = p @ r"
  by (auto simp: slice_strip_prefix_def) (metis append_take_drop_id)

text \<open>A certificate stands for a key if its public key is, byte for byte, the one encoding RFC 8410 has for it.\<close>

lemma peer_key_iff:
  "peer_key from_der cert = Inr key \<longleftrightarrow>
     (\<exists>spki. from_der cert = Some spki \<and> spki_algorithm spki = ED25519_OID \<and> key_wf key \<and>
        spki_data spki = as_bytes key \<and> spki_raw spki = ED25519_SPKI_PREFIX @ as_bytes key)"
  by (cases key) (auto simp: peer_key_def Let_def from_slice_def key_wf_def slice_strip_prefix_Some split: option.splits sum.splits if_splits)

lemma verify_server_cert_iff: "verify_server_cert from_der v cert = Inr () \<longleftrightarrow> peer_key from_der cert = Inr (pin_expected v)"
  by (auto simp: verify_server_cert_def split: sum.splits)

text \<open>
  C11: a peer is known by its key and by nothing else. A client's configuration accepts a server's certificate
  exactly if its public key is the canonical encoding of the key the client pinned; a server's accepts any
  certificate that stands for some Ed25519 key. Two certificates stand for one key exactly if their
  public keys are the same bytes, so no key can be presented in two guises. Neither side speaks anything but
  TLS 1.3 and the one protocol, and neither takes data before the handshake is over.
\<close>

theorem peer_is_its_key:
  assumes "tls_client_config pc cert_c key_c pinned = Inr cc" "tls_server_config ps cert_s key_s = Inr sc"
  shows "(verify_server_cert from_der (tc_verifier cc) cert = Inr () \<longleftrightarrow>
      key_wf pinned \<and>
      (\<exists>spki. from_der cert = Some spki \<and> spki_algorithm spki = ED25519_OID \<and>
        spki_data spki = as_bytes pinned \<and> spki_raw spki = ED25519_SPKI_PREFIX @ as_bytes pinned)) \<and>
    (verify_client_cert from_der (ts_verifier sc) cert = Inr () \<longleftrightarrow> (\<exists>key. peer_key from_der cert = Inr key)) \<and>
    (\<forall>key key'. peer_key from_der cert = Inr key \<and> peer_key from_der cert' = Inr key' \<longrightarrow>
      (key = key' \<longleftrightarrow> spki_raw (the (from_der cert)) = spki_raw (the (from_der cert')))) \<and>
    tc_versions cc = [TLS13] \<and> ts_versions sc = [TLS13] \<and> tc_alpn cc = ts_alpn sc \<and> \<not> tc_early_data cc \<and> ts_max_early_data sc = 0"
proof -
  have "pin_expected (tc_verifier cc) = pinned"
    using assms(1) by (auto simp: tls_client_config_def split: option.splits)
  then have "verify_server_cert from_der (tc_verifier cc) cert = Inr () \<longleftrightarrow>
      key_wf pinned \<and>
      (\<exists>spki. from_der cert = Some spki \<and> spki_algorithm spki = ED25519_OID \<and>
        spki_data spki = as_bytes pinned \<and> spki_raw spki = ED25519_SPKI_PREFIX @ as_bytes pinned)"
    by (auto simp: verify_server_cert_iff peer_key_iff)
  moreover have "verify_client_cert from_der (ts_verifier sc) cert = Inr () \<longleftrightarrow> (\<exists>key. peer_key from_der cert = Inr key)"
    by (simp add: verify_client_cert_def split: sum.split)
  moreover have "key = key' \<longleftrightarrow> spki_raw (the (from_der cert)) = spki_raw (the (from_der cert'))"
    if "peer_key from_der cert = Inr key" "peer_key from_der cert' = Inr key'" for key key'
    using that by (cases key; cases key') (auto simp: peer_key_iff)
  moreover have "tc_versions cc = [TLS13] \<and> ts_versions sc = [TLS13] \<and> tc_alpn cc = ts_alpn sc \<and> \<not> tc_early_data cc \<and> ts_max_early_data sc = 0"
    using assms by (auto simp: tls_client_config_def tls_server_config_def split: option.splits)
  ultimately show ?thesis by blast
qed

text \<open>
  A server's own certificate is the one its clients look for. Given that rcgen writes an Ed25519 public
  key in its canonical encoding, the certificate an identity makes stands for that identity's public key, so
  a client that pinned a key accepts the certificate of exactly the identity with that key.
\<close>

theorem certificate_stands_for_its_key:
  assumes canonical: "\<And>params kp cert. self_signed params kp = Inr cert \<Longrightarrow> rc_is_ed25519 rc kp \<Longrightarrow>
      \<exists>spki. from_der cert = Some spki \<and> spki_algorithm spki = ED25519_OID \<and>
        spki_data spki = rc_public_key_raw rc kp \<and> spki_raw spki = ED25519_SPKI_PREFIX @ rc_public_key_raw rc kp"
    and made: "from_key_pair rc kp = Inr i"
    and cert: "certificate new_params self_signed serialize_der i = Inr (cert, key)"
  shows "peer_key from_der cert = Inr (id_public i) \<and>
    (verify_server_cert from_der v cert = Inr () \<longleftrightarrow> pin_expected v = id_public i) \<and>
    verify_client_cert from_der c cert = Inr ()"
proof -
  have i: "rc_is_ed25519 rc kp" "id_key_pair i = kp" "id_public i = PublicKey (rc_public_key_raw rc kp)" "length (rc_public_key_raw rc kp) = 32"
    using made by (auto simp: from_key_pair_def from_slice_def split: if_splits sum.splits)
  obtain params where "self_signed params kp = Inr cert"
    using cert i(2) by (auto simp: certificate_def split: sum.splits)
  from canonical [OF this i(1)] have "peer_key from_der cert = Inr (id_public i)"
    by (auto simp: peer_key_iff i(3,4) key_wf_def)
  then show ?thesis by (auto simp: verify_server_cert_iff verify_client_cert_def)
qed

text \<open>A host where a key pair is its own public key and a certificate is that key's canonical encoding.\<close>

definition plain_der :: "bytes \<Rightarrow> Spki option" where
  "plain_der cert =
     (if length cert < 12 then None
      else Some \<lparr>spki_algorithm = ED25519_OID, spki_data = drop 12 cert, spki_raw = cert\<rparr>)"

definition plain_rustls :: "unit Rustls" where
  "plain_rustls = \<lparr>rl_algorithms = (), rl_versions = (\<lambda>_. None), rl_cert = (\<lambda>_ _. None)\<rparr>"

theorem peer_is_its_key_witness:
  "(\<exists>cc sc. tls_client_config plain_rustls [] [] (PublicKey (replicate 32 7)) = Inr cc \<and> tls_server_config plain_rustls [] [] = Inr sc \<and>
     verify_server_cert plain_der (tc_verifier cc) (ED25519_SPKI_PREFIX @ replicate 32 7) = Inr () \<and>
     verify_server_cert plain_der (tc_verifier cc) (ED25519_SPKI_PREFIX @ replicate 32 8) \<noteq> Inr ())"
proof -
  obtain cc where cc: "tls_client_config plain_rustls [] [] (PublicKey (replicate 32 7)) = Inr cc"
    by (auto simp: tls_client_config_def plain_rustls_def)
  obtain sc where sc: "tls_server_config plain_rustls [] [] = Inr sc"
    by (auto simp: tls_server_config_def plain_rustls_def)
  note accepts = peer_is_its_key [OF cc sc, of plain_der, THEN conjunct1]
  have 12: "length ED25519_SPKI_PREFIX = 12" by (simp add: ED25519_SPKI_PREFIX_def)
  have "plain_der (ED25519_SPKI_PREFIX @ k) = Some \<lparr>spki_algorithm = ED25519_OID, spki_data = k, spki_raw = ED25519_SPKI_PREFIX @ k\<rparr>" for k
    by (simp add: plain_der_def 12)
  then have "verify_server_cert plain_der (tc_verifier cc) (ED25519_SPKI_PREFIX @ replicate 32 7) = Inr ()"
    "verify_server_cert plain_der (tc_verifier cc) (ED25519_SPKI_PREFIX @ replicate 32 8) \<noteq> Inr ()"
    unfolding accepts by (simp_all add: key_wf_def)
  with cc sc show ?thesis by blast
qed

definition plain_rcgen :: "(bytes, unit) Rcgen" where
  "plain_rcgen = \<lparr>rc_generate = Inr (replicate 32 7), rc_from_pem = (\<lambda>_. Inl ()), rc_serialize_pem = (\<lambda>_. []),
     rc_is_ed25519 = (\<lambda>_. True), rc_algorithm = (\<lambda>_. []), rc_public_key_raw = (\<lambda>kp. kp)\<rparr>"

theorem certificate_stands_for_its_key_witness:
  "\<exists>i cert key. from_key_pair plain_rcgen (replicate 32 7) = Inr i \<and>
     certificate (Inr () :: unit + unit) (\<lambda>_ kp. Inr (ED25519_SPKI_PREFIX @ kp)) (\<lambda>_. []) i = Inr (cert, key) \<and>
     peer_key plain_der cert = Inr (id_public i)"
proof -
  define K :: bytes where "K = replicate 32 7"
  define i where "i = \<lparr>id_key_pair = K, id_public = PublicKey K\<rparr>"
  have i: "from_key_pair plain_rcgen K = Inr i"
    by (simp add: from_key_pair_def plain_rcgen_def from_slice_def i_def K_def)
  have c: "certificate (Inr () :: unit + unit) (\<lambda>_ kp. Inr (ED25519_SPKI_PREFIX @ kp)) (\<lambda>_. []) i
      = (Inr (ED25519_SPKI_PREFIX @ K, []) :: unit IdentityError + bytes \<times> bytes)"
    by (simp add: certificate_def i_def)
  have 12: "length ED25519_SPKI_PREFIX = 12" by (simp add: ED25519_SPKI_PREFIX_def)
  have "peer_key plain_der (ED25519_SPKI_PREFIX @ K) = Inr (id_public i)"
    by (rule certificate_stands_for_its_key [OF _ i c, THEN conjunct1]) (auto simp: plain_rcgen_def plain_der_def 12)
  with i c show ?thesis unfolding K_def by blast
qed

end
