(* ===== verification/Tcp_Transport.thy ===== *)
theory Tcp_Transport
  imports Server_Run Udp_Sender Record_Stream Tls
begin

text \<open>
  \<open>hawse-core/src/transport/tcp.rs\<close> and what \<open>transport/mod.rs\<close> and \<open>transport/quic.rs\<close> add to a
  connection: the limits yamux is given, the driver task that alone polls the multiplexer and opens
  streams for its callers, the datagram calls, and the code read out of a stream's error. yamux's
  \<open>poll_next_inbound\<close> and \<open>poll_new_outbound\<close> are the arguments \<open>inb\<close> and \<open>outb\<close>, functions of a
  connection of a type the model leaves open.
\<close>

section \<open>The limits yamux is given\<close>

definition HEADROOM :: nat where "HEADROOM = 2"

text \<open>
  \<open>usize_max\<close> is the largest \<open>usize\<close> of the target and \<open>credit\<close> yamux's \<open>DEFAULT_CREDIT\<close>; a saturating
  operation stops at \<open>usize_max\<close>.
\<close>

definition yamux_streams :: "nat \<Rightarrow> nat \<Rightarrow> Tuning \<Rightarrow> nat" where
  "yamux_streams usize_max credit t =
     min (min usize_max (unat (tn_max_streams t) * HEADROOM)) (usize_max div credit)"

definition yamux_window :: "nat \<Rightarrow> nat \<Rightarrow> Tuning \<Rightarrow> nat" where
  "yamux_window usize_max credit t =
     min usize_max (min usize_max (yamux_streams usize_max credit t * credit) +
       (if unat (tn_connection_window t) \<le> usize_max then unat (tn_connection_window t) else usize_max))"

datatype yamux_call = SetMaxWindow "nat option" | SetMaxStreams nat | SetSplitSend nat

definition config_calls :: "nat \<Rightarrow> nat \<Rightarrow> Tuning \<Rightarrow> yamux_call list" where
  "config_calls usize_max credit t =
     [SetMaxWindow None, SetMaxStreams (yamux_streams usize_max credit t),
      SetMaxWindow (Some (yamux_window usize_max credit t)), SetSplitSend (MAX_DATA + 3)]"

text \<open>
  What each setter asserts: that the connection's window, whole if it has none, holds the guarantee of
  every stream. \<open>None\<close> is its panic.
\<close>

definition window_holds :: "nat \<Rightarrow> nat \<Rightarrow> nat option \<times> nat \<Rightarrow> bool" where
  "window_holds usize_max credit = (\<lambda>(window, streams).
     streams * credit \<le> (case window of None \<Rightarrow> usize_max | Some w \<Rightarrow> w))"

fun yamux_set :: "nat \<Rightarrow> nat \<Rightarrow> yamux_call \<Rightarrow> (nat option \<times> nat) option \<Rightarrow> (nat option \<times> nat) option" where
  "yamux_set usize_max credit call None = None"
| "yamux_set usize_max credit (SetMaxWindow w) (Some (_, n)) =
     (if window_holds usize_max credit (w, n) then Some (w, n) else None)"
| "yamux_set usize_max credit (SetMaxStreams n) (Some (w, _)) =
     (if window_holds usize_max credit (w, n) then Some (w, n) else None)"
| "yamux_set usize_max credit (SetSplitSend _) (Some cfg) = Some cfg"

lemma yamux_streams_fit: "yamux_streams usize_max credit t * credit \<le> usize_max"
proof -
  have "yamux_streams usize_max credit t * credit \<le> usize_max div credit * credit"
    by (simp add: yamux_streams_def)
  also have "\<dots> \<le> usize_max" by simp
  finally show ?thesis .
qed

lemma yamux_window_holds: "yamux_streams usize_max credit t * credit \<le> yamux_window usize_max credit t"
  using yamux_streams_fit by (simp add: yamux_window_def)

text \<open>
  From any configuration yamux allows, no setter panics, for any tuning and on any target; and where
  the numbers fit the target, yamux's stream limit is twice the caller's and the window is QUIC's over
  the guarantee of every stream.
\<close>

lemma config_never_panics:
  assumes "n * credit \<le> usize_max"
  shows "fold (yamux_set usize_max credit) (config_calls usize_max credit t) (Some (w, n)) =
     Some (Some (yamux_window usize_max credit t), yamux_streams usize_max credit t)"
  using assms yamux_window_holds [of usize_max credit t] yamux_streams_fit [of usize_max credit t]
  by (simp add: config_calls_def window_holds_def)

lemma config_slack:
  assumes "0 < credit" "unat (tn_max_streams t) * HEADROOM * credit + unat (tn_connection_window t) \<le> usize_max"
  shows "yamux_streams usize_max credit t = 2 * unat (tn_max_streams t) \<and>
    yamux_window usize_max credit t = yamux_streams usize_max credit t * credit + unat (tn_connection_window t)"
proof -
  let ?n = "unat (tn_max_streams t) * HEADROOM"
  have "?n * credit \<le> usize_max" using assms(2) by simp
  then have "?n \<le> usize_max div credit" using assms(1) by (simp add: less_eq_div_iff_mult_less_eq)
  moreover from this have "?n \<le> usize_max" by (rule order_trans) simp
  ultimately have "yamux_streams usize_max credit t = ?n" by (simp add: yamux_streams_def)
  with assms(2) show ?thesis by (simp add: yamux_window_def HEADROOM_def)
qed

section \<open>The driver\<close>

datatype 'a task_poll = Parked | Reached 'a

datatype 's driver_step = StepInbound 's | StepDone

text \<open>
  A request for a stream is a number; \<open>dv_answered\<close> keeps what each was answered, in order, which is
  what its caller's \<open>oneshot\<close> receives.
\<close>

record ('c, 's, 'e) Driver =
  dv_conn :: 'c
  dv_requests :: "nat list"
  dv_pending :: "nat option"
  dv_answered :: "(nat \<times> ('e + 's)) list"

text \<open>
  The first part of \<open>poll_step\<close>: with nothing pending a request is taken, \<open>None\<close> once every sender is
  gone and none is left. \<open>coop\<close> is what tokio lets the task do before its channels make it yield.
\<close>

definition take_request :: "bool \<Rightarrow> nat \<Rightarrow> ('c, 's, 'e) Driver \<Rightarrow> (('c, 's, 'e) Driver \<times> nat) option" where
  "take_request sender coop d =
     (if dv_pending d \<noteq> None \<or> coop = 0 then Some (d, coop)
      else case dv_requests d of
             r # rs \<Rightarrow> Some (d\<lparr>dv_pending := Some r, dv_requests := rs\<rparr>, coop - 1)
           | [] \<Rightarrow> if sender then Some (d, coop) else None)"

definition waiting :: "('c, 's, 'e) Driver \<Rightarrow> nat list" where
  "waiting d = (case dv_pending d of None \<Rightarrow> [] | Some r \<Rightarrow> [r]) @ dv_requests d"

lemma take_request_waiting:
  "take_request sender coop d = Some (d', coop') \<Longrightarrow>
   waiting d' = waiting d \<and> dv_answered d' = dv_answered d \<and> dv_conn d' = dv_conn d"
  by (auto simp: take_request_def waiting_def split: if_splits list.splits option.splits)

lemma waiting_pending: "dv_pending d = Some r \<Longrightarrow> waiting d = r # dv_requests d"
  by (simp add: waiting_def)

lemma waiting_conn [simp]: "waiting (d\<lparr>dv_conn := c\<rparr>) = waiting d"
  by (simp add: waiting_def)

lemma waiting_answered [simp]: "waiting (d\<lparr>dv_conn := c, dv_pending := None, dv_answered := a\<rparr>) = dv_requests d"
  by (simp add: waiting_def)

function poll_step :: "('c \<Rightarrow> 'c \<times> ('e + 's) option task_poll) \<Rightarrow> ('c \<Rightarrow> 'c \<times> ('e + 's) task_poll) \<Rightarrow> bool \<Rightarrow> nat \<Rightarrow>
    ('c, 's, 'e) Driver \<Rightarrow> ('c, 's, 'e) Driver \<times> 's driver_step task_poll" where
  "poll_step inb outb sender coop d =
     (case take_request sender coop d of
        None \<Rightarrow> (d, Reached StepDone)
      | Some (d1, coop1) \<Rightarrow>
          (case inb (dv_conn d1) of
             (c, Reached (Some (Inr stream))) \<Rightarrow> (d1\<lparr>dv_conn := c\<rparr>, Reached (StepInbound stream))
           | (c, Reached (Some (Inl _))) \<Rightarrow> (d1\<lparr>dv_conn := c\<rparr>, Reached StepDone)
           | (c, Reached None) \<Rightarrow> (d1\<lparr>dv_conn := c\<rparr>, Reached StepDone)
           | (c, Parked) \<Rightarrow>
               (case dv_pending d1 of
                  None \<Rightarrow> (d1\<lparr>dv_conn := c\<rparr>, Parked)
                | Some r \<Rightarrow>
                    (case outb c of
                       (c, Parked) \<Rightarrow> (d1\<lparr>dv_conn := c\<rparr>, Parked)
                     | (c, Reached opened) \<Rightarrow>
                         poll_step inb outb sender coop1
                           (d1\<lparr>dv_conn := c, dv_pending := None, dv_answered := dv_answered d1 @ [(r, opened)]\<rparr>)))))"
  by pat_completeness auto

termination
proof (relation "measure (\<lambda>(_, _, _, _, d). length (waiting d))", goal_cases)
  case 1
  show ?case by simp
next
  case (2 inb outb sender coop d taken d1 coop1)
  then have "length (waiting d) = length (waiting d1)"
    using take_request_waiting [of sender coop d d1 coop1] by simp
  with 2 show ?case by (simp add: waiting_pending)
qed

declare poll_step.simps [simp del]

text \<open>
  What a poll does to the requests: some at the head of the line are answered, in order, each with
  what the connection gave right after a poll for inbound streams had found nothing to do, and the
  others keep their place.
\<close>

definition answers_line :: "('c \<Rightarrow> 'c \<times> ('e + 's) option task_poll) \<Rightarrow> ('c \<Rightarrow> 'c \<times> ('e + 's) task_poll) \<Rightarrow>
    ('c, 's, 'e) Driver \<Rightarrow> ('c, 's, 'e) Driver \<Rightarrow> bool" where
  "answers_line inb outb d d' \<longleftrightarrow>
     (\<exists>new. dv_answered d' = dv_answered d @ new \<and> waiting d = map fst new @ waiting d' \<and>
        (\<forall>(r, a) \<in> set new. \<exists>c. snd (inb c) = Parked \<and> snd (outb (fst (inb c))) = Reached a))"

lemma answers_line_same:
  "dv_answered d' = dv_answered d \<Longrightarrow> waiting d' = waiting d \<Longrightarrow> answers_line inb outb d d'"
  by (auto simp: answers_line_def intro!: exI [of _ "[]"])

lemma answers_line_first:
  assumes "answers_line inb outb (d1\<lparr>dv_conn := c', dv_pending := None, dv_answered := dv_answered d1 @ [(r, a)]\<rparr>) d'"
    "dv_pending d1 = Some r" "waiting d = waiting d1" "dv_answered d = dv_answered d1"
    "inb c0 = (c, Parked)" "outb c = (c', Reached a)"
  shows "answers_line inb outb d d'"
proof -
  from assms(1) obtain new where new: "dv_answered d' = dv_answered d1 @ (r, a) # new"
      "dv_requests d1 = map fst new @ waiting d'"
      "\<forall>(r, a) \<in> set new. \<exists>c. snd (inb c) = Parked \<and> snd (outb (fst (inb c))) = Reached a"
    by (auto simp: answers_line_def)
  moreover have "\<exists>c. snd (inb c) = Parked \<and> snd (outb (fst (inb c))) = Reached a"
    using assms(5,6) by (intro exI [of _ c0]) simp
  ultimately show ?thesis
    using assms(2-4) by (auto simp: answers_line_def waiting_pending intro!: exI [of _ "(r, a) # new"])
qed

lemma poll_step_line:
  "poll_step inb outb sender coop d = (d', r) \<Longrightarrow> answers_line inb outb d d'"
proof (induction inb outb sender coop d rule: poll_step.induct)
  case (1 inb outb sender coop d)
  show ?case
  proof (cases "take_request sender coop d")
    case None
    with 1(2) show ?thesis by (auto simp: poll_step.simps [of inb] intro: answers_line_same)
  next
    case (Some taken)
    obtain d1 coop1 where t: "taken = (d1, coop1)" by (cases taken)
    note same = take_request_waiting [OF Some [unfolded t]]
    obtain c p where i: "inb (dv_conn d1) = (c, p)" by fastforce
    show ?thesis
    proof (cases "\<exists>r c' a. p = Parked \<and> dv_pending d1 = Some r \<and> outb c = (c', Reached a)")
      case True
      then obtain q c' a where u: "p = Parked" "dv_pending d1 = Some q" "outb c = (c', Reached a)" by blast
      have "answers_line inb outb (d1\<lparr>dv_conn := c', dv_pending := None, dv_answered := dv_answered d1 @ [(q, a)]\<rparr>) d'"
        using 1 Some t i u by (simp add: poll_step.simps [of inb outb sender coop d])
      from answers_line_first [OF this u(2) _ _ _ u(3)] same i u(1) show ?thesis by simp
    next
      case False
      then have "dv_answered d' = dv_answered d1 \<and> waiting d' = waiting d1"
        using 1(2) Some t i
        by (auto simp: poll_step.simps [of inb outb sender coop d] split: task_poll.splits option.splits sum.splits prod.splits)
      with same show ?thesis by (auto intro: answers_line_same)
    qed
  qed
qed

text \<open>
  A poll that parks with its budget unspent leaves nobody waiting and a sender to wait for, or waits
  itself on the connection to open the next stream, having polled it for inbound streams first.
\<close>

lemma poll_step_parked:
  "poll_step inb outb sender coop d = (d', Parked) \<Longrightarrow> length (waiting d) < coop \<Longrightarrow>
   (sender \<and> waiting d' = []) \<or>
   (\<exists>c0 c r. dv_pending d' = Some r \<and> inb c0 = (c, Parked) \<and> outb c = (dv_conn d', Parked))"
proof (induction inb outb sender coop d rule: poll_step.induct)
  case (1 inb outb sender coop d)
  obtain d1 coop1 where t: "take_request sender coop d = Some (d1, coop1)"
    using 1(2) by (cases "take_request sender coop d") (auto simp: poll_step.simps [of inb])
  note same = take_request_waiting [OF t]
  obtain c where i: "inb (dv_conn d1) = (c, Parked)"
    using 1(2) t by (auto simp: poll_step.simps [of inb outb sender coop d] split: task_poll.splits option.splits sum.splits prod.splits)
  show ?case
  proof (cases "dv_pending d1")
    case None
    then have "sender \<and> waiting d1 = []"
      using t 1(3) by (auto simp: take_request_def waiting_def split: if_splits list.splits)
    moreover have "d' = d1\<lparr>dv_conn := c\<rparr>"
      using 1(2) t i None by (simp add: poll_step.simps [of inb outb sender coop d])
    ultimately show ?thesis by simp
  next
    case (Some q)
    note w = waiting_pending [OF Some]
    show ?thesis
    proof (cases "snd (outb c)")
      case Parked
      then obtain c' where o: "outb c = (c', Parked)" by (cases "outb c") auto
      with 1(2) t i Some have "d' = d1\<lparr>dv_conn := c'\<rparr>" by (simp add: poll_step.simps [of inb outb sender coop d])
      with i Some o show ?thesis by auto
    next
      case (Reached a)
      then obtain c' where o: "outb c = (c', Reached a)" by (cases "outb c") auto
      have "length (dv_requests d1) < coop1"
        using t 1(3) same w by (auto simp: take_request_def waiting_def split: if_splits list.splits)
      with 1 t i Some o show ?thesis by (simp add: poll_step.simps [of inb outb sender coop d])
    qed
  qed
qed

section \<open>The life of a connection\<close>

text \<open>
  The transport's handle with its driver task. \<open>tcp_open\<close>: the handle is held; \<open>tcp_cancelled\<close>: the
  token \<open>closed\<close>; \<open>tcp_running\<close>: the task is in \<open>run\<close>'s select; \<open>tcp_gone\<close>: it has ended.
  \<open>tcp_asked\<close> keeps the requests the channel took, \<open>tcp_refused\<close> those dropped unanswered, whose
  callers see their \<open>oneshot\<close> closed.
\<close>

record ('c, 's, 'e) Tcp =
  tcp_driver :: "('c, 's, 'e) Driver"
  tcp_inbound :: "'s list"
  tcp_open :: bool
  tcp_cancelled :: bool
  tcp_running :: bool
  tcp_gone :: bool
  tcp_asked :: "nat list"
  tcp_refused :: "nat list"

definition spawn :: "'c \<Rightarrow> ('c, 's, 'e) Tcp" where
  "spawn conn = \<lparr>tcp_driver = \<lparr>dv_conn = conn, dv_requests = [], dv_pending = None, dv_answered = []\<rparr>,
     tcp_inbound = [], tcp_open = True, tcp_cancelled = False, tcp_running = True, tcp_gone = False,
     tcp_asked = [], tcp_refused = []\<rparr>"

definition open_capacity :: "Tuning \<Rightarrow> nat" where
  "open_capacity t = max (unat (tn_max_streams t)) 1"

text \<open>What follows \<open>run\<close>'s select: the requests and the pending one are dropped.\<close>

definition stop_serving :: "('c, 's, 'e) Tcp \<Rightarrow> ('c, 's, 'e) Tcp" where
  "stop_serving st = st\<lparr>tcp_running := False, tcp_refused := tcp_refused st @ waiting (tcp_driver st),
     tcp_driver := (tcp_driver st)\<lparr>dv_requests := [], dv_pending := None\<rparr>\<rparr>"

text \<open>One round of \<open>serve\<close>'s loop; an inbound stream nobody can take ends it.\<close>

definition serve_round :: "('c \<Rightarrow> 'c \<times> ('e + 's) option task_poll) \<Rightarrow> ('c \<Rightarrow> 'c \<times> ('e + 's) task_poll) \<Rightarrow> nat \<Rightarrow>
    ('c, 's, 'e) Tcp \<Rightarrow> ('c, 's, 'e) Tcp" where
  "serve_round inb outb coop st =
     (case poll_step inb outb (tcp_open st) coop (tcp_driver st) of
        (d, Parked) \<Rightarrow> st\<lparr>tcp_driver := d\<rparr>
      | (d, Reached (StepInbound stream)) \<Rightarrow>
          if tcp_open st then st\<lparr>tcp_driver := d, tcp_inbound := tcp_inbound st @ [stream]\<rparr>
          else stop_serving (st\<lparr>tcp_driver := d\<rparr>)
      | (d, Reached StepDone) \<Rightarrow> stop_serving (st\<lparr>tcp_driver := d\<rparr>))"

text \<open>
  A request enters the channel while the handle is held, the driver takes requests and the channel has
  room; \<open>Stopped\<close> is the select's other arm, \<open>Goodbye\<close> the end of the go-away or of its grace. An
  event that cannot happen changes nothing.
\<close>

datatype tcp_event = OpenBi nat | AcceptBi | CloseTransport | DropTransport | Polled nat | Stopped | Goodbye

fun tcp_step :: "('c \<Rightarrow> 'c \<times> ('e + 's) option task_poll) \<Rightarrow> ('c \<Rightarrow> 'c \<times> ('e + 's) task_poll) \<Rightarrow> nat \<Rightarrow> tcp_event \<Rightarrow>
    ('c, 's, 'e) Tcp \<Rightarrow> ('c, 's, 'e) Tcp" where
  "tcp_step inb outb capacity (OpenBi r) st =
     (if tcp_open st \<and> tcp_running st \<and> r \<notin> set (tcp_asked st) \<and> length (dv_requests (tcp_driver st)) < capacity
      then st\<lparr>tcp_asked := tcp_asked st @ [r],
             tcp_driver := (tcp_driver st)\<lparr>dv_requests := dv_requests (tcp_driver st) @ [r]\<rparr>\<rparr>
      else st)"
| "tcp_step inb outb capacity AcceptBi st = (if tcp_open st then st\<lparr>tcp_inbound := tl (tcp_inbound st)\<rparr> else st)"
| "tcp_step inb outb capacity CloseTransport st = (if tcp_open st then st\<lparr>tcp_cancelled := True\<rparr> else st)"
| "tcp_step inb outb capacity DropTransport st = st\<lparr>tcp_open := False, tcp_inbound := []\<rparr>"
| "tcp_step inb outb capacity (Polled coop) st = (if tcp_running st then serve_round inb outb coop st else st)"
| "tcp_step inb outb capacity Stopped st = (if tcp_cancelled st \<and> tcp_running st then stop_serving st else st)"
| "tcp_step inb outb capacity Goodbye st =
     (if \<not> tcp_running st then st\<lparr>tcp_cancelled := True, tcp_gone := True\<rparr> else st)"

text \<open>What \<open>open_bi\<close> and \<open>accept_bi\<close> return, when they do.\<close>

datatype 'e OpenError = OpenFailed 'e | Closed

definition open_bi :: "nat \<Rightarrow> ('c, 's, 'e) Tcp \<Rightarrow> ('e OpenError + 's) task_poll" where
  "open_bi r st =
     (case map_of (dv_answered (tcp_driver st)) r of
        Some (Inr stream) \<Rightarrow> Reached (Inr stream)
      | Some (Inl e) \<Rightarrow> Reached (Inl (OpenFailed e))
      | None \<Rightarrow>
          if r \<in> set (tcp_refused st) \<or> (r \<notin> set (tcp_asked st) \<and> \<not> tcp_running st) then Reached (Inl Closed) else Parked)"

definition accept_bi :: "('c, 's, 'e) Tcp \<Rightarrow> ('e OpenError + 's) task_poll" where
  "accept_bi st =
     (case tcp_inbound st of
        stream # _ \<Rightarrow> Reached (Inr stream)
      | [] \<Rightarrow> if tcp_gone st then Reached (Inl Closed) else Parked)"

section \<open>Every request for a stream is answered once, in order\<close>

text \<open>Every request, in the line it stood in: answered, dropped, or waiting still.\<close>

definition tcp_line :: "('c, 's, 'e) Tcp \<Rightarrow> nat list" where
  "tcp_line st = map fst (dv_answered (tcp_driver st)) @ tcp_refused st @ waiting (tcp_driver st)"

definition tcp_ok :: "('c \<Rightarrow> 'c \<times> ('e + 's) option task_poll) \<Rightarrow> ('c \<Rightarrow> 'c \<times> ('e + 's) task_poll) \<Rightarrow> nat \<Rightarrow>
    ('c, 's, 'e) Tcp \<Rightarrow> bool" where
  "tcp_ok inb outb capacity st \<longleftrightarrow>
     distinct (tcp_asked st) \<and> tcp_line st = tcp_asked st \<and>
     length (dv_requests (tcp_driver st)) \<le> capacity \<and>
     (tcp_running st \<longrightarrow> tcp_refused st = [] \<and> \<not> tcp_gone st) \<and>
     (\<not> tcp_running st \<longrightarrow> waiting (tcp_driver st) = []) \<and>
     (tcp_gone st \<longrightarrow> tcp_cancelled st) \<and>
     (\<forall>(r, a) \<in> set (dv_answered (tcp_driver st)). \<exists>c. snd (inb c) = Parked \<and> snd (outb (fst (inb c))) = Reached a)"

lemma stop_serving_line: "tcp_line (stop_serving st) = tcp_line st"
  by (simp add: tcp_line_def stop_serving_def waiting_def)

lemma stop_serving_ok:
  assumes "tcp_ok inb outb capacity st" "tcp_running st"
  shows "tcp_ok inb outb capacity (stop_serving st)"
  using assms unfolding tcp_ok_def stop_serving_line by (simp add: stop_serving_def waiting_def)

lemma take_request_len: "take_request sender coop d = Some (d', n) \<Longrightarrow> length (dv_requests d') \<le> length (dv_requests d)"
  by (auto simp: take_request_def split: if_splits list.splits)

lemma poll_step_len: "poll_step inb outb sender coop d = (d', r) \<Longrightarrow> length (dv_requests d') \<le> length (dv_requests d)"
proof (induction inb outb sender coop d rule: poll_step.induct)
  case (1 inb outb sender coop d)
  then show ?case using take_request_len [of sender coop d]
    by (fastforce simp: poll_step.simps [of inb outb sender coop d] intro: order_trans
      split: option.splits task_poll.splits sum.splits prod.splits)
qed

lemma answers_line_ok:
  assumes "tcp_ok inb outb capacity st" "tcp_running st" "poll_step inb outb sender coop (tcp_driver st) = (d, r)"
  shows "tcp_ok inb outb capacity (st\<lparr>tcp_driver := d\<rparr>)"
proof -
  from poll_step_line [OF assms(3)] obtain new where "dv_answered d = dv_answered (tcp_driver st) @ new"
      "waiting (tcp_driver st) = map fst new @ waiting d"
      "\<forall>(r, a) \<in> set new. \<exists>c. snd (inb c) = Parked \<and> snd (outb (fst (inb c))) = Reached a"
    by (auto simp: answers_line_def)
  moreover from this assms(1,2) have "tcp_line (st\<lparr>tcp_driver := d\<rparr>) = tcp_line st"
    by (simp add: tcp_line_def tcp_ok_def)
  ultimately show ?thesis using assms(1,2) poll_step_len [OF assms(3)] by (auto simp: tcp_ok_def)
qed

lemma tcp_line_flags [simp]:
  "tcp_line (st\<lparr>tcp_inbound := xs\<rparr>) = tcp_line st" "tcp_line (st\<lparr>tcp_cancelled := b\<rparr>) = tcp_line st"
  "tcp_line (st\<lparr>tcp_open := b\<rparr>) = tcp_line st"
  "tcp_line (st\<lparr>tcp_gone := b\<rparr>) = tcp_line st"
  by (simp_all add: tcp_line_def)

lemma tcp_ok_inbound [simp]: "tcp_ok inb outb capacity (st\<lparr>tcp_inbound := xs\<rparr>) = tcp_ok inb outb capacity st"
  by (simp add: tcp_ok_def)

lemma tcp_line_open:
  "tcp_line (st\<lparr>tcp_asked := rs, tcp_driver := (tcp_driver st)\<lparr>dv_requests := dv_requests (tcp_driver st) @ [r]\<rparr>\<rparr>) =
   tcp_line st @ [r]"
  by (simp add: tcp_line_def waiting_def)

lemma serve_round_ok:
  assumes "tcp_ok inb outb capacity st" "tcp_running st"
  shows "tcp_ok inb outb capacity (serve_round inb outb coop st)"
proof -
  obtain d r where p: "poll_step inb outb (tcp_open st) coop (tcp_driver st) = (d, r)" by fastforce
  note ok = answers_line_ok [OF assms p]
  have "tcp_ok inb outb capacity (stop_serving (st\<lparr>tcp_driver := d\<rparr>))"
    by (rule stop_serving_ok [OF ok]) (simp add: assms(2))
  moreover have "tcp_ok inb outb capacity (st\<lparr>tcp_driver := d, tcp_inbound := xs\<rparr>)" for xs
    using ok tcp_ok_inbound [where st = "st\<lparr>tcp_driver := d\<rparr>"] by simp
  ultimately show ?thesis using ok p by (auto simp: serve_round_def split: task_poll.splits driver_step.splits)
qed

lemma tcp_step_ok:
  assumes "tcp_ok inb outb capacity st"
  shows "tcp_ok inb outb capacity (tcp_step inb outb capacity ev st)"
proof (cases ev)
  case (OpenBi r)
  with assms tcp_line_open [where st = st and r = r] show ?thesis by (simp add: tcp_ok_def)
next
  case (Polled coop)
  with assms show ?thesis by (simp add: serve_round_ok)
next
  case Stopped
  with assms show ?thesis by (simp add: stop_serving_ok)
qed (use assms in \<open>auto simp: tcp_ok_def\<close>)

interpretation driving: machine "tcp_step inb outb capacity" "tcp_ok inb outb capacity"
  for inb :: "'c \<Rightarrow> 'c \<times> ('e + 's) option task_poll" and outb capacity
  by unfold_locales (rule tcp_step_ok)

lemma spawn_ok: "tcp_ok inb outb capacity (spawn conn)"
  by (simp add: tcp_ok_def tcp_line_def spawn_def waiting_def)

lemma tcp_reachable: "tcp_ok inb outb capacity (fold (tcp_step inb outb capacity) evs (spawn conn))"
  by (rule driving.run_inv) (rule spawn_ok)

lemma open_bi_settled:
  assumes "tcp_ok inb outb capacity st" "\<not> tcp_running st"
  shows "open_bi r st \<noteq> Parked"
proof -
  have "set (tcp_asked st) = set (tcp_line st)" "waiting (tcp_driver st) = []"
    using assms by (simp_all add: tcp_ok_def)
  then have asked: "set (tcp_asked st) = fst ` set (dv_answered (tcp_driver st)) \<union> set (tcp_refused st)"
    by (simp add: tcp_line_def)
  show ?thesis
  proof (cases "map_of (dv_answered (tcp_driver st)) r")
    case None
    then have "r \<notin> fst ` set (dv_answered (tcp_driver st))" by (simp add: map_of_eq_None_iff)
    with None asked assms(2) show ?thesis by (simp add: open_bi_def)
  next
    case (Some a)
    then show ?thesis by (cases a) (simp_all add: open_bi_def)
  qed
qed

text \<open>
  C10: however opens, polls, inbound streams, a close, a drop and the driver's end interleave, every
  request for a stream is answered once and in the order asked, with what the multiplexer gave right
  after it had been polled for inbound streams and had nothing more to do; the channel stays within
  its capacity, and once the driver has left its loop nobody waits: each caller has its stream, the
  multiplexer's error, or the error that the transport is closed.
\<close>

theorem opens_answered_once:
  "let st = fold (tcp_step inb outb capacity) evs (spawn conn); d = tcp_driver st in
     distinct (tcp_asked st) \<and>
     tcp_asked st = map fst (dv_answered d) @ tcp_refused st @ waiting d \<and>
     length (dv_requests d) \<le> capacity \<and>
     (\<forall>(r, a) \<in> set (dv_answered d). \<exists>c. snd (inb c) = Parked \<and> snd (outb (fst (inb c))) = Reached a) \<and>
     (tcp_running st \<longrightarrow> tcp_refused st = []) \<and>
     (\<not> tcp_running st \<longrightarrow> waiting d = [] \<and> (\<forall>r. open_bi r st \<noteq> Parked)) \<and>
     (tcp_gone st \<longrightarrow> tcp_cancelled st)"
proof -
  let ?st = "fold (tcp_step inb outb capacity) evs (spawn conn)"
  have ok: "tcp_ok inb outb capacity ?st" by (rule tcp_reachable)
  then have "tcp_asked ?st = tcp_line ?st" unfolding tcp_ok_def by simp
  with ok open_bi_settled [OF ok] show ?thesis unfolding Let_def tcp_ok_def tcp_line_def by blast
qed

text \<open>A multiplexer that has nothing inbound and opens a stream whenever it is asked, numbering them.\<close>

definition opens_each :: "nat \<Rightarrow> nat \<times> (unit + nat) task_poll" where
  "opens_each n = (Suc n, Reached (Inr n))"

definition nothing_inbound :: "nat \<Rightarrow> nat \<times> (unit + nat) option task_poll" where
  "nothing_inbound n = (n, Parked)"

theorem opens_answered_once_witness:
  "let st = fold (tcp_step nothing_inbound opens_each 4) [OpenBi 7, OpenBi 9, Polled 1, CloseTransport, Stopped] (spawn 5) in
     tcp_asked st = [7, 9] \<and> \<not> tcp_running st \<and> open_bi 7 st = Reached (Inr 5) \<and> open_bi 9 st = Reached (Inl Closed) \<and>
     open_bi 8 st \<noteq> Parked"
proof -
  let ?st = "fold (tcp_step nothing_inbound opens_each 4) [OpenBi 7, OpenBi 9, Polled 1, CloseTransport, Stopped] (spawn 5)"
  have "tcp_asked ?st = [7, 9] \<and> \<not> tcp_running ?st \<and> open_bi 7 ?st = Reached (Inr 5) \<and> open_bi 9 ?st = Reached (Inl Closed)"
    by (simp add: spawn_def serve_round_def poll_step.simps take_request_def nothing_inbound_def opens_each_def
      stop_serving_def waiting_def open_bi_def)
  then show ?thesis
    using opens_answered_once [of nothing_inbound opens_each 4 "[OpenBi 7, OpenBi 9, Polled 1, CloseTransport, Stopped]" 5]
    unfolding Let_def by blast
qed

text \<open>
  Dropping the transport ends the driver at its next poll with its budget unspent, unless a request is
  waiting on the multiplexer.
\<close>

lemma dropped_driver_ends:
  assumes "tcp_running st" "\<not> tcp_open st" "length (waiting (tcp_driver st)) < coop"
    "tcp_running (tcp_step inb outb capacity (Polled coop) st)"
  shows "\<exists>c0 c r d. tcp_driver (tcp_step inb outb capacity (Polled coop) st) = d \<and> dv_pending d = Some r \<and>
    inb c0 = (c, Parked) \<and> outb c = (dv_conn d, Parked)"
proof -
  obtain d r where p: "poll_step inb outb False coop (tcp_driver st) = (d, r)" by fastforce
  with assms have "r = Parked" "tcp_driver (tcp_step inb outb capacity (Polled coop) st) = d"
    by (auto simp: serve_round_def stop_serving_def split: task_poll.splits driver_step.splits)
  with poll_step_parked [of inb outb False coop "tcp_driver st" d] p assms(3) show ?thesis by auto
qed

text \<open>
  With a request parked on a multiplexer that neither opens nor delivers a stream, no number of polls
  notices that the transport was dropped: the channel of requests is not looked at.
\<close>

lemma poll_step_stuck:
  assumes "inb (dv_conn d) = (dv_conn d, Parked)" "outb (dv_conn d) = (dv_conn d, Parked)" "dv_pending d = Some r"
  shows "poll_step inb outb sender coop d = (d, Parked)"
  using assms by (simp add: poll_step.simps [of inb] take_request_def)

theorem drop_unnoticed_while_parked:
  assumes "tcp_running st" "inb (dv_conn (tcp_driver st)) = (dv_conn (tcp_driver st), Parked)"
    "outb (dv_conn (tcp_driver st)) = (dv_conn (tcp_driver st), Parked)" "dv_pending (tcp_driver st) = Some r"
  shows "tcp_running (fold (tcp_step inb outb capacity) (DropTransport # map Polled coops) st)"
proof -
  have "tcp_step inb outb capacity (Polled coop) st' = st'"
    if "tcp_running st'" "tcp_driver st' = tcp_driver st" for coop st'
    using that(1) poll_step_stuck [of inb "tcp_driver st'" outb r] assms(2-4) unfolding that(2) [symmetric]
    by (simp add: serve_round_def)
  then have stays: "fold (tcp_step inb outb capacity) (map Polled coops) st' = st'"
    if "tcp_running st'" "tcp_driver st' = tcp_driver st" for st'
    using that by (induction coops) (simp_all del: tcp_step.simps)
  show ?thesis using assms(1) stays [of "st\<lparr>tcp_open := False, tcp_inbound := []\<rparr>"] by simp
qed

text \<open>One open on a multiplexer that is full comes to that.\<close>

lemma drop_unnoticed_reached:
  "tcp_running (fold (tcp_step (\<lambda>c. (c, Parked)) (\<lambda>c. (c, Parked)) 1)
     ([OpenBi r, Polled 1] @ DropTransport # map Polled coops) (spawn conn))"
  unfolding fold_append comp_def
  by (rule drop_unnoticed_while_parked [of _ _ _ r])
     (simp_all add: spawn_def serve_round_def poll_step.simps take_request_def)

section \<open>Datagrams\<close>

text \<open>The TCP transport carries none, so every UDP packet takes the bulk stream.\<close>

definition tcp_link :: link where
  "tcp_link = \<lparr>max_datagram_size = None, send_buffer_space = 0, send_datagram = (\<lambda>_. Inl NoDatagrams)\<rparr>"

lemma tcp_dispatch: "dispatch tcp_link (Inr packet) (s, d) = (to_bulk packet (s, d), None)"
  by (simp add: dispatch_def tcp_link_def)

datatype SendDatagramError = SdTooLarge | SdUnsupportedByPeer | SdDisabled | SdConnectionLost

fun quic_datagram_error :: "SendDatagramError \<Rightarrow> TransportError" where
  "quic_datagram_error SdTooLarge = DatagramTooLarge"
| "quic_datagram_error SdUnsupportedByPeer = NoDatagrams"
| "quic_datagram_error SdDisabled = NoDatagrams"
| "quic_datagram_error SdConnectionLost = Connection"

definition quic_link :: "nat option \<Rightarrow> nat \<Rightarrow> (bytes \<Rightarrow> SendDatagramError + unit) \<Rightarrow> link" where
  "quic_link limit space send =
     \<lparr>max_datagram_size = limit, send_buffer_space = space,
      send_datagram = (\<lambda>data. case send data of Inl e \<Rightarrow> Inl (quic_datagram_error e) | Inr u \<Rightarrow> Inr u)\<rparr>"

text \<open>A packet QUIC does not take as a datagram goes to the bulk stream, unless the connection is lost.\<close>

lemma quic_dispatch_kept:
  assumes "dispatch (quic_link limit space send) (Inr packet) (s, d) = ((s', d'), None)" "send packet \<noteq> Inl SdConnectionLost"
  shows "\<exists>d1 \<in> {d, queue_full d}. to_bulk packet (s, d1) = (s', d')"
proof (cases rule: dispatch_cases [OF assms(1)])
  case (4 p)
  then have "\<exists>e. send packet = Inl e \<and> quic_datagram_error e \<in> {Connection, TransportIo}"
    by (auto simp: quic_link_def split: sum.splits)
  with assms(2) show ?thesis by (metis quic_datagram_error.elims TransportError.distinct insertE singletonD)
qed auto

section \<open>The peer's key and a stream's code\<close>

text \<open>
  The key of a connection's peer: of the first certificate of its chain. On QUIC \<open>certs\<close> is \<open>None\<close> also
  when the identity is no chain of certificates.
\<close>

definition transport_peer_key :: "(bytes \<Rightarrow> Spki option) \<Rightarrow> bytes list option \<Rightarrow> PublicKey option" where
  "transport_peer_key from_der certs =
     (case certs of
        Some (cert # _) \<Rightarrow> (case peer_key from_der cert of Inr key \<Rightarrow> Some key | Inl _ \<Rightarrow> None)
      | _ \<Rightarrow> None)"

text \<open>On a connection whose certificate the pinning verifier took, the peer's key is the one pinned.\<close>

lemma pinned_peer_key:
  assumes "verify_server_cert from_der v cert = Inr ()"
  shows "transport_peer_key from_der (Some (cert # rest)) = Some (pin_expected v)"
  using assms by (simp add: verify_server_cert_iff transport_peer_key_def)

text \<open>What an \<open>io::Error\<close> carries, as far as \<open>reset_code\<close> tells its sources apart; codes of QUIC are 62 bits wide.\<close>

datatype io_source = SourceStreamReset "u32 option" | SourceReadReset nat | SourceReadOther | SourceWriteStopped nat
  | SourceWriteOther | SourceOther

fun reset_code :: "io_source option \<Rightarrow> u32 option" where
  "reset_code None = None"
| "reset_code (Some (SourceStreamReset code)) = code"
| "reset_code (Some (SourceReadReset code)) = (if code < 2 ^ 32 then Some (word_of_nat code) else None)"
| "reset_code (Some (SourceWriteStopped code)) = (if code < 2 ^ 32 then Some (word_of_nat code) else None)"
| "reset_code (Some _) = None"

fun io_error_source :: "'e io_error \<Rightarrow> io_source option" where
  "io_error_source (ConnectionReset code) = Some (SourceStreamReset code)"
| "io_error_source WriteZero = None"
| "io_error_source BrokenPipe = None"
| "io_error_source (Inner _) = Some SourceOther"

text \<open>Both transports give back the code a peer reset a stream with.\<close>

lemma reset_code_either:
  "reset_code (Some (SourceReadReset (unat (code :: u32)))) = Some code \<and>
   reset_code (Some (SourceWriteStopped (unat code))) = Some code \<and>
   reset_code (io_error_source (ConnectionReset (Some code))) = Some code"
  using unsigned_less [of code] by simp

end
