(* ===== verification/Spec2Isabelle.thy ===== *)
theory Spec2Isabelle
  imports Record_Stream Server_Listener Udp_Journey Cmd_Status Cmd_Server Upgrade_Guard Net_Bind Tcp_Transport
begin

text \<open>
  A verification development for hawse, a tunnel that publishes TCP and UDP services of a client on
  the ports of a server.

  \<^bold>\<open>The program.\<close> A client (\<open>hawse-core/src/client\<close>) dials a server (\<open>hawse-core/src/server\<close>) over QUIC
  or over TLS on TCP, proves its key, and asks for each of its services to be bound to a public port.
  The server admits the connection (the limiter counts failed attempts by address), looks the key up
  in its policy, and runs one session per key. A session claims ports from the one allocator, runs a
  listener task per TCP service and a UDP service with a session table per UDP one, and hands every
  visitor to the client on a stream of its own, or every datagram in a packet. The client dials the
  local address of the service the stream names and pumps bytes both ways. Streams over TCP carry
  records, so that a reset can be told from an end. Both ends reload their configuration while they
  run. The command line (\<open>hawse/src\<close>) shows how a client or a server stands.

  \<^bold>\<open>Theories, from the bottom.\<close>
  \<^item> \<open>Hawse_Prelude\<close>: machine types, byte encodings, hash maps, and the interfaces \<open>text_form\<close> (a text
    that parses back) and \<open>machine\<close> (a state its operations keep well formed). \<open>Rust_Text\<close>, \<open>Rust_Tree\<close>,
    \<open>Rust_Float\<close> and \<open>Net_Addr\<close> model what the code uses of the standard library: UTF-8 strings,
    decimal numbers, \<open>BTreeMap\<close>, \<open>f64\<close> arithmetic with rounding to nearest (interface \<open>rounding\<close>),
    and addresses with their canonical form.
  \<^item> \<open>hawse-proto\<close>: \<open>Proto_Name\<close>, \<open>Proto_Port\<close>, \<open>Proto_Key\<close>, \<open>Proto_Msg\<close>, \<open>Proto_Record\<close>, \<open>Proto_Packet\<close>
    (frames, packets, PROXY headers). Their lemmas are round trips and exact characterisations.
  \<^item> \<open>Record_Stream\<close> (\<open>transport/records.rs\<close>): reader and writer against byte streams that arrive in any
    chunks, equal to a reference reader, and the round trip through both.
  \<^item> \<open>Allow_List\<close>, \<open>Units\<close>, \<open>Config\<close>, \<open>Server_Policy\<close> (\<open>allow.rs\<close>, \<open>config.rs\<close>, \<open>server/policy.rs\<close>): what a
    valid configuration is, what a reload needs, and what a grant allows.
  \<^item> \<open>Server_Ports\<close> (\<open>server/ports.rs\<close>, interface \<open>port_pool\<close>), \<open>Server_Limiter\<close> (\<open>server/limiter.rs\<close>),
    \<open>Server_Session\<close> (\<open>server/session.rs\<close>: binding, unbinding, reloads and every arm of a session's loop as
    the step relation \<open>session_step\<close>), \<open>Server_Run\<close> (\<open>server/mod.rs\<close> and the opening of a session),
    \<open>Server_Listener\<close> (\<open>server/listener.rs\<close>), \<open>Udp_Table\<close>, \<open>Udp_Sender\<close>, \<open>Server_Udp\<close> (\<open>udp.rs\<close>,
    \<open>server/udp\<close>).
  \<^item> \<open>Traffic\<close>, \<open>Pump\<close> (\<open>traffic.rs\<close>, \<open>pump.rs\<close>), \<open>Client_Udp\<close> (\<open>client/udp.rs\<close>), \<open>Client_Dial\<close>
    (\<open>client/backoff.rs\<close>, \<open>client/race.rs\<close> and the dialing of \<open>client/mod.rs\<close>), \<open>Client_Session\<close> (the rest of
    \<open>client/mod.rs\<close> and \<open>client/visitor.rs\<close>), \<open>Udp_Journey\<close> (a datagram there and back).
  \<^item> \<open>Terminal\<close>, \<open>Client_Panel\<close> (\<open>hawse/src/terminal.rs\<close>, \<open>panel.rs\<close>, \<open>screen.rs\<close>): the panel a client draws,
    and that it fits the terminal. \<open>Client_Status\<close>, \<open>Server_Status\<close> (\<open>status\<close>, \<open>notify.rs\<close>,
    \<open>commands/client.rs\<close>): what a status reply, the panel and systemd's line say of the same events.
    \<open>Net_Text\<close>, \<open>Net_Parse\<close>: how addresses are printed and read. \<open>Status_Lines\<close> (the rest of \<open>terminal.rs\<close>): how a
    status reply is drawn, with a row for every answer.
  \<^item> \<open>Host_Files\<close>: the host a command runs on. A \<open>world\<close> is a file tree with links, owners and modes, the
    programs that ran, and what was printed; an \<open>io\<close> computation passes it along and may end in an
    error. The interface \<open>frame\<close> states a set of paths a computation leaves as they were, \<open>quiet_frame\<close>
    one that also runs nothing; they are interpreted on what the commands must not touch.
    \<open>Utf8_Ascii\<close> shows that a text of ASCII letters is its bytes.
  \<^item> \<open>Identity\<close>, \<open>Cmd_Paths\<close>, \<open>Cmd_Config\<close> (\<open>identity.rs\<close>, \<open>paths.rs\<close>, \<open>config_file.rs\<close>, \<open>commands/check.rs\<close>,
    \<open>keygen.rs\<close>, \<open>join.rs\<close>): a key is made once and kept, a config is written only after an answer.
    \<open>Service\<close> (\<open>commands/service.rs\<close> with \<open>systemd.rs\<close> and \<open>launchd.rs\<close>): what install writes, and what it
    refuses to touch. \<open>Upgrade\<close>, \<open>Upgrade_Guard\<close> (\<open>commands/upgrade.rs\<close>): wherever it stops, the binary is whole,
    and nothing changes unless every guard let it.
  \<^item> \<open>Net_Bind\<close> (\<open>net.rs\<close>, the listening side of \<open>transport/quic.rs\<close>, \<open>error.rs\<close>): which addresses a bound port
    answers, and that a held port is never answered in part. \<open>Tcp_Transport\<close> (\<open>transport/tcp.rs\<close>, datagrams and
    codes of \<open>transport/mod.rs\<close>): the limits of the multiplexer, and its driver as a \<open>machine\<close> over polls,
    opens, a close and a drop, which answers every open once.
  \<^item> \<open>Tls\<close> (\<open>tls.rs\<close>): which certificates either end accepts. \<open>Cmd_Server\<close> (\<open>commands/mod.rs\<close>, \<open>commands/server.rs\<close>):
    when a config is read again, as the step relation \<open>reloads_step\<close>, and which policy is then in force.
    \<open>Socket\<close>, \<open>Cmd_Status\<close> (\<open>socket.rs\<close>, \<open>commands/status.rs\<close>): asking a running process how it stands.

  \<^bold>\<open>How code is modelled.\<close> Shared state behind locks and tasks that run beside each other are records
  passed along explicitly, with one operation per critical section, and a loop over \<open>select!\<close> is one
  step per arm; theorems hold for every sequence of steps. What the host and the peers do (an accept,
  a bind, a write that fails, what the greeting came to, the time) is an argument. Errors are
  constructors of a sum. Counters keep their width (\<open>u64\<close> wraps) where the code lets them overflow;
  instants and durations are natural numbers of nanoseconds, subtracted with saturation as \<open>Instant\<close>
  does. Loops that may not end in principle return an option, and the theorems show the fuel is
  enough: \<open>claim_id\<close> looks at one more id than there are sessions, \<open>open_loop\<close> at each pool port once,
  \<open>sweep_loop\<close> at each session once. A path is followed through at most 40 links, Linux's own bound, past
  which the host answers with an error; \<open>bootout\<close> looks 602 times, more than its deadline allows.

  \<^bold>\<open>Third-party code\<close> is an argument, with what is relied on as a named hypothesis: ipnet (\<open>ipnet\<close>),
  postcard (\<open>encode\<close>/\<open>decode\<close>), base64, the codec of tokio-util, quinn and yamux (a stream is what was
  written, in order, and how it ended), rcgen (a key pair, its PEM text and its
  certificate), x509-parser, rustls, serde (a request reads back, a reply is one line), toml, strsim,
  etcetera, notify, SHA-256, unicode-width and clap's styling (nothing is assumed of these last ones).

  \<^bold>\<open>Not modelled.\<close> The dial and the handshake of a connection, and the calls that pass a stream's bytes to
  quinn or yamux (\<open>transport\<close>), are those libraries' work, whose behaviour is not in this repository;
  signals, logging and the parsing of arguments are calls to the host or to a library. A command that starts tasks and waits for them (\<open>run\<close> of \<open>commands/client.rs\<close> and
  \<open>commands/server.rs\<close>) is modelled in its parts: what each task does, and what they share.
\<close>

end
